(* ===== verification/Prelude.thy ===== *)
theory Prelude
  imports Main "HOL-Library.Word"
begin

text \<open>
  Shared vocabulary of the development.

  A Rust \<open>str\<close> is modelled by the list of its UTF-8 bytes (\<open>string\<close>), so \<open>length\<close> is Rust's
  \<open>len\<close>. The string operations of the standard library that the sources use are defined here on
  bytes: substring search, prefix and suffix tests, \<open>trim\<close>, \<open>lines\<close>, \<open>splitn\<close>,
  \<open>split_once\<close>, decimal parsing and printing, UTF-8 validity and character boundaries.
  \<open>Result<T, E>\<close> is the sum \<open>'e + 'a\<close> with \<open>Inl\<close> for \<open>Err\<close>.
\<close>

named_theorems str_simps \<open>rewrite rules for the string operations\<close>
named_theorems shape_simps \<open>equations that unfold guards and result shapes of handlers\<close>

section \<open>Results\<close>

definition and_then :: "'e + 'a \<Rightarrow> ('a \<Rightarrow> 'e + 'b) \<Rightarrow> 'e + 'b" where
  "and_then r f = (case r of Inl e \<Rightarrow> Inl e | Inr a \<Rightarrow> f a)"

definition ok_or :: "'e \<Rightarrow> 'a option \<Rightarrow> 'e + 'a" where
  "ok_or e x = (case x of None \<Rightarrow> Inl e | Some a \<Rightarrow> Inr a)"

definition unwrap_or :: "'a \<Rightarrow> 'a option \<Rightarrow> 'a" where
  "unwrap_or d x = (case x of None \<Rightarrow> d | Some a \<Rightarrow> a)"

definition map_err :: "('e \<Rightarrow> 'f) \<Rightarrow> 'e + 'a \<Rightarrow> 'f + 'a" where
  "map_err f r = (case r of Inl e \<Rightarrow> Inl (f e) | Inr a \<Rightarrow> Inr a)"

definition is_ok :: "'e + 'a \<Rightarrow> bool" where
  "is_ok r = (case r of Inl _ \<Rightarrow> False | Inr _ \<Rightarrow> True)"

text \<open>\<open>check b e\<close> is the early return \<open>if !b { return Err(e) }\<close>.\<close>

definition check :: "bool \<Rightarrow> 'e \<Rightarrow> 'e + unit" where
  "check b e = (if b then Inr () else Inl e)"

lemma and_then_simps [simp]:
  "and_then (Inl e) f = Inl e"
  "and_then (Inr a) f = f a"
  by (simp_all add: and_then_def)

lemma and_then_Inr_conv [shape_simps]:
  "and_then r f = Inr b \<longleftrightarrow> (\<exists>a. r = Inr a \<and> f a = Inr b)"
  by (cases r) simp_all

lemma ok_or_simps [simp]:
  "ok_or e None = Inl e"
  "ok_or e (Some a) = Inr a"
  by (simp_all add: ok_or_def)

lemma ok_or_Inr_conv [shape_simps]: "ok_or e x = Inr a \<longleftrightarrow> x = Some a"
  by (cases x) simp_all

lemma map_err_simps [simp]:
  "map_err f (Inl e) = Inl (f e)"
  "map_err f (Inr a) = Inr a"
  by (simp_all add: map_err_def)

lemma map_err_Inr_conv [shape_simps]: "map_err f r = Inr a \<longleftrightarrow> r = Inr a"
  by (cases r) simp_all

lemma is_ok_simps [simp]:
  "\<not> is_ok (Inl e)"
  "is_ok (Inr a)"
  by (simp_all add: is_ok_def)

lemma is_ok_and_then [shape_simps]:
  "is_ok (and_then r f) \<longleftrightarrow> (\<exists>a. r = Inr a \<and> is_ok (f a))"
  by (cases r) simp_all

lemma is_okE: "is_ok r \<Longrightarrow> (\<And>a. r = Inr a \<Longrightarrow> P) \<Longrightarrow> P"
  by (cases r) simp_all

lemma check_simps [simp]:
  "check True e = Inr ()"
  "check False e = Inl e"
  by (simp_all add: check_def)

lemma check_Inr_conv [shape_simps]: "check b e = Inr u \<longleftrightarrow> b"
  by (simp add: check_def)

section \<open>Bytes and character classes\<close>

definition byte :: "char \<Rightarrow> nat" where
  "byte c = of_char c"

definition of_bytes :: "nat list \<Rightarrow> string" where
  "of_bytes bs = map char_of bs"

definition in_range :: "nat \<Rightarrow> nat \<Rightarrow> char \<Rightarrow> bool" where
  "in_range lo hi c \<longleftrightarrow> lo \<le> byte c \<and> byte c \<le> hi"

definition is_ascii_digit :: "char \<Rightarrow> bool" where
  "is_ascii_digit c \<longleftrightarrow> in_range 48 57 c"

definition is_ascii_lowercase :: "char \<Rightarrow> bool" where
  "is_ascii_lowercase c \<longleftrightarrow> in_range 97 122 c"

definition is_ascii_uppercase :: "char \<Rightarrow> bool" where
  "is_ascii_uppercase c \<longleftrightarrow> in_range 65 90 c"

definition is_ascii :: "char \<Rightarrow> bool" where
  "is_ascii c \<longleftrightarrow> byte c < 128"

lemma byte_less [simp]: "byte c < 256"
  by (cases c) (simp add: byte_def)

lemma byte_char_of [simp]: "n < 256 \<Longrightarrow> byte (char_of n) = n"
  by (simp add: byte_def)

lemma char_of_byte [simp]: "char_of (byte c) = c"
  by (simp add: byte_def)

lemma byte_eq_iff: "byte c = byte d \<longleftrightarrow> c = d"
  by (metis char_of_byte)

section \<open>Substring, prefix and suffix tests\<close>

definition starts_with :: "string \<Rightarrow> string \<Rightarrow> bool" where
  "starts_with s p \<longleftrightarrow> take (length p) s = p"

definition ends_with :: "string \<Rightarrow> string \<Rightarrow> bool" where
  "ends_with s p \<longleftrightarrow> length p \<le> length s \<and> drop (length s - length p) s = p"

fun contains :: "string \<Rightarrow> string \<Rightarrow> bool" where
  "contains [] p \<longleftrightarrow> p = []"
| "contains (c # cs) p \<longleftrightarrow> starts_with (c # cs) p \<or> contains cs p"

definition strip_prefix :: "string \<Rightarrow> string \<Rightarrow> string option" where
  "strip_prefix s p = (if starts_with s p then Some (drop (length p) s) else None)"

definition strip_suffix :: "string \<Rightarrow> string \<Rightarrow> string option" where
  "strip_suffix s p = (if ends_with s p then Some (take (length s - length p) s) else None)"

lemma starts_with_iff: "starts_with s p \<longleftrightarrow> (\<exists>v. s = p @ v)"
  unfolding starts_with_def by (metis append_take_drop_id append_eq_conv_conj)

lemma ends_with_iff: "ends_with s p \<longleftrightarrow> (\<exists>u. s = u @ p)"
proof
  assume "ends_with s p"
  then have "s = take (length s - length p) s @ p"
    unfolding ends_with_def by (metis append_take_drop_id)
  then show "\<exists>u. s = u @ p" ..
next
  assume "\<exists>u. s = u @ p"
  then show "ends_with s p" by (auto simp: ends_with_def)
qed

lemma contains_iff: "contains s p \<longleftrightarrow> (\<exists>u v. s = u @ p @ v)"
proof (induction s)
  case Nil
  then show ?case by auto
next
  case (Cons c cs)
  show ?case
  proof
    assume "contains (c # cs) p"
    then consider v where "c # cs = p @ v" | u v where "cs = u @ p @ v"
      using Cons.IH by (auto simp: starts_with_iff)
    then show "\<exists>u v. c # cs = u @ p @ v"
      by cases (metis append_Nil, metis append_Cons)
  next
    assume "\<exists>u v. c # cs = u @ p @ v"
    then obtain u v where uv: "c # cs = u @ p @ v" by blast
    show "contains (c # cs) p"
    proof (cases u)
      case Nil
      with uv have "starts_with (c # cs) p" by (auto simp: starts_with_iff)
      then show ?thesis by simp
    next
      case (Cons d ds)
      with uv have "cs = ds @ p @ v" by simp
      with Cons.IH show ?thesis by auto
    qed
  qed
qed

lemma contains_self [simp]: "contains s s"
  unfolding contains_iff by (rule exI [where x = "[]"], rule exI [where x = "[]"]) simp

lemma contains_appendI:
  "contains s p \<Longrightarrow> contains (u @ s @ v) p"
  unfolding contains_iff by (metis append.assoc)

lemma contains_append1: "contains s p \<Longrightarrow> contains (s @ v) p"
  using contains_appendI [of s p "[]" v] by simp

lemma contains_append2: "contains s p \<Longrightarrow> contains (u @ s) p"
  using contains_appendI [of s p u "[]"] by simp

lemma starts_with_append [simp]: "starts_with (p @ v) p"
  by (simp add: starts_with_def)

lemma starts_with_self [simp]: "starts_with s s"
  by (simp add: starts_with_def)

lemma ends_with_append [simp]: "ends_with (u @ p) p"
  by (simp add: ends_with_def)

lemma strip_suffix_append [simp]: "strip_suffix (u @ p) p = Some u"
  by (simp add: strip_suffix_def)

lemma strip_suffix_Some: "strip_suffix s p = Some u \<longleftrightarrow> s = u @ p"
  by (auto simp: strip_suffix_def ends_with_iff split: if_splits)

lemma strip_suffix_None: "strip_suffix s p = None \<longleftrightarrow> (\<nexists>u. s = u @ p)"
  by (auto simp: strip_suffix_def ends_with_iff)

lemma strip_prefix_Some: "strip_prefix s p = Some v \<longleftrightarrow> s = p @ v"
  by (auto simp: strip_prefix_def starts_with_iff split: if_splits)

text \<open>\<open>trim_start_matches\<close> and \<open>trim_end_matches\<close> remove the pattern repeatedly.\<close>

function trim_start_matches :: "string \<Rightarrow> string \<Rightarrow> string" where
  "trim_start_matches s p =
     (if p \<noteq> [] \<and> starts_with s p then trim_start_matches (drop (length p) s) p else s)"
  by pat_completeness auto
termination
  by (relation "measure (\<lambda>(s, p). length s)") (auto simp: starts_with_iff)

function trim_end_matches :: "string \<Rightarrow> string \<Rightarrow> string" where
  "trim_end_matches s p =
     (if p \<noteq> [] \<and> ends_with s p then trim_end_matches (take (length s - length p) s) p else s)"
  by pat_completeness auto
termination
  by (relation "measure (\<lambda>(s, p). length s)") (auto simp: ends_with_iff)

declare trim_start_matches.simps [simp del] trim_end_matches.simps [simp del]

lemma trim_end_matches_no_suffix:
  "p \<noteq> [] \<Longrightarrow> \<not> ends_with (trim_end_matches s p) p"
proof (induction s p rule: trim_end_matches.induct)
  case (1 s p)
  then show ?case
    by (cases "ends_with s p") (simp_all add: trim_end_matches.simps [of s p])
qed

lemma trim_end_matches_once:
  "p \<noteq> [] \<Longrightarrow> \<not> ends_with u p \<Longrightarrow> trim_end_matches (u @ p) p = u"
  by (simp add: trim_end_matches.simps [of "u @ p"] trim_end_matches.simps [of u])

lemma trim_end_matches_prefix: "\<exists>n. trim_end_matches s p = take n s"
proof (induction s p rule: trim_end_matches.induct)
  case (1 s p)
  show ?case
  proof (cases "p \<noteq> [] \<and> ends_with s p")
    case True
    with 1 obtain n where
      "trim_end_matches (take (length s - length p) s) p = take n (take (length s - length p) s)"
      by blast
    with True show ?thesis
      by (auto simp: trim_end_matches.simps [of s p] take_take)
  next
    case False
    then have "trim_end_matches s p = take (length s) s"
      by (subst trim_end_matches.simps) auto
    then show ?thesis by blast
  qed
qed

section \<open>White space, trimming, lower case\<close>

text \<open>The UTF-8 encodings of the characters with the Unicode property \<open>White_Space\<close>.\<close>

definition white_space :: "string list" where
  "white_space = map of_bytes
     ([[9], [10], [11], [12], [13], [32], [194, 133], [194, 160], [225, 154, 128]]
      @ map (\<lambda>b. [226, 128, b]) [128, 129, 130, 131, 132, 133, 134, 135, 136, 137, 138]
      @ [[226, 128, 168], [226, 128, 169], [226, 128, 175], [226, 129, 159], [227, 128, 128]])"

lemma white_space_nonempty: "w \<in> set white_space \<Longrightarrow> w \<noteq> []"
  by (auto simp: white_space_def of_bytes_def)

lemma find_white_space:
  "find P white_space = Some w \<Longrightarrow> P w \<and> w \<noteq> []"
  by (metis find_Some_iff nth_mem white_space_nonempty)

function trim_start :: "string \<Rightarrow> string" where
  "trim_start s =
     (case find (starts_with s) white_space of
        None \<Rightarrow> s
      | Some w \<Rightarrow> trim_start (drop (length w) s))"
  by pat_completeness auto
termination
  by (relation "measure length") (auto dest!: find_white_space simp: starts_with_iff)

function trim_end :: "string \<Rightarrow> string" where
  "trim_end s =
     (case find (ends_with s) white_space of
        None \<Rightarrow> s
      | Some w \<Rightarrow> trim_end (take (length s - length w) s))"
  by pat_completeness auto
termination
  by (relation "measure length") (auto dest!: find_white_space simp: ends_with_iff)

declare trim_start.simps [simp del] trim_end.simps [simp del]

definition trim :: "string \<Rightarrow> string" where
  "trim s = trim_end (trim_start s)"

text \<open>Text that begins and ends with a visible ASCII character is not changed.\<close>

definition visible :: "char \<Rightarrow> bool" where
  "visible c \<longleftrightarrow> in_range 33 126 c"

lemma no_white_space_edge: "visible c \<Longrightarrow> w \<in> set white_space \<Longrightarrow> hd w \<noteq> c \<and> last w \<noteq> c"
  by (auto simp: white_space_def of_bytes_def visible_def in_range_def)

lemma trim_visible:
  assumes "s = [] \<or> visible (hd s) \<and> visible (last s)"
  shows "trim s = s"
proof -
  have "find (starts_with s) white_space = None"
  proof (rule ccontr)
    assume "find (starts_with s) white_space \<noteq> None"
    then obtain w where w: "w \<in> set white_space" "starts_with s w"
      by (auto simp: find_None_iff)
    then obtain v where v: "s = w @ v" "w \<noteq> []"
      using white_space_nonempty by (auto simp: starts_with_iff)
    then have "visible (hd w)" using assms by auto
    with w(1) no_white_space_edge [of "hd w" w] show False by simp
  qed
  then have s: "trim_start s = s" by (simp add: trim_start.simps [of s])
  have "find (ends_with s) white_space = None"
  proof (rule ccontr)
    assume "find (ends_with s) white_space \<noteq> None"
    then obtain w where w: "w \<in> set white_space" "ends_with s w"
      by (auto simp: find_None_iff)
    then obtain u where u: "s = u @ w" "w \<noteq> []"
      using white_space_nonempty by (auto simp: ends_with_iff)
    then have "visible (last w)" using assms by auto
    with w(1) no_white_space_edge [of "last w" w] show False by simp
  qed
  with s show ?thesis by (simp add: trim_def trim_end.simps [of s])
qed

definition ascii_lower :: "char \<Rightarrow> char" where
  "ascii_lower c = (if is_ascii_uppercase c then char_of (byte c + 32) else c)"

text \<open>
  Lower-casing: exact on ASCII text; the Unicode case table is data of the standard library and
  enters as the argument \<open>ulow\<close>, used only for text with a character outside ASCII.
\<close>

definition to_lowercase :: "(string \<Rightarrow> string) \<Rightarrow> string \<Rightarrow> string" where
  "to_lowercase ulow s = (if list_all is_ascii s then map ascii_lower s else ulow s)"

lemma to_lowercase_ascii: "list_all is_ascii s \<Longrightarrow> to_lowercase ulow s = map ascii_lower s"
  by (simp add: to_lowercase_def)

lemma to_lowercase_fixed:
  "list_all (\<lambda>c. is_ascii c \<and> \<not> is_ascii_uppercase c) s \<Longrightarrow> to_lowercase ulow s = s"
  by (induction s) (auto simp: to_lowercase_def ascii_lower_def list_all_iff map_idI)

end
