(* ===== verification/Text.thy ===== *)
theory Text
  imports Prelude
begin

text \<open>
  Text structure on top of \<open>Prelude\<close>: lines as \<open>str::lines\<close> yields them, splitting, decimal
  numbers, control characters, and UTF-8 validity with the character boundaries that string slicing
  respects.
\<close>

section \<open>Lines\<close>

definition LF :: char where "LF = CHR 0x0A"
definition CR :: char where "CR = CHR 0x0D"

lemma LF_neq_CR [simp]: "LF \<noteq> CR" "CR \<noteq> LF"
  by (simp_all add: LF_def CR_def)

fun split_inclusive :: "string \<Rightarrow> string list" where
  "split_inclusive [] = []"
| "split_inclusive (c # cs) =
     (if c = LF then [c] # split_inclusive cs
      else (case split_inclusive cs of [] \<Rightarrow> [[c]] | l # ls \<Rightarrow> (c # l) # ls))"

definition strip_line :: "string \<Rightarrow> string" where
  "strip_line l =
     (case strip_suffix l [LF] of
        None \<Rightarrow> l
      | Some l' \<Rightarrow> (case strip_suffix l' [CR] of None \<Rightarrow> l' | Some l'' \<Rightarrow> l''))"

definition lines :: "string \<Rightarrow> string list" where
  "lines s = map strip_line (split_inclusive s)"

lemma concat_split_inclusive [simp]: "concat (split_inclusive s) = s"
  by (induction s) (auto split: list.splits)

lemma split_inclusive_Nil_iff [simp]: "split_inclusive s = [] \<longleftrightarrow> s = []"
  by (cases s) (auto split: list.splits)

lemma split_inclusive_LF_append:
  "split_inclusive ((a @ [LF]) @ b) = split_inclusive (a @ [LF]) @ split_inclusive b"
proof (induction a)
  case Nil
  then show ?case by simp
next
  case (Cons c a)
  then show ?case
    by (cases "split_inclusive (a @ [LF])") (auto split: list.splits)
qed

lemma split_inclusive_noLF: "LF \<notin> set s \<Longrightarrow> s \<noteq> [] \<Longrightarrow> split_inclusive s = [s]"
proof (induction s)
  case (Cons c s)
  then show ?case by (cases "s = []") auto
qed simp

lemma lines_LF_append: "lines ((a @ [LF]) @ b) = lines (a @ [LF]) @ lines b"
  unfolding lines_def split_inclusive_LF_append by simp

lemma lines_append:
  "a = [] \<or> last a = LF \<Longrightarrow> lines (a @ b) = lines a @ lines b"
proof -
  assume "a = [] \<or> last a = LF"
  then consider "a = []" | "a = butlast a @ [LF]" by (metis append_butlast_last_id)
  then show ?thesis
  proof cases
    case 1
    then show ?thesis by (simp add: lines_def)
  next
    case 2
    then show ?thesis using lines_LF_append [of "butlast a" b] by metis
  qed
qed

lemma strip_line_LF: "strip_line (u @ [LF]) = (if ends_with u [CR] then butlast u else u)"
proof (cases "\<exists>v. u = v @ [CR]")
  case True
  then obtain v where "u = v @ [CR]" by blast
  moreover have "strip_suffix (v @ [CR, LF]) [LF] = Some (v @ [CR])"
    using strip_suffix_append [of "v @ [CR]" "[LF]"] by simp
  ultimately show ?thesis by (simp add: strip_line_def)
next
  case False
  then have "strip_suffix u [CR] = None" and "\<not> ends_with u [CR]"
    by (auto simp: strip_suffix_None ends_with_iff)
  then show ?thesis by (simp add: strip_line_def)
qed

lemma strip_line_noLF: "(\<nexists>u. l = u @ [LF]) \<Longrightarrow> strip_line l = l"
  by (simp add: strip_line_def iffD2 [OF strip_suffix_None])

text \<open>What the tailer adds up: the length of each line plus one for its terminator.\<close>

definition lines_span :: "string \<Rightarrow> nat" where
  "lines_span s = (\<Sum>l\<leftarrow>lines s. length l + 1)"

text \<open>Pieces that end in \<open>\r\n\<close>, and whether the last piece has no terminator.\<close>

definition crlf_count :: "string \<Rightarrow> nat" where
  "crlf_count s = length (filter (\<lambda>l. ends_with l [CR, LF]) (split_inclusive s))"

definition unterminated :: "string \<Rightarrow> bool" where
  "unterminated s \<longleftrightarrow> s \<noteq> [] \<and> last s \<noteq> LF"

lemma piece_span_LF:
  "length (strip_line (u @ [LF])) + 1 + (if ends_with (u @ [LF]) [CR, LF] then 1 else 0)
     = length (u @ [LF])"
proof (cases "ends_with u [CR]")
  case True
  then obtain v where "u = v @ [CR]" by (auto simp: ends_with_iff)
  moreover have "ends_with (v @ [CR, LF]) [CR, LF]" by simp
  moreover have "strip_line (v @ [CR, LF]) = v" using strip_line_LF [of "v @ [CR]"] by simp
  ultimately show ?thesis by simp
next
  case False
  have "\<not> ends_with (u @ [LF]) [CR, LF]"
  proof
    assume "ends_with (u @ [LF]) [CR, LF]"
    then obtain v where "u @ [LF] = (v @ [CR]) @ [LF]" by (auto simp: ends_with_iff)
    then have "u = v @ [CR]" by (simp only: append_same_eq)
    with False show False by simp
  qed
  with False show ?thesis by (simp add: strip_line_LF)
qed

lemma pieces_span:
  "LF \<notin> set r \<Longrightarrow>
   (\<Sum>l\<leftarrow>split_inclusive (concat (map (\<lambda>u. u @ [LF]) us) @ r). length l) =
   length (concat (map (\<lambda>u. u @ [LF]) us) @ r)"
  by (metis concat_split_inclusive length_concat)

lemma lines_span_LF_append:
  "lines_span ((a @ [LF]) @ b) = lines_span (a @ [LF]) + lines_span b"
  unfolding lines_span_def lines_LF_append by simp

lemma crlf_count_LF_append:
  "crlf_count ((a @ [LF]) @ b) = crlf_count (a @ [LF]) + crlf_count b"
  unfolding crlf_count_def split_inclusive_LF_append by simp

lemma unterminated_LF_append: "unterminated ((a @ [LF]) @ b) = unterminated b"
  by (auto simp: unterminated_def)

text \<open>Every text is a terminated first piece followed by a text, or has no line feed.\<close>

lemma text_cases [case_names empty last_piece piece]:
  assumes "s = [] \<Longrightarrow> P"
    and "LF \<notin> set s \<Longrightarrow> s \<noteq> [] \<Longrightarrow> P"
    and "\<And>u r. LF \<notin> set u \<Longrightarrow> s = (u @ [LF]) @ r \<Longrightarrow> P"
  shows P
proof (cases "LF \<in> set s")
  case True
  then obtain u r where "s = u @ LF # r" "LF \<notin> set u" by (metis split_list_first)
  with assms(3) [of u r] show ?thesis by simp
next
  case False
  with assms(1,2) show ?thesis by blast
qed

lemma text_induct [case_names empty last_piece piece]:
  assumes "P []"
    and "\<And>s. LF \<notin> set s \<Longrightarrow> s \<noteq> [] \<Longrightarrow> P s"
    and "\<And>u r. LF \<notin> set u \<Longrightarrow> P r \<Longrightarrow> P ((u @ [LF]) @ r)"
  shows "P s"
proof (induction s rule: length_induct)
  case (1 s)
  show ?case
  proof (cases s rule: text_cases)
    case (piece u r)
    with 1 have "P r" by simp
    with piece assms(3) show ?thesis by simp
  qed (use assms in auto)
qed

lemma split_inclusive_piece: "LF \<notin> set u \<Longrightarrow> split_inclusive (u @ [LF]) = [u @ [LF]]"
  by (induction u) auto

text \<open>The tailer's sum against the real size: one more for an unterminated last line, one less for
  every \<open>\r\n\<close>.\<close>

lemma lines_span_size:
  "lines_span s + crlf_count s = length s + (if unterminated s then 1 else 0)"
proof (induction s rule: text_induct)
  case empty
  then show ?case by (simp add: lines_span_def crlf_count_def unterminated_def lines_def)
next
  case (last_piece s)
  then have "split_inclusive s = [s]" by (simp add: split_inclusive_noLF)
  moreover have "strip_line s = s" using last_piece by (intro strip_line_noLF) auto
  moreover have "\<not> ends_with s [CR, LF]" using last_piece by (auto simp: ends_with_iff)
  moreover have "last s \<noteq> LF" using last_piece by (metis last_in_set)
  ultimately show ?case
    using last_piece by (simp add: lines_span_def crlf_count_def unterminated_def lines_def)
next
  case (piece u r)
  have "lines_span (u @ [LF]) + crlf_count (u @ [LF]) = length (u @ [LF])"
    using piece_span_LF [of u] piece(1)
    by (cases "ends_with (u @ [LF]) [CR, LF]")
      (simp_all add: lines_span_def crlf_count_def lines_def split_inclusive_piece)
  with piece(2) show ?case
    unfolding lines_span_LF_append crlf_count_LF_append unterminated_LF_append by simp
qed

lemma crlf_count_noCR: "CR \<notin> set s \<Longrightarrow> crlf_count s = 0"
proof -
  assume "CR \<notin> set s"
  moreover have "l \<in> set (split_inclusive s) \<Longrightarrow> set l \<subseteq> set s" for l
    by (metis UN_upper concat_split_inclusive set_concat)
  ultimately have "\<not> ends_with l [CR, LF]" if "l \<in> set (split_inclusive s)" for l
    using that by (fastforce simp: ends_with_iff)
  then show ?thesis by (simp add: crlf_count_def)
qed

lemma lines_span_terminated:
  "CR \<notin> set s \<Longrightarrow> \<not> unterminated s \<Longrightarrow> lines_span s = length s"
  using lines_span_size [of s] crlf_count_noCR [of s] by simp

lemma lines_one: "LF \<notin> set l \<Longrightarrow> CR \<notin> set l \<Longrightarrow> lines (l @ [LF]) = [l]"
proof -
  assume l: "LF \<notin> set l" "CR \<notin> set l"
  then have "split_inclusive (l @ [LF]) = [l @ [LF]]" by (induction l) auto
  moreover have "\<not> ends_with l [CR]" using l(2) by (auto simp: ends_with_iff)
  ultimately show ?thesis by (simp add: lines_def strip_line_LF)
qed

section \<open>Splitting\<close>

fun split_once :: "string \<Rightarrow> char \<Rightarrow> (string \<times> string) option" where
  "split_once [] c = None"
| "split_once (x # xs) c =
     (if x = c then Some ([], xs) else map_option (\<lambda>(a, b). (x # a, b)) (split_once xs c))"

text \<open>The part after the last occurrence of \<open>c\<close> (\<open>rfind\<close> followed by slicing).\<close>

definition after_last :: "string \<Rightarrow> char \<Rightarrow> string option" where
  "after_last s c =
     (if c \<in> set s then Some (rev (takeWhile (\<lambda>x. x \<noteq> c) (rev s))) else None)"

fun splitn :: "nat \<Rightarrow> char \<Rightarrow> string \<Rightarrow> string list" where
  "splitn 0 c s = []"
| "splitn (Suc 0) c s = [s]"
| "splitn (Suc (Suc n)) c s =
     (case split_once s c of None \<Rightarrow> [s] | Some (a, b) \<Rightarrow> a # splitn (Suc n) c b)"

lemma split_once_Some: "split_once s c = Some (a, b) \<longleftrightarrow> s = a @ c # b \<and> c \<notin> set a"
proof (induction s arbitrary: a)
  case (Cons x xs)
  then show ?case by (cases a) auto
qed simp

lemma split_once_None: "split_once s c = None \<longleftrightarrow> c \<notin> set s"
  by (induction s) auto

lemma after_last_Some:
  "after_last s c = Some t \<longleftrightarrow> (\<exists>u. s = u @ c # t) \<and> c \<notin> set t"
proof
  assume h: "after_last s c = Some t"
  then have t: "rev t = takeWhile (\<lambda>x. x \<noteq> c) (rev s)" and "c \<in> set (rev s)"
    by (auto simp: after_last_def split: if_splits)
  then have "rev s = rev t @ dropWhile (\<lambda>x. x \<noteq> c) (rev s)" "c \<notin> set (rev t)"
    "dropWhile (\<lambda>x. x \<noteq> c) (rev s) \<noteq> []"
    by (auto dest: set_takeWhileD simp: dropWhile_eq_Nil_conv)
  moreover then obtain r where "dropWhile (\<lambda>x. x \<noteq> c) (rev s) = c # r"
    by (metis (mono_tags, lifting) hd_dropWhile list.exhaust_sel)
  ultimately have "s = rev (rev t @ c # r)" "c \<notin> set t"
    by (metis rev_rev_ident, simp)
  then have "s = rev r @ c # t" "c \<notin> set t" by simp_all
  then show "(\<exists>u. s = u @ c # t) \<and> c \<notin> set t" by blast
next
  assume "(\<exists>u. s = u @ c # t) \<and> c \<notin> set t"
  then obtain u where "s = u @ c # t" "c \<notin> set t" by blast
  then show "after_last s c = Some t"
    by (auto simp: after_last_def takeWhile_append)
qed

section \<open>Decimal numbers\<close>

definition digits_val :: "string \<Rightarrow> nat" where
  "digits_val ds = foldl (\<lambda>n c. 10 * n + (byte c - 48)) 0 ds"

text \<open>\<open>parse_uint m\<close> is \<open>str::parse\<close> at an unsigned type with largest value \<open>m\<close>.\<close>

definition parse_uint :: "nat \<Rightarrow> string \<Rightarrow> nat option" where
  "parse_uint m s =
     (let ds = (case s of c # cs \<Rightarrow> if c = CHR ''+'' \<and> cs \<noteq> [] then cs else s | [] \<Rightarrow> [])
      in if ds = [] \<or> \<not> list_all is_ascii_digit ds then None
         else let n = digits_val ds in if n \<le> m then Some n else None)"

fun show_nat :: "nat \<Rightarrow> string" where
  "show_nat n =
     (if n < 10 then [char_of (48 + n)] else show_nat (n div 10) @ [char_of (48 + n mod 10)])"

declare show_nat.simps [simp del]

definition show_int :: "int \<Rightarrow> string" where
  "show_int i = (if i < 0 then CHR ''-'' # show_nat (nat (- i)) else show_nat (nat i))"

lemma show_nat_digits: "list_all is_ascii_digit (show_nat n) \<and> show_nat n \<noteq> []"
proof (induction n rule: show_nat.induct)
  case (1 n)
  have d: "is_ascii_digit (char_of (48 + n mod 10))"
    by (simp add: is_ascii_digit_def in_range_def)
  with 1 show ?case
    by (cases "n < 10") (simp_all add: show_nat.simps [of n])
qed

lemma digits_val_snoc: "digits_val (ds @ [c]) = 10 * digits_val ds + (byte c - 48)"
  by (simp add: digits_val_def)

lemma digits_val_show_nat [simp]: "digits_val (show_nat n) = n"
proof (induction n rule: show_nat.induct)
  case (1 n)
  show ?case
  proof (cases "n < 10")
    case True
    then show ?thesis by (subst show_nat.simps) (simp add: digits_val_def)
  next
    case False
    with 1 show ?thesis by (subst show_nat.simps) (simp add: digits_val_snoc)
  qed
qed

lemma parse_uint_show_nat: "n \<le> m \<Longrightarrow> parse_uint m (show_nat n) = Some n"
proof -
  assume "n \<le> m"
  obtain c cs where s: "show_nat n = c # cs"
    using show_nat_digits [of n] by (cases "show_nat n") auto
  then have "is_ascii_digit c"
    using show_nat_digits [of n] by simp
  then have "c \<noteq> CHR ''+''" by (auto simp: is_ascii_digit_def in_range_def byte_def)
  with s \<open>n \<le> m\<close> show ?thesis
    using show_nat_digits [of n] digits_val_show_nat [of n] by (simp add: parse_uint_def Let_def)
qed

lemma parse_uint_le: "parse_uint m s = Some n \<Longrightarrow> n \<le> m"
  by (auto simp: parse_uint_def Let_def split: if_splits)

section \<open>Control characters and UTF-8\<close>

text \<open>\<open>chars().any(char::is_control)\<close>: the ASCII controls and \<open>U+0080\<close> to \<open>U+009F\<close>.\<close>

fun has_control :: "string \<Rightarrow> bool" where
  "has_control [] \<longleftrightarrow> False"
| "has_control (c # cs) \<longleftrightarrow>
     byte c < 32 \<or> byte c = 127
     \<or> (byte c = 194 \<and> (case cs of [] \<Rightarrow> False | d # _ \<Rightarrow> in_range 128 159 d))
     \<or> has_control cs"

definition is_cont :: "char \<Rightarrow> bool" where
  "is_cont c \<longleftrightarrow> in_range 128 191 c"

definition second_ok :: "char \<Rightarrow> char \<Rightarrow> bool" where
  "second_ok a b =
     (if byte a = 224 then in_range 160 191 b
      else if byte a = 237 then in_range 128 159 b
      else if byte a = 240 then in_range 144 191 b
      else if byte a = 244 then in_range 128 143 b
      else is_cont b)"

text \<open>The number of bytes of the first character, \<open>None\<close> if the text does not start with one.\<close>

fun utf8_width :: "string \<Rightarrow> nat option" where
  "utf8_width [] = None"
| "utf8_width (a # s) =
     (if byte a < 128 then Some 1
      else if in_range 194 223 a then
        (case s of b # _ \<Rightarrow> if is_cont b then Some 2 else None | _ \<Rightarrow> None)
      else if in_range 224 239 a then
        (case s of b # c # _ \<Rightarrow> if second_ok a b \<and> is_cont c then Some 3 else None | _ \<Rightarrow> None)
      else if in_range 240 244 a then
        (case s of b # c # d # _ \<Rightarrow>
           if second_ok a b \<and> is_cont c \<and> is_cont d then Some 4 else None | _ \<Rightarrow> None)
      else None)"

lemma utf8_width_le: "utf8_width s = Some w \<Longrightarrow> 0 < w \<and> w \<le> length s \<and> w \<le> 4"
  by (cases s) (auto split: if_splits list.splits)

function utf8_ok :: "string \<Rightarrow> bool" where
  "utf8_ok s =
     (s = [] \<or> (case utf8_width s of None \<Rightarrow> False | Some w \<Rightarrow> utf8_ok (drop w s)))"
  by pat_completeness auto
termination
  by (relation "measure length") (auto dest: utf8_width_le)

declare utf8_ok.simps [simp del]

definition is_char_boundary :: "string \<Rightarrow> nat \<Rightarrow> bool" where
  "is_char_boundary s n \<longleftrightarrow>
     n = 0 \<or> n = length s \<or> (n < length s \<and> \<not> is_cont (s ! n))"

lemma second_ok_cont: "second_ok a b \<Longrightarrow> is_cont b"
  by (auto simp: second_ok_def is_cont_def in_range_def split: if_splits)

lemma utf8_width_cases [consumes 1, case_names one two three four]:
  assumes "utf8_width s = Some w"
  obtains a r where "s = a # r" "w = 1" "byte a < 128"
  | a b r where "s = a # b # r" "w = 2" "\<not> byte a < 128" "in_range 194 223 a" "is_cont b"
  | a b c r where "s = a # b # c # r" "w = 3" "\<not> byte a < 128" "\<not> in_range 194 223 a"
      "in_range 224 239 a" "second_ok a b" "is_cont c"
  | a b c d r where "s = a # b # c # d # r" "w = 4" "\<not> byte a < 128" "\<not> in_range 194 223 a"
      "\<not> in_range 224 239 a" "in_range 240 244 a" "second_ok a b" "is_cont c" "is_cont d"
  using assms by (cases s) (auto split: if_splits list.splits)

lemma utf8_width_cont:
  assumes "utf8_width s = Some w" "0 < n" "n < w"
  shows "is_cont (s ! n)"
  using assms(1)
proof (cases rule: utf8_width_cases)
  case (three a b c r)
  with assms(2,3) consider "n = 1" | "n = 2" by linarith
  then show ?thesis using three by cases (simp_all add: second_ok_cont)
next
  case (four a b c d r)
  with assms(2,3) consider "n = 1" | "n = 2" | "n = 3" by linarith
  then show ?thesis using four by cases (simp_all add: second_ok_cont)
qed (use assms(2,3) in \<open>auto simp: less_Suc_eq numeral_2_eq_2\<close>)

lemma utf8_width_take:
  assumes "utf8_width s = Some w" "w \<le> n"
  shows "utf8_width (take n s) = Some w"
  using assms(1) by (cases rule: utf8_width_cases) (use assms(2) in \<open>simp_all add: take_Cons'\<close>)

lemma utf8_ok_take:
  "utf8_ok s \<Longrightarrow> is_char_boundary s n \<Longrightarrow> utf8_ok (take n s)"
proof (induction s arbitrary: n rule: utf8_ok.induct)
  case (1 s)
  show ?case
  proof (cases "n = 0 \<or> n \<ge> length s")
    case True
    with "1.prems"(1) show ?thesis by (auto simp: utf8_ok.simps [of "[]"])
  next
    case False
    with "1.prems"(1) obtain w where w: "utf8_width s = Some w" and ok: "utf8_ok (drop w s)"
      by (auto simp: utf8_ok.simps [of s] split: option.splits)
    have wn: "w \<le> n"
    proof (rule ccontr)
      assume "\<not> w \<le> n"
      with utf8_width_cont [OF w, of n] False have "is_cont (s ! n)" by simp
      with "1.prems"(2) False show False by (simp add: is_char_boundary_def)
    qed
    have "is_char_boundary (drop w s) (n - w)"
      using "1.prems"(2) False wn utf8_width_le [OF w]
      by (auto simp: is_char_boundary_def)
    with "1.IH" w ok have "utf8_ok (take (n - w) (drop w s))"
      using "1.prems"(1) False by fastforce
    then have "utf8_ok (drop w (take n s))" by (simp add: drop_take)
    with utf8_width_take [OF w wn] show ?thesis
      by (subst utf8_ok.simps) simp
  qed
qed

end
