(* ===== verification/NetAddr.thy ===== *)
theory NetAddr
  imports Text
begin

text \<open>
  \<open>std::net::IpAddr\<close>: the two address families, the address parser of the standard library
  (\<open>str::parse::<IpAddr>\<close>) and its printer (\<open>to_string\<close>). The sources use it for client
  addresses (parsers, filter, hub validation) and for the hub's bind addresses.
\<close>

datatype ip_addr = V4 "8 word" "8 word" "8 word" "8 word" | V6 "16 word list"

section \<open>Parsing\<close>

definition digit_of :: "nat \<Rightarrow> char \<Rightarrow> nat option" where
  "digit_of radix c =
     (let d = (if in_range 48 57 c then byte c - 48
               else if in_range 97 102 c then byte c - 87
               else if in_range 65 70 c then byte c - 55 else 99)
      in if d < radix then Some d else None)"

definition read_number :: "nat \<Rightarrow> nat \<Rightarrow> bool \<Rightarrow> nat \<Rightarrow> string \<Rightarrow> (nat \<times> string) option" where
  "read_number radix max_digits allow_zero_prefix limit s =
     (let ds = takeWhile (\<lambda>c. digit_of radix c \<noteq> None) s;
          n = foldl (\<lambda>n c. radix * n + the (digit_of radix c)) 0 ds
      in if ds = [] \<or> length ds > max_digits \<or> n > limit
            \<or> (\<not> allow_zero_prefix \<and> hd ds = CHR ''0'' \<and> length ds > 1)
         then None else Some (n, drop (length ds) s))"

definition read_char :: "char \<Rightarrow> string \<Rightarrow> string option" where
  "read_char c s = (case s of d # r \<Rightarrow> if d = c then Some r else None | [] \<Rightarrow> None)"

text \<open>\<open>read_separator\<close>: before the element at index \<open>i > 0\<close> the separator must be read.\<close>

definition read_sep :: "char \<Rightarrow> nat \<Rightarrow> (string \<Rightarrow> ('a \<times> string) option) \<Rightarrow> string \<Rightarrow> ('a \<times> string) option"
  where
  "read_sep c i f s = (if 0 < i then Option.bind (read_char c s) f else f s)"

definition read_octet :: "nat \<Rightarrow> string \<Rightarrow> (nat \<times> string) option" where
  "read_octet i = read_sep (CHR ''.'') i (read_number 10 3 False 255)"

definition read_ipv4 :: "string \<Rightarrow> (ip_addr \<times> string) option" where
  "read_ipv4 s =
     Option.bind (read_octet 0 s) (\<lambda>(a, s).
     Option.bind (read_octet 1 s) (\<lambda>(b, s).
     Option.bind (read_octet 2 s) (\<lambda>(c, s).
     Option.bind (read_octet 3 s) (\<lambda>(d, s).
       Some (V4 (of_nat a) (of_nat b) (of_nat c) (of_nat d), s)))))"

definition ipv4_groups :: "ip_addr \<Rightarrow> 16 word list" where
  "ipv4_groups a =
     (case a of V4 p q r t \<Rightarrow> [of_nat (256 * unat p + unat q), of_nat (256 * unat r + unat t)]
      | V6 gs \<Rightarrow> gs)"

text \<open>
  \<open>read_groups k i s\<close> reads at most \<open>k\<close> groups from index \<open>i\<close> on; the flag says that a
  trailing IPv4 address was read.
\<close>

fun read_groups :: "nat \<Rightarrow> nat \<Rightarrow> string \<Rightarrow> 16 word list \<times> bool \<times> string" where
  "read_groups 0 i s = ([], False, s)"
| "read_groups (Suc k) i s =
     (case (if 0 < k then read_sep (CHR '':'') i read_ipv4 s else None) of
        Some (a, r) \<Rightarrow> (ipv4_groups a, True, r)
      | None \<Rightarrow>
          (case read_sep (CHR '':'') i (read_number 16 4 True 65535) s of
             None \<Rightarrow> ([], False, s)
           | Some (n, r) \<Rightarrow> (case read_groups k (Suc i) r of (gs, v4, r') \<Rightarrow> (of_nat n # gs, v4, r'))))"

definition read_ipv6 :: "string \<Rightarrow> (ip_addr \<times> string) option" where
  "read_ipv6 s =
     (case read_groups 8 0 s of (hs, v4, r) \<Rightarrow>
        if length hs = 8 then Some (V6 hs, r)
        else if v4 then None
        else Option.bind (read_char (CHR '':'') r) (\<lambda>r.
             Option.bind (read_char (CHR '':'') r) (\<lambda>r.
               case read_groups (8 - (length hs + 1)) 0 r of (ts, _, r') \<Rightarrow>
                 Some (V6 (hs @ replicate (8 - length hs - length ts) 0 @ ts), r'))))"

definition parse_ip :: "string \<Rightarrow> ip_addr option" where
  "parse_ip s =
     (case (case read_ipv4 s of Some x \<Rightarrow> Some x | None \<Rightarrow> read_ipv6 s) of
        Some (a, []) \<Rightarrow> Some a
      | _ \<Rightarrow> None)"

section \<open>Printing\<close>

definition hex_digit :: "nat \<Rightarrow> char" where
  "hex_digit d = char_of (if d < 10 then 48 + d else 87 + d)"

fun show_hex :: "nat \<Rightarrow> string" where
  "show_hex n = (if n < 16 then [hex_digit n] else show_hex (n div 16) @ [hex_digit (n mod 16)])"

declare show_hex.simps [simp del]

fun join :: "string \<Rightarrow> string list \<Rightarrow> string" where
  "join sep [] = []"
| "join sep [x] = x"
| "join sep (x # y # xs) = x @ sep @ join sep (y # xs)"

definition show_octets :: "8 word list \<Rightarrow> string" where
  "show_octets os = join ''.'' (map (\<lambda>o'. show_nat (unat o')) os)"

definition show_groups :: "16 word list \<Rightarrow> string" where
  "show_groups gs = join '':'' (map (\<lambda>g. show_hex (unat g)) gs)"

text \<open>The first longest run of zero groups, as (start, length).\<close>

fun zero_span :: "16 word list \<Rightarrow> nat \<Rightarrow> nat \<times> nat \<Rightarrow> nat \<times> nat \<Rightarrow> nat \<times> nat" where
  "zero_span [] i cur best = best"
| "zero_span (g # gs) i (cs, cl) (bs, bl) =
     (if g = 0 then
        (let cs' = (if cl = 0 then i else cs); cl' = Suc cl
         in zero_span gs (Suc i) (cs', cl') (if cl' > bl then (cs', cl') else (bs, bl)))
      else zero_span gs (Suc i) (0, 0) (bs, bl))"

definition show_ip :: "ip_addr \<Rightarrow> string" where
  "show_ip a =
     (case a of
        V4 p q r t \<Rightarrow> show_octets [p, q, r, t]
      | V6 gs \<Rightarrow>
          if length gs = 8 \<and> take 6 gs = [0, 0, 0, 0, 0, 65535] then
            (let h = gs ! 6; l = gs ! 7 in ''::ffff:'' @
               show_octets [ucast (drop_bit 8 h), ucast h, ucast (drop_bit 8 l), ucast l])
          else (case zero_span gs 0 (0, 0) (0, 0) of (start, len) \<Rightarrow>
            if len > 1 then show_groups (take start gs) @ ''::'' @ show_groups (drop (start + len) gs)
            else show_groups gs))"

section \<open>Classification used by the hub's bind guard\<close>

definition is_loopback :: "ip_addr \<Rightarrow> bool" where
  "is_loopback a =
     (case a of V4 p _ _ _ \<Rightarrow> p = 127 | V6 gs \<Rightarrow> gs = [0, 0, 0, 0, 0, 0, 0, 1])"

section \<open>Printing a v4 address and reading it back\<close>

lemma digit_of_10: "digit_of 10 c = (if is_ascii_digit c then Some (byte c - 48) else None)"
  by (auto simp: digit_of_def is_ascii_digit_def in_range_def Let_def)

lemma foldl_digits:
  "list_all is_ascii_digit ds \<Longrightarrow>
   foldl (\<lambda>n c. 10 * n + the (digit_of 10 c)) k ds = foldl (\<lambda>n c. 10 * n + (byte c - 48)) k ds"
  by (induction ds arbitrary: k) (simp_all add: digit_of_10)

lemma length_show_nat_256: "n < 256 \<Longrightarrow> length (show_nat n) \<le> 3"
  by (simp add: show_nat.simps [of n] show_nat.simps [of "n div 10"]
      show_nat.simps [of "n div 10 div 10"])

lemma show_nat_no_leading_zero: "0 < n \<Longrightarrow> hd (show_nat n) \<noteq> CHR ''0''"
proof (induction n rule: show_nat.induct)
  case (1 n)
  show ?case
  proof (cases "n < 10")
    case True
    with "1.prems" have "byte (hd (show_nat n)) \<noteq> byte (CHR ''0'')"
      by (simp add: show_nat.simps [of n] byte_def [of "CHR ''0''"])
    then show ?thesis by auto
  next
    case False
    then have "0 < n div 10" by (simp add: div_greater_zero_iff)
    with 1 False have "hd (show_nat (n div 10)) \<noteq> CHR ''0''" by blast
    with False show ?thesis
      using show_nat_digits [of "n div 10"] by (simp add: show_nat.simps [of n])
  qed
qed

lemma read_number_show_nat:
  assumes "n < 256" "r = [] \<or> \<not> is_ascii_digit (hd r)"
  shows "read_number 10 3 False 255 (show_nat n @ r) = Some (n, r)"
proof -
  have all: "list_all is_ascii_digit (show_nat n)" and ne: "show_nat n \<noteq> []"
    using show_nat_digits by blast+
  have "takeWhile (\<lambda>c. digit_of 10 c \<noteq> None) r = []"
    using assms(2) by (cases r) (auto simp: digit_of_10)
  then have tw: "takeWhile (\<lambda>c. digit_of 10 c \<noteq> None) (show_nat n @ r) = show_nat n"
    using all by (subst takeWhile_append2) (auto simp: digit_of_10 list_all_iff)
  have val: "foldl (\<lambda>n c. 10 * n + the (digit_of 10 c)) 0 (show_nat n) = n"
    using foldl_digits [OF all, of 0] digits_val_show_nat [of n] by (simp add: digits_val_def)
  have lead: "\<not> (hd (show_nat n) = CHR ''0'' \<and> length (show_nat n) > 1)"
    using show_nat_no_leading_zero [of n] by (cases "n = 0") (auto simp: show_nat.simps [of 0])
  show ?thesis
    unfolding read_number_def Let_def tw val
    using ne length_show_nat_256 [OF assms(1)] lead assms(1) by simp
qed

lemma read_ipv4_show: "read_ipv4 (show_octets [p, q, r, t]) = Some (V4 p q r t, [])"
proof -
  have dot: "\<not> is_ascii_digit (CHR ''.'')" by (simp add: is_ascii_digit_def in_range_def byte_def)
  have s: "show_octets [p, q, r, t] = show_nat (unat p) @ ''.'' @ show_nat (unat q) @ ''.''
      @ show_nat (unat r) @ ''.'' @ show_nat (unat t) @ []"
    by (simp add: show_octets_def)
  have lt: "unat w < 256" for w :: "8 word" using unsigned_less [of w, where ?'a = nat] by simp
  have rd: "read_number 10 3 False 255 (show_nat (unat w) @ ''.'' @ r) = Some (unat w, ''.'' @ r)"
    for w :: "8 word" and r
    using read_number_show_nat [OF lt, of "''.'' @ r" w] dot by simp
  have rd_end: "read_number 10 3 False 255 (show_nat (unat w) @ []) = Some (unat w, [])"
    for w :: "8 word"
    using read_number_show_nat [OF lt, of "[]" w] by simp
  have ch: "read_char (CHR ''.'') (''.'' @ x) = Some x" for x by (simp add: read_char_def)
  show ?thesis
    unfolding s read_ipv4_def read_octet_def read_sep_def rd
    by (simp only: rd rd_end ch Option.bind.simps bind.bind_lunit split if_True if_False
        zero_less_one zero_less_numeral less_irrefl simp_thms unsigned_of_nat of_nat_unat)
       (simp add: rd [simplified] rd_end [simplified] ch [simplified] unsigned_ucast_eq)
qed

lemma parse_show_v4: "parse_ip (show_ip (V4 p q r t)) = Some (V4 p q r t)"
  by (simp add: show_ip_def parse_ip_def read_ipv4_show)

section \<open>Printing a v6 address and reading it back\<close>

definition ip_ok :: "ip_addr \<Rightarrow> bool" where
  "ip_ok a \<longleftrightarrow> (case a of V4 _ _ _ _ \<Rightarrow> True | V6 gs \<Rightarrow> length gs = 8)"

lemma byte_hex_digit: "d < 16 \<Longrightarrow> byte (hex_digit d) = (if d < 10 then 48 + d else 87 + d)"
  by (simp add: hex_digit_def byte_def)

lemma digit_of_hex: "d < 16 \<Longrightarrow> digit_of 16 (hex_digit d) = Some d"
  by (auto simp: digit_of_def Let_def in_range_def byte_hex_digit)

lemma show_hex_unfold:
  "n < 16 \<Longrightarrow> show_hex n = [hex_digit n]"
  "\<not> n < 16 \<Longrightarrow> show_hex n = show_hex (n div 16) @ [hex_digit (n mod 16)]"
  by (simp_all add: show_hex.simps [of n])

lemma show_hex_digits: "c \<in> set (show_hex n) \<Longrightarrow> \<exists>d<16. c = hex_digit d"
proof (induction n rule: show_hex.induct)
  case (1 n)
  show ?case
  proof (cases "n < 16")
    case True
    with "1.prems" show ?thesis by (auto simp: show_hex_unfold)
  next
    case False
    have "n mod 16 < 16" by simp
    then have "\<exists>d<16. hex_digit (n mod 16) = hex_digit d" by blast
    with 1 False show ?thesis by (auto simp: show_hex_unfold)
  qed
qed

lemma show_hex_val:
  "show_hex n \<noteq> [] \<and> foldl (\<lambda>n c. 16 * n + the (digit_of 16 c)) 0 (show_hex n) = n"
proof (induction n rule: show_hex.induct)
  case (1 n)
  then show ?case by (cases "n < 16") (simp_all add: show_hex_unfold digit_of_hex)
qed

lemma length_show_hex: "n < 65536 \<Longrightarrow> length (show_hex n) \<le> 4"
  by (simp add: show_hex.simps [of n] show_hex.simps [of "n div 16"]
      show_hex.simps [of "n div 16 div 16"] show_hex.simps [of "n div 16 div 16 div 16"])

lemma hex_digit_apart: "d < 16 \<Longrightarrow> hex_digit d \<noteq> CHR ''.'' \<and> hex_digit d \<noteq> CHR '':''"
  using byte_hex_digit [of d] by (auto simp: byte_def split: if_splits)

lemma no_dot_hex: "CHR ''.'' \<notin> set (show_hex n)"
  using show_hex_digits hex_digit_apart by metis

lemma digit_of_colon [simp]: "digit_of 16 (CHR '':'') = None" "digit_of 10 (CHR '':'') = None"
  by (simp_all add: digit_of_def in_range_def byte_def)

text \<open>A reader of numbers stops at whatever is not a digit.\<close>

definition stops :: "nat \<Rightarrow> string \<Rightarrow> bool" where
  "stops radix r \<longleftrightarrow> r = [] \<or> digit_of radix (hd r) = None"

lemma read_number_stops: "stops radix r \<Longrightarrow> read_number radix m z l r = None"
  by (cases r) (auto simp: read_number_def stops_def Let_def)

lemma read_group_show_hex:
  assumes "n < 65536" "stops 16 r"
  shows "read_number 16 4 True 65535 (show_hex n @ r) = Some (n, r)"
proof -
  have "takeWhile (\<lambda>c. digit_of 16 c \<noteq> None) r = []"
    using assms(2) by (cases r) (auto simp: stops_def)
  moreover have "\<forall>c\<in>set (show_hex n). digit_of 16 c \<noteq> None"
    using show_hex_digits digit_of_hex by fastforce
  ultimately have tw: "takeWhile (\<lambda>c. digit_of 16 c \<noteq> None) (show_hex n @ r) = show_hex n"
    by (subst takeWhile_append2) auto
  show ?thesis
    unfolding read_number_def Let_def tw
    using show_hex_val [of n] length_show_hex [OF assms(1)] assms(1) by simp
qed

text \<open>A text without a dot is no v4 address.\<close>

lemma read_number_rest: "read_number radix m z l s = Some (n, r) \<Longrightarrow> set r \<subseteq> set s"
  by (auto simp: read_number_def Let_def split: if_splits dest: in_set_dropD)

lemma read_ipv4_dot: "CHR ''.'' \<notin> set s \<Longrightarrow> read_ipv4 s = None"
proof -
  assume dot: "CHR ''.'' \<notin> set s"
  have "read_octet 1 r = None" if "read_octet 0 s = Some (a, r)" for a r
  proof -
    have "CHR ''.'' \<notin> set r"
      using that dot read_number_rest by (fastforce simp: read_octet_def read_sep_def)
    then show ?thesis by (cases r) (auto simp: read_octet_def read_sep_def read_char_def)
  qed
  then show ?thesis by (cases "read_octet 0 s") (auto simp: read_ipv4_def)
qed

lemma read_ipv4_stops: "stops 10 s \<Longrightarrow> read_ipv4 s = None"
  by (simp add: read_ipv4_def read_octet_def read_sep_def read_number_stops)

text \<open>The groups after the first, each behind its colon.\<close>

definition colon_groups :: "16 word list \<Rightarrow> string" where
  "colon_groups gs = concat (map (\<lambda>g. CHR '':'' # show_hex (unat g)) gs)"

lemma colon_groups_simps [simp]:
  "colon_groups [] = []"
  "colon_groups (g # gs) = CHR '':'' # show_hex (unat g) @ colon_groups gs"
  by (simp_all add: colon_groups_def)

lemma show_groups_colons: "show_groups (g # gs) = show_hex (unat g) @ colon_groups gs"
  by (induction gs arbitrary: g) (simp_all add: show_groups_def)

lemma no_dot_groups: "CHR ''.'' \<notin> set (colon_groups gs)" "CHR ''.'' \<notin> set (show_groups gs)"
proof -
  show c: "CHR ''.'' \<notin> set (colon_groups gs)" for gs
    by (induction gs) (simp_all add: no_dot_hex)
  show "CHR ''.'' \<notin> set (show_groups gs)"
    using c by (cases gs) (simp_all add: show_groups_colons no_dot_hex, simp add: show_groups_def)
qed

text \<open>What may follow the groups: nothing, or a colon that no group follows.\<close>

definition ends_groups :: "string \<Rightarrow> bool" where
  "ends_groups t \<longleftrightarrow> CHR ''.'' \<notin> set t \<and> (t = [] \<or> hd t = CHR '':'' \<and> stops 16 (tl t))"

lemma ends_groups_stops: "ends_groups t \<Longrightarrow> stops 16 (colon_groups gs @ t)"
  by (cases gs) (auto simp: stops_def ends_groups_def)

lemma unat_group: "unat (g :: 16 word) < 65536"
  using unsigned_less [of g, where ?'a = nat] by simp

lemma read_sep_none: "CHR ''.'' \<notin> set s \<Longrightarrow> read_sep c i read_ipv4 s = None"
  by (cases s) (auto simp: read_sep_def read_char_def read_ipv4_dot)

lemma read_groups_no_dot:
  assumes "CHR ''.'' \<notin> set s"
  shows "read_groups (Suc k) i s =
     (case read_sep (CHR '':'') i (read_number 16 4 True 65535) s of
        None \<Rightarrow> ([], False, s)
      | Some (n, r) \<Rightarrow> (case read_groups k (Suc i) r of (gs, v4, r') \<Rightarrow> (of_nat n # gs, v4, r')))"
  using read_sep_none [OF assms, of "CHR '':''" i] by (auto simp: fun_eq_iff)

lemma read_groups_stop: "ends_groups t \<Longrightarrow> read_groups k i t = ([], False, t)"
proof (cases k)
  case (Suc k')
  assume t: "ends_groups t"
  then have "stops 16 t" by (auto simp: ends_groups_def stops_def)
  with t have "read_sep (CHR '':'') i (read_number 16 4 True 65535) t = None"
    by (cases t) (auto simp: read_sep_def read_char_def ends_groups_def read_number_stops)
  moreover have "CHR ''.'' \<notin> set t" using t by (simp add: ends_groups_def)
  ultimately show ?thesis unfolding Suc by (simp add: read_groups_no_dot del: read_groups.simps)
qed simp

lemma read_groups_colons:
  "0 < i \<Longrightarrow> length gs \<le> k \<Longrightarrow> ends_groups t \<Longrightarrow> read_groups k i (colon_groups gs @ t) = (gs, False, t)"
proof (induction gs arbitrary: k i)
  case Nil
  then show ?case by (simp add: read_groups_stop)
next
  case (Cons g gs)
  then obtain k' where k: "k = Suc k'" by (cases k) auto
  have dot: "CHR ''.'' \<notin> set (colon_groups (g # gs) @ t)"
    using Cons.prems(3) no_dot_groups(1) [of "g # gs"] by (simp add: ends_groups_def)
  have "read_sep CHR '':'' i (read_number 16 4 True 65535) (colon_groups (g # gs) @ t)
      = Some (unat g, colon_groups gs @ t)"
    using Cons.prems(1,3) read_group_show_hex [OF unat_group ends_groups_stops, of t g gs]
    by (simp add: read_sep_def read_char_def)
  with Cons.IH [of "Suc i" k'] Cons.prems k show ?case
    unfolding k read_groups_no_dot [OF dot] by simp
qed

lemma read_groups_show:
  assumes "length gs \<le> k" "ends_groups t"
  shows "read_groups k 0 (show_groups gs @ t) = (gs, False, t)"
proof (cases gs)
  case Nil
  with assms show ?thesis by (simp add: read_groups_stop show_groups_def)
next
  case (Cons g gs')
  with assms(1) obtain k' where k: "k = Suc k'" by (cases k) auto
  have dot: "CHR ''.'' \<notin> set (show_groups gs @ t)"
    using assms(2) no_dot_groups(2) [of gs] by (simp add: ends_groups_def)
  have "read_sep CHR '':'' 0 (read_number 16 4 True 65535) (show_groups gs @ t)
      = Some (unat g, colon_groups gs' @ t)"
    using read_group_show_hex [OF unat_group ends_groups_stops, of t g gs'] assms(2) Cons
    by (simp add: read_sep_def show_groups_colons)
  then show ?thesis
    using read_groups_colons [of 1 gs' k' t] assms Cons unfolding k read_groups_no_dot [OF dot] by simp
qed

text \<open>The run that the printer elides is a run of zeros within the groups.\<close>

definition zero_run :: "16 word list \<Rightarrow> nat \<times> nat \<Rightarrow> bool" where
  "zero_run gs sp \<longleftrightarrow> fst sp + snd sp \<le> length gs \<and> (\<forall>j < snd sp. gs ! (fst sp + j) = 0)"

lemma zero_run_grows: "zero_run pre sp \<Longrightarrow> zero_run (pre @ gs) sp"
  by (auto simp: zero_run_def nth_append)

lemma zero_run_zero: "zero_run pre (s, l) \<Longrightarrow> s + l = length pre \<Longrightarrow> zero_run (pre @ [0]) (s, Suc l)"
  by (auto simp: zero_run_def nth_append less_Suc_eq)

lemma zero_run_split: "zero_run gs (s, l) \<Longrightarrow> gs = take s gs @ replicate l 0 @ drop (s + l) gs"
proof -
  assume run: "zero_run gs (s, l)"
  then have "take l (drop s gs) = replicate l 0"
    by (intro nth_equalityI) (auto simp: zero_run_def)
  then show ?thesis by (metis append_take_drop_id drop_drop add.commute)
qed

lemma zero_span_run:
  "zero_run pre (bs, bl) \<Longrightarrow> cl = 0 \<or> cs + cl = length pre \<and> zero_run pre (cs, cl) \<Longrightarrow>
   zero_run (pre @ gs) (zero_span gs (length pre) (cs, cl) (bs, bl))"
proof (induction gs arbitrary: pre cs cl bs bl)
  case (Cons g gs)
  have best: "zero_run (pre @ [g]) (bs, bl)" using Cons.prems(1) by (rule zero_run_grows)
  show ?case
  proof (cases "g = 0")
    case True
    define c where "c = (if cl = 0 then length pre else cs)"
    have "c + cl = length pre \<and> zero_run pre (c, cl)"
      using Cons.prems(2) by (auto simp: c_def zero_run_def)
    with True have "c + Suc cl = length (pre @ [g]) \<and> zero_run (pre @ [g]) (c, Suc cl)"
      using zero_run_zero by auto
    then have "zero_run ((pre @ [g]) @ gs) (zero_span gs (length (pre @ [g])) (c, Suc cl)
        (if bl < Suc cl then c else bs, if bl < Suc cl then Suc cl else bl))"
      using best by (intro Cons.IH) auto
    with True show ?thesis by (simp add: c_def Let_def split: if_splits)
  next
    case False
    with Cons.IH [OF best, of 0 0] show ?thesis by simp
  qed
qed simp

lemma read_ipv6_show:
  assumes "length gs = 8" "take 6 gs \<noteq> [0, 0, 0, 0, 0, 65535]"
  shows "read_ipv6 (show_ip (V6 gs)) = Some (V6 gs, []) \<and> CHR ''.'' \<notin> set (show_ip (V6 gs))"
proof -
  obtain s l where sp: "zero_span gs 0 (0, 0) (0, 0) = (s, l)" by force
  have run: "zero_run gs (s, l)" using zero_span_run [of "[]" 0 0 0 0 gs] sp by (simp add: zero_run_def)
  show ?thesis
  proof (cases "1 < l")
    case False
    with assms sp have s: "show_ip (V6 gs) = show_groups gs" by (simp add: show_ip_def)
    have "read_groups 8 0 (show_groups gs @ []) = (gs, False, [])"
      using assms(1) by (intro read_groups_show) (simp_all add: ends_groups_def)
    with s assms(1) no_dot_groups(2) show ?thesis by (simp add: read_ipv6_def)
  next
    case True
    let ?h = "take s gs" and ?t = "drop (s + l) gs"
    have len: "s + l \<le> 8" "length ?h = s" "length ?t = 8 - (s + l)"
      using run assms(1) by (auto simp: zero_run_def)
    have s: "show_ip (V6 gs) = show_groups ?h @ ''::'' @ show_groups ?t"
      using True assms sp by (simp add: show_ip_def)
    have "CHR ''.'' \<notin> set (''::'' @ show_groups ?t)" using no_dot_groups(2) by simp
    then have e: "ends_groups (''::'' @ show_groups ?t)" by (simp add: ends_groups_def stops_def)
    have "read_groups 8 0 (show_groups ?h @ ''::'' @ show_groups ?t) = (?h, False, ''::'' @ show_groups ?t)"
      using len by (intro read_groups_show [OF _ e]) simp
    moreover have "read_groups (8 - (length ?h + 1)) 0 (show_groups ?t @ []) = (?t, False, [])"
      using len True by (intro read_groups_show) (simp_all add: ends_groups_def)
    moreover have "?h @ replicate (8 - length ?h - length ?t) 0 @ ?t = gs"
    proof -
      have "8 - length ?h - length ?t = l" using len by simp
      with zero_run_split [OF run] show ?thesis by simp
    qed
    moreover have "length ?h \<noteq> 8" using len True by simp
    ultimately have "read_ipv6 (show_ip (V6 gs)) = Some (V6 gs, [])"
      unfolding s read_ipv6_def by (simp add: read_char_def)
    with s no_dot_groups(2) show ?thesis by simp
  qed
qed

text \<open>An address that maps a v4 one is printed with the octets of the latter.\<close>

lemma group_of_octets:
  "of_nat (256 * unat (ucast (drop_bit 8 w) :: 8 word) + unat (ucast w :: 8 word)) = (w :: 16 word)"
proof -
  have "unat (drop_bit 8 w) = unat w div 256"
    by (simp add: drop_bit_eq_div unat_div_distrib)
  moreover have "unat w div 256 < 256" using unat_group [of w] by (simp add: less_mult_imp_div_less)
  ultimately have "unat (ucast (drop_bit 8 w) :: 8 word) = unat w div 256"
    by (simp add: unsigned_ucast_eq take_bit_eq_mod)
  moreover have "unat (ucast w :: 8 word) = unat w mod 256"
    by (simp add: unsigned_ucast_eq take_bit_eq_mod)
  ultimately show ?thesis by (simp only: mult_div_mod_eq of_nat_unat ucast_id)
qed

lemma read_groups_none: "stops 16 s \<Longrightarrow> stops 10 s \<Longrightarrow> read_groups k 0 s = ([], False, s)"
  by (cases k) (simp_all add: read_sep_def read_number_stops read_ipv4_stops)

lemma read_mapped_tail:
  assumes "read_ipv4 s = Some (a, [])"
  shows "read_groups (Suc (Suc (Suc k))) 0 (''ffff:'' @ s) = (65535 # ipv4_groups a, True, [])"
proof -
  have f: "hex_digit 15 = CHR ''f''" by code_simp
  have ffff: "show_hex 65535 = ''ffff''" by (simp add: show_hex_unfold f)
  have "read_number 16 4 True 65535 (''ffff'' @ CHR '':'' # s) = Some (65535, CHR '':'' # s)"
    using read_group_show_hex [of 65535 "CHR '':'' # s"] unfolding ffff by (simp add: stops_def)
  moreover have "digit_of 10 (CHR ''f'') = None" by code_simp
  then have "read_ipv4 (''ffff:'' @ s) = None" by (intro read_ipv4_stops) (simp add: stops_def)
  moreover have "read_groups (Suc (Suc k)) 1 (CHR '':'' # s) = (ipv4_groups a, True, [])"
    using assms by (simp add: read_sep_def read_char_def)
  ultimately show ?thesis by (simp add: read_sep_def)
qed

lemma read_ipv6_mapped:
  assumes "length gs = 8" "take 6 gs = [0, 0, 0, 0, 0, 65535]"
  shows "read_ipv6 (show_ip (V6 gs)) = Some (V6 gs, []) \<and> read_ipv4 (show_ip (V6 gs)) = None"
proof -
  let ?h = "gs ! 6" and ?l = "gs ! 7"
  define o4 where "o4 = show_octets [ucast (drop_bit 8 ?h), ucast ?h, ucast (drop_bit 8 ?l), ucast ?l]"
  define a where "a = V4 (ucast (drop_bit 8 ?h)) (ucast ?h) (ucast (drop_bit 8 ?l)) (ucast ?l)"
  have a: "read_ipv4 o4 = Some (a, [])" "ipv4_groups a = [?h, ?l]"
    unfolding o4_def a_def by (rule read_ipv4_show) (simp add: ipv4_groups_def group_of_octets del: of_nat_add)
  have "drop 6 gs = [?h, ?l]"
    using assms(1) by (intro nth_equalityI) (auto simp: less_Suc_eq numeral_2_eq_2)
  with assms(2) append_take_drop_id [of 6 gs] have gs: "[0, 0, 0, 0, 0, 65535, ?h, ?l] = gs" by simp
  have s: "show_ip (V6 gs) = ''::'' @ ''ffff:'' @ o4" using assms by (simp add: show_ip_def Let_def o4_def)
  have colon: "stops 16 (''::'' @ r)" "stops 10 (''::'' @ r)" for r by (simp_all add: stops_def)
  have head: "read_groups 8 0 (''::'' @ r) = ([], False, ''::'' @ r)" for r
    by (rule read_groups_none [OF colon])
  have seven: "(7 :: nat) = Suc (Suc (Suc 4))" by simp
  have tail: "read_groups 7 0 (''ffff:'' @ o4) = ([65535, ?h, ?l], True, [])"
    using read_mapped_tail [OF a(1), of 4] unfolding a(2) seven [symmetric] .
  have "read_ipv6 (''::'' @ ''ffff:'' @ o4) = Some (V6 ([] @ replicate (8 - 0 - 3) 0 @ [65535, ?h, ?l]), [])"
    unfolding read_ipv6_def head using tail by (simp add: read_char_def)
  with gs colon(2) show ?thesis unfolding s by (simp add: read_ipv4_stops eval_nat_numeral)
qed

text \<open>Every address is read back from its printed form.\<close>

lemma parse_show_ip: "ip_ok a \<Longrightarrow> parse_ip (show_ip a) = Some a"
proof (cases a)
  case (V6 gs)
  assume "ip_ok a"
  with V6 have len: "length gs = 8" by (simp add: ip_ok_def)
  have "read_ipv4 (show_ip (V6 gs)) = None \<and> read_ipv6 (show_ip (V6 gs)) = Some (V6 gs, [])"
    using read_ipv6_mapped [OF len] read_ipv6_show [OF len] read_ipv4_dot by blast
  with V6 show ?thesis by (simp add: parse_ip_def)
qed (simp add: parse_show_v4)

text \<open>The parser produces whole addresses only.\<close>

lemma read_ipv4_groups: "read_ipv4 t = Some (a, u) \<Longrightarrow> length (ipv4_groups a) = 2 \<and> ip_ok a"
  by (auto simp: read_ipv4_def ipv4_groups_def ip_ok_def bind_eq_Some_conv)

lemma read_groups_length: "length (fst (read_groups k i s)) \<le> k"
proof (induction k arbitrary: i s)
  case (Suc k)
  show ?case
  proof (cases "if 0 < k then read_sep (CHR '':'') i read_ipv4 s else None")
    case None
    with Suc show ?thesis by (auto split: option.splits prod.splits) (metis fst_conv)
  next
    case (Some x)
    then obtain t where "read_ipv4 t = Some (fst x, snd x)" "0 < k"
      by (auto simp: read_sep_def bind_eq_Some_conv split: if_splits)
    then have "length (ipv4_groups (fst x)) = 2" "0 < k" using read_ipv4_groups by blast+
    with Some show ?thesis by (auto split: prod.splits if_splits)
  qed
qed simp

lemma read_ipv6_ok:
  assumes "read_ipv6 s = Some (a, u)"
  shows "ip_ok a"
proof -
  obtain hs v4 r where h: "read_groups 8 0 s = (hs, v4, r)" by (metis prod_cases3)
  then have le: "length hs \<le> 8" using read_groups_length [of 8 0 s] by simp
  show ?thesis
  proof (cases "length hs = 8")
    case True
    with assms h show ?thesis by (auto simp: read_ipv6_def ip_ok_def)
  next
    case False
    with assms h obtain t where
      "(case read_groups (8 - (length hs + 1)) 0 t of
          (ts, _, r') \<Rightarrow> Some (V6 (hs @ replicate (8 - length hs - length ts) 0 @ ts), r')) = Some (a, u)"
      by (auto simp: read_ipv6_def bind_eq_Some_conv split: if_splits)
    moreover obtain ts x u' where ts: "read_groups (8 - (length hs + 1)) 0 t = (ts, x, u')"
      by (metis prod_cases3)
    ultimately have a: "a = V6 (hs @ replicate (8 - length hs - length ts) 0 @ ts)" by simp
    have "length ts \<le> 8 - (length hs + 1)"
      using read_groups_length [of "8 - (length hs + 1)" 0 t] ts by simp
    with le False show ?thesis by (simp add: a ip_ok_def)
  qed
qed

lemma parse_ip_ok: "parse_ip s = Some a \<Longrightarrow> ip_ok a"
  using read_ipv4_groups read_ipv6_ok
  by (auto simp: parse_ip_def split: option.splits prod.splits list.splits)

text \<open>The text of an address is a word of visible characters.\<close>

lemma list_all_join: "list_all P sep \<Longrightarrow> list_all (list_all P) xs \<Longrightarrow> list_all P (join sep xs)"
  by (induction sep xs rule: join.induct) simp_all

lemma digits_visible: "list_all visible (show_nat n)" "list_all visible (show_hex n)"
proof -
  show "list_all visible (show_nat n)"
    using show_nat_digits [of n] by (auto simp: list_all_iff is_ascii_digit_def visible_def in_range_def)
  show "list_all visible (show_hex n)"
    using show_hex_digits [of _ n] byte_hex_digit
    by (fastforce simp: list_all_iff visible_def in_range_def)
qed

lemma show_parts_visible: "list_all visible (show_octets os)" "list_all visible (show_groups gs)"
  unfolding show_octets_def show_groups_def
  by (rule list_all_join; simp add: list_all_iff [of "list_all visible"] digits_visible visible_def in_range_def byte_def)+

lemma show_ip_visible: "list_all visible (show_ip a)"
  using show_parts_visible
  by (auto simp: show_ip_def Let_def visible_def [of "CHR '':''"] visible_def [of "CHR ''f''"] in_range_def byte_def
      split: ip_addr.split prod.split)

lemma show_ip_nonempty: "ip_ok a \<Longrightarrow> show_ip a \<noteq> []"
proof
  assume "ip_ok a" "show_ip a = []"
  then have "parse_ip [] = Some a" using parse_show_ip by metis
  moreover have "read_ipv4 [] = None" "read_groups 8 0 [] = ([], False, [])"
    by (rule read_ipv4_stops, simp add: stops_def) (rule read_groups_none; simp add: stops_def)
  ultimately show False by (simp add: parse_ip_def read_ipv6_def read_char_def)
qed

end
