(* ===== verification/Errors.thy ===== *)
theory Errors
  imports Text
begin

text \<open>
  \<open>src/src/error.rs\<close>: the crate's error type. Errors of libraries are kept as their message. The
  display texts are the ones of the \<open>#[error("...")]\<close> attributes.
\<close>

datatype sentinel_error =
    ParseError string
  | Io string
  | DatabaseError string
  | ConfigError string
  | AuthError string
  | FileTailingError string
  | ServiceError string
  | Internal string

fun display_error :: "sentinel_error \<Rightarrow> string" where
  "display_error (ParseError m) = ''parse error: '' @ m"
| "display_error (Io m) = ''IO error: '' @ m"
| "display_error (DatabaseError m) = ''database error: '' @ m"
| "display_error (ConfigError m) = ''config error: '' @ m"
| "display_error (AuthError m) = ''auth error: '' @ m"
| "display_error (FileTailingError m) = ''file tailing error: '' @ m"
| "display_error (ServiceError m) = ''service error: '' @ m"
| "display_error (Internal m) = ''internal error: '' @ m"

end
