(* ===== verification/LogEntry.thy ===== *)
theory LogEntry
  imports NetAddr Errors
begin

text \<open>
  The parsed-entry model of \<open>src/src/log_scanner/parser/mod.rs\<close> and the row models of
  \<open>src/src/db/models.rs\<close> that the pipeline fills. Instants are nanoseconds since the Unix epoch
  (\<open>chrono::DateTime<Utc>\<close>), UUIDs are 128-bit words.
\<close>

type_synonym datetime = int
type_synonym uuid = "128 word"

definition ns_per_ms :: int where "ns_per_ms = 1000000"
definition ns_per_s :: int where "ns_per_s = 1000000000"

text \<open>\<open>DateTime::timestamp_millis\<close> rounds down.\<close>

definition timestamp_millis :: "datetime \<Rightarrow> int" where
  "timestamp_millis t = t div ns_per_ms"

section \<open>Levels\<close>

datatype log_level = Debug | Info | Warn | Error | Critical | Security

fun level_as_str :: "log_level \<Rightarrow> string" where
  "level_as_str Debug = ''debug''"
| "level_as_str Info = ''info''"
| "level_as_str Warn = ''warn''"
| "level_as_str Error = ''error''"
| "level_as_str Critical = ''critical''"
| "level_as_str Security = ''security''"

definition level_from_db :: "string \<Rightarrow> log_level" where
  "level_from_db v =
     (if v = ''debug'' then Debug
      else if v = ''warn'' then Warn
      else if v = ''error'' then Error
      else if v = ''critical'' then Critical
      else if v = ''security'' then Security
      else Info)"

lemma level_roundtrip [simp]: "level_from_db (level_as_str l) = l"
  by (cases l) (simp_all add: level_from_db_def)

section \<open>Parsed entries\<close>

record log_metadata =
  md_client_ip :: "ip_addr option"
  md_request_method :: "string option"
  md_request_path :: "string option"
  md_status_code :: "16 word option"
  md_bytes_sent :: "64 word option"
  md_response_time_ms :: "64 word option"
  md_user_agent :: "string option"
  md_referer :: "string option"
  md_virtual_host :: "string option"
  md_upstream_service :: "string option"

definition default_metadata :: log_metadata where
  "default_metadata =
     \<lparr> md_client_ip = None, md_request_method = None, md_request_path = None,
       md_status_code = None, md_bytes_sent = None, md_response_time_ms = None,
       md_user_agent = None, md_referer = None, md_virtual_host = None,
       md_upstream_service = None \<rparr>"

record parsed_log_entry =
  pe_timestamp :: datetime
  pe_source_name :: string
  pe_level :: log_level
  pe_message :: string
  pe_raw :: string
  pe_metadata :: log_metadata

datatype parse_error =
    InvalidFormat string
  | MissingField string
  | InvalidValue string string

fun display_parse_error :: "parse_error \<Rightarrow> string" where
  "display_parse_error (InvalidFormat msg) = ''invalid format: '' @ msg"
| "display_parse_error (MissingField field) = ''missing field: '' @ field"
| "display_parse_error (InvalidValue field value) =
     ''invalid value for '' @ field @ '': '' @ value"

section \<open>Rows\<close>

text \<open>\<open>InsertLogEntry\<close>; the signed columns keep their Rust width.\<close>

record insert_log_entry =
  le_service_id :: "uuid option"
  le_timestamp :: datetime
  le_level :: string
  le_message :: string
  le_raw_line :: "string option"
  le_client_ip :: "string option"
  le_request_path :: "string option"
  le_status_code :: "16 word option"
  le_response_time_ms :: "64 word option"
  le_is_noise :: bool
  le_noise_reason :: "string option"
  le_threat_level :: string
  le_threat_categories :: "string list"
  le_source_host :: "string option"

record insert_service =
  is_name :: string
  is_unit_type :: string
  is_log_paths :: "string list option"
  is_virtual_host :: "string option"

section \<open>Tailed lines\<close>

text \<open>\<open>TailLine\<close> of \<open>src/src/log_scanner/tailer/mod.rs\<close>.\<close>

record tail_line =
  tl_file_path :: string
  tl_line :: string
  tl_byte_offset :: nat

end
