(* ===== verification/ServiceRepo.thy ===== *)
theory ServiceRepo
  imports LogEntry
begin

text \<open>
  The Postgres connection as the repositories see it, and the \<open>services\<close> table of
  \<open>src/src/db/repositories/service_repo.rs\<close>. Every query takes one step of the connection's clock;
  whether it is answered, the error text, the generated UUIDs and \<open>NOW()\<close> are functions of the clock,
  so every sequence of failures is a value of the model. Constraints of the schema
  (\<open>src/migrations\<close>: primary keys, \<open>UNIQUE\<close>) make an insert fail.
\<close>

section \<open>The connection\<close>

record pg =
  pg_up :: "nat \<Rightarrow> bool"
  pg_error :: "nat \<Rightarrow> string"
  pg_uuid :: "nat \<Rightarrow> uuid"
  pg_now :: "nat \<Rightarrow> datetime"
  pg_clock :: nat

definition tick :: "'a pg_scheme \<Rightarrow> 'a pg_scheme" where
  "tick db = db \<lparr> pg_clock := Suc (pg_clock db) \<rparr>"

definition run_query ::
  "('a pg_scheme \<Rightarrow> (sentinel_error + 'b) \<times> 'a pg_scheme) \<Rightarrow> 'a pg_scheme
   \<Rightarrow> (sentinel_error + 'b) \<times> 'a pg_scheme" where
  "run_query q db =
     (if pg_up db (pg_clock db) then (case q db of (r, db') \<Rightarrow> (r, tick db'))
      else (Inl (DatabaseError (pg_error db (pg_clock db))), tick db))"

definition db_fail :: "'a pg_scheme \<Rightarrow> sentinel_error" where
  "db_fail db = DatabaseError (pg_error db (pg_clock db))"

text \<open>\<open>src/src/db/pool.rs\<close>: opening the pool, and the trivial query.\<close>

definition create_pool :: "(string \<Rightarrow> string + 'p) \<Rightarrow> string \<Rightarrow> sentinel_error + 'p" where
  "create_pool connect database_url = map_err DatabaseError (connect database_url)"

definition health_check :: "'a pg_scheme \<Rightarrow> (sentinel_error + unit) \<times> 'a pg_scheme" where
  "health_check = run_query (\<lambda>db. (Inr (), db))"

lemma health_check_iff: "is_ok (fst (health_check db)) \<longleftrightarrow> pg_up db (pg_clock db)"
  by (simp add: health_check_def run_query_def)

section \<open>The services table\<close>

record service =
  sv_id :: uuid
  sv_name :: string
  sv_unit_type :: string
  sv_log_paths :: "string list option"
  sv_virtual_host :: "string option"
  sv_created_at :: datetime

record services_db = pg +
  sv_rows :: "service list"

definition service_of :: "uuid \<Rightarrow> datetime \<Rightarrow> insert_service \<Rightarrow> service" where
  "service_of uid now s =
     \<lparr> sv_id = uid, sv_name = is_name s, sv_unit_type = is_unit_type s, sv_log_paths = is_log_paths s,
       sv_virtual_host = is_virtual_host s, sv_created_at = now \<rparr>"

definition service_create ::
  "insert_service \<Rightarrow> services_db \<Rightarrow> (sentinel_error + uuid) \<times> services_db" where
  "service_create s = run_query (\<lambda>db.
     let uid = pg_uuid db (pg_clock db)
     in if \<exists>r\<in>set (sv_rows db). sv_id r = uid \<or> sv_name r = is_name s then (Inl (db_fail db), db)
        else (Inr uid, db \<lparr> sv_rows := sv_rows db @ [service_of uid (pg_now db (pg_clock db)) s] \<rparr>))"

definition service_find_by_name ::
  "string \<Rightarrow> services_db \<Rightarrow> (sentinel_error + service option) \<times> services_db" where
  "service_find_by_name n = run_query (\<lambda>db. (Inr (find (\<lambda>r. sv_name r = n) (sv_rows db)), db))"

definition service_find_by_virtual_host ::
  "string \<Rightarrow> services_db \<Rightarrow> (sentinel_error + service option) \<times> services_db" where
  "service_find_by_virtual_host v =
     run_query (\<lambda>db. (Inr (find (\<lambda>r. sv_virtual_host r = Some v) (sv_rows db)), db))"

definition service_get_or_create ::
  "insert_service \<Rightarrow> services_db \<Rightarrow> (sentinel_error + uuid) \<times> services_db" where
  "service_get_or_create s db =
     (case service_find_by_name (is_name s) db of
        (Inl e, db') \<Rightarrow> (Inl e, db')
      | (Inr (Some r), db') \<Rightarrow> (Inr (sv_id r), db')
      | (Inr None, db') \<Rightarrow> service_create s db')"

text \<open>\<open>collate\<close> is the sort key of the database's collation.\<close>

definition service_list_all ::
  "(string \<Rightarrow> 'k::linorder) \<Rightarrow> services_db \<Rightarrow> (sentinel_error + service list) \<times> services_db" where
  "service_list_all collate =
     run_query (\<lambda>db. (Inr (sort_key (\<lambda>r. collate (sv_name r)) (sv_rows db)), db))"

definition service_delete :: "uuid \<Rightarrow> services_db \<Rightarrow> (sentinel_error + bool) \<times> services_db" where
  "service_delete uid = run_query (\<lambda>db.
     (Inr (\<exists>r\<in>set (sv_rows db). sv_id r = uid),
      db \<lparr> sv_rows := filter (\<lambda>r. sv_id r \<noteq> uid) (sv_rows db) \<rparr>))"

section \<open>Facts\<close>

definition services_ok :: "services_db \<Rightarrow> bool" where
  "services_ok db \<longleftrightarrow> distinct (map sv_id (sv_rows db)) \<and> distinct (map sv_name (sv_rows db))"

lemma tick_sel [simp]:
  "pg_clock (tick db) = Suc (pg_clock db)" "pg_up (tick db) = pg_up db"
  "pg_error (tick db) = pg_error db" "pg_uuid (tick db) = pg_uuid db" "pg_now (tick db) = pg_now db"
  by (simp_all add: tick_def)

lemma tick_rows [simp]: "sv_rows (tick db) = sv_rows db"
  by (simp add: tick_def)

lemma services_ok_tick [simp]: "services_ok (tick db) = services_ok db"
  by (simp add: services_ok_def)

lemma run_query_Inr:
  "run_query q db = (Inr a, db') \<longleftrightarrow>
     pg_up db (pg_clock db) \<and> (\<exists>d. q db = (Inr a, d) \<and> db' = tick d)"
  by (auto simp: run_query_def split: prod.splits)

lemma find_name_row: "find (\<lambda>r. sv_name r = n) rs = Some r \<Longrightarrow> r \<in> set rs \<and> sv_name r = n"
  by (auto simp: find_Some_iff)

lemma service_find_by_name_rows [simp]:
  "snd (service_find_by_name n db) = tick db"
  by (simp add: service_find_by_name_def run_query_def)

lemma service_create_rows:
  "sv_rows (snd (service_create s db)) =
     sv_rows db @ (case fst (service_create s db) of
        Inl _ \<Rightarrow> [] | Inr uid \<Rightarrow> [service_of uid (pg_now db (pg_clock db)) s])"
  by (simp add: service_create_def run_query_def Let_def)

lemma service_create_ok:
  "services_ok db \<Longrightarrow> services_ok (snd (service_create s db))"
  by (auto simp: service_create_def run_query_def Let_def services_ok_def service_of_def image_iff)

lemma service_get_or_create_ok:
  "services_ok db \<Longrightarrow> services_ok (snd (service_get_or_create s db))"
proof -
  assume ok: "services_ok db"
  obtain r where "service_find_by_name (is_name s) db = (r, tick db)"
    by (metis prod.collapse service_find_by_name_rows)
  with ok show ?thesis
    by (auto simp: service_get_or_create_def service_create_ok split: sum.splits option.splits)
qed

lemma service_delete_ok: "services_ok db \<Longrightarrow> services_ok (snd (service_delete uid db))"
  by (auto simp: service_delete_def run_query_def services_ok_def distinct_map_filter)

text \<open>An id that \<open>get_or_create\<close> returns is the id of the one row with that name.\<close>

lemma service_get_or_create_row:
  assumes "service_get_or_create s db = (Inr uid, db')"
  shows "\<exists>r\<in>set (sv_rows db'). sv_name r = is_name s \<and> sv_id r = uid"
proof -
  obtain x where f: "service_find_by_name (is_name s) db = (x, tick db)"
    by (metis prod.collapse service_find_by_name_rows)
  consider (found) r where "x = Inr (Some r)" "uid = sv_id r" "db' = tick db"
    | (new) "x = Inr None" "service_create s (tick db) = (Inr uid, db')"
    using assms f by (auto simp: service_get_or_create_def split: sum.splits option.splits)
  then show ?thesis
  proof cases
    case found
    then have "find (\<lambda>r. sv_name r = is_name s) (sv_rows db) = Some r"
      using f by (auto simp: service_find_by_name_def run_query_def split: if_splits)
    with found show ?thesis by (auto dest: find_name_row)
  next
    case new
    then show ?thesis
      using service_create_rows [of s "tick db"] by (auto simp: service_of_def)
  qed
qed

text \<open>Rows are only added: every row of the table stays.\<close>

lemma service_get_or_create_mono:
  "set (sv_rows db) \<subseteq> set (sv_rows (snd (service_get_or_create s db)))"
proof -
  obtain x where f: "service_find_by_name (is_name s) db = (x, tick db)"
    by (metis prod.collapse service_find_by_name_rows)
  then show ?thesis
    using service_create_rows [of s "tick db"]
    by (auto simp: service_get_or_create_def split: sum.splits option.splits)
qed

lemma row_unique:
  assumes "services_ok db" "r \<in> set (sv_rows db)" "r' \<in> set (sv_rows db)" "sv_name r = sv_name r'"
  shows "r = r'"
  using assms by (auto simp: services_ok_def distinct_map dest: inj_onD)

definition sample_services_db :: services_db where
  "sample_services_db =
     \<lparr> pg_up = (\<lambda>_. True), pg_error = (\<lambda>_. []), pg_uuid = of_nat, pg_now = int, pg_clock = 0,
       sv_rows = [] \<rparr>"

end
