(* ===== verification/KeyRepo.thy ===== *)
theory KeyRepo
  imports ServiceRepo
begin

text \<open>
  The \<open>api_keys\<close> table, \<open>src/src/db/repositories/api_key_repo.rs\<close>: rows that bind a key to at most one
  role, lookup of active keys by their public id, revocation.
\<close>

record api_key_row =
  ak_id :: uuid
  ak_name :: string
  ak_hash :: string
  ak_permissions :: "string list"
  ak_key_id :: string
  ak_agent_id :: "string option"
  ak_hostname :: "string option"
  ak_app_name :: "string option"
  ak_created_at :: datetime
  ak_last_used_at :: "datetime option"
  ak_revoked_at :: "datetime option"

datatype key_role = RoleAgent | RoleApp | RoleDashboard

definition key_role :: "api_key_row \<Rightarrow> key_role" where
  "key_role r =
     (if ak_agent_id r \<noteq> None then RoleAgent
      else if ak_app_name r \<noteq> None then RoleApp
      else RoleDashboard)"

definition key_is_active :: "api_key_row \<Rightarrow> bool" where
  "key_is_active r \<longleftrightarrow> ak_revoked_at r = None"

record insert_api_key =
  ik_name :: string
  ik_hash :: string
  ik_permissions :: "string list"
  ik_key_id :: string
  ik_agent_id :: "string option"
  ik_hostname :: "string option"
  ik_app_name :: "string option"

record keys_db = pg +
  kd_rows :: "api_key_row list"

definition role_valid :: "insert_api_key \<Rightarrow> bool" where
  "role_valid k \<longleftrightarrow>
     (ik_agent_id k \<noteq> None \<and> ik_app_name k = None)
     \<or> (ik_agent_id k = None \<and> ik_app_name k \<noteq> None)
     \<or> (ik_agent_id k = None \<and> ik_app_name k = None)"

definition key_row_of :: "uuid \<Rightarrow> datetime \<Rightarrow> insert_api_key \<Rightarrow> api_key_row" where
  "key_row_of i now k =
     \<lparr> ak_id = i, ak_name = ik_name k, ak_hash = ik_hash k, ak_permissions = ik_permissions k,
       ak_key_id = ik_key_id k, ak_agent_id = ik_agent_id k, ak_hostname = ik_hostname k,
       ak_app_name = ik_app_name k, ak_created_at = now, ak_last_used_at = None,
       ak_revoked_at = None \<rparr>"

definition key_clash :: "api_key_row \<Rightarrow> api_key_row \<Rightarrow> bool" where
  "key_clash r x \<longleftrightarrow> ak_id x = ak_id r \<or> ak_name x = ak_name r \<or> ak_key_id x = ak_key_id r"

definition key_create ::
  "insert_api_key \<Rightarrow> keys_db \<Rightarrow> (sentinel_error + api_key_row) \<times> keys_db" where
  "key_create k db =
     (if \<not> role_valid k
      then (Inl (AuthError ''API key must bind at most one of agent_id or app_name''), db)
      else run_query (\<lambda>db.
        let r = key_row_of (pg_uuid db (pg_clock db)) (pg_now db (pg_clock db)) k
        in if list_ex (key_clash r) (kd_rows db)
           then (Inl (db_fail db), db)
           else (Inr r, db \<lparr> kd_rows := kd_rows db @ [r] \<rparr>)) db)"

definition active_with_id :: "string \<Rightarrow> api_key_row \<Rightarrow> bool" where
  "active_with_id kid r \<longleftrightarrow> ak_key_id r = kid \<and> ak_revoked_at r = None"

definition find_active_by_key_id ::
  "string \<Rightarrow> keys_db \<Rightarrow> (sentinel_error + api_key_row option) \<times> keys_db" where
  "find_active_by_key_id kid = run_query (\<lambda>db. (Inr (find (active_with_id kid) (kd_rows db)), db))"

definition touch_last_used :: "uuid \<Rightarrow> keys_db \<Rightarrow> (sentinel_error + unit) \<times> keys_db" where
  "touch_last_used i = run_query (\<lambda>db.
     (Inr (), db \<lparr> kd_rows := map (\<lambda>r. if ak_id r = i
        then r \<lparr> ak_last_used_at := Some (pg_now db (pg_clock db)) \<rparr> else r) (kd_rows db) \<rparr>))"

definition key_revoke :: "string \<Rightarrow> keys_db \<Rightarrow> (sentinel_error + bool) \<times> keys_db" where
  "key_revoke kid = run_query (\<lambda>db.
     (Inr (\<exists>r\<in>set (kd_rows db). active_with_id kid r),
      db \<lparr> kd_rows := map (\<lambda>r. if active_with_id kid r
        then r \<lparr> ak_revoked_at := Some (pg_now db (pg_clock db)) \<rparr> else r) (kd_rows db) \<rparr>))"

record api_key_summary =
  ks_key_id :: string
  ks_name :: string
  ks_agent_id :: "string option"
  ks_hostname :: "string option"
  ks_app_name :: "string option"
  ks_permissions :: "string list"
  ks_created_at :: datetime
  ks_last_used_at :: "datetime option"
  ks_revoked_at :: "datetime option"

definition summary_of :: "api_key_row \<Rightarrow> api_key_summary" where
  "summary_of r =
     \<lparr> ks_key_id = ak_key_id r, ks_name = ak_name r, ks_agent_id = ak_agent_id r,
       ks_hostname = ak_hostname r, ks_app_name = ak_app_name r, ks_permissions = ak_permissions r,
       ks_created_at = ak_created_at r, ks_last_used_at = ak_last_used_at r,
       ks_revoked_at = ak_revoked_at r \<rparr>"

definition key_list :: "keys_db \<Rightarrow> (sentinel_error + api_key_summary list) \<times> keys_db" where
  "key_list = run_query (\<lambda>db.
     (Inr (map summary_of (rev (sort_key ak_created_at (rev (kd_rows db))))), db))"

definition summary_role :: "api_key_summary \<Rightarrow> key_role" where
  "summary_role r =
     (if ks_agent_id r \<noteq> None then RoleAgent
      else if ks_app_name r \<noteq> None then RoleApp
      else RoleDashboard)"

section \<open>Facts\<close>

definition keys_ok :: "keys_db \<Rightarrow> bool" where
  "keys_ok db \<longleftrightarrow>
     distinct (map ak_id (kd_rows db)) \<and> distinct (map ak_name (kd_rows db))
     \<and> distinct (map ak_key_id (kd_rows db))
     \<and> (\<forall>r\<in>set (kd_rows db). ak_agent_id r = None \<or> ak_app_name r = None)"

lemma tick_keys [simp]: "kd_rows (tick db) = kd_rows db" "keys_ok (tick db) = keys_ok db"
  by (simp_all add: tick_def keys_ok_def)

lemma role_valid_iff: "role_valid k \<longleftrightarrow> ik_agent_id k = None \<or> ik_app_name k = None"
  by (auto simp: role_valid_def)

lemma key_create_ok: "keys_ok db \<Longrightarrow> keys_ok (snd (key_create k db))"
proof -
  assume ok: "keys_ok db"
  let ?r = "key_row_of (pg_uuid db (pg_clock db)) (pg_now db (pg_clock db)) k"
  consider "kd_rows (snd (key_create k db)) = kd_rows db"
    | "role_valid k" "\<not> list_ex (key_clash ?r) (kd_rows db)"
      "kd_rows (snd (key_create k db)) = kd_rows db @ [?r]"
    by (cases "role_valid k"; cases "pg_up db (pg_clock db)"; cases "list_ex (key_clash ?r) (kd_rows db)")
      (simp_all add: key_create_def run_query_def Let_def)
  then show ?thesis
  proof cases
    case 1
    with ok show ?thesis by (simp add: keys_ok_def)
  next
    case 2
    have "ak_agent_id ?r = None \<or> ak_app_name ?r = None"
      using 2(1) by (simp add: key_row_of_def role_valid_iff)
    moreover have "\<forall>x\<in>set (kd_rows db). \<not> key_clash ?r x" using 2(2) by (simp add: list_ex_iff)
    ultimately show ?thesis
      using ok unfolding keys_ok_def 2(3) by (auto simp: key_clash_def)
  qed
qed

lemma map_if_sel:
  "(\<And>r. f (g r) = f r) \<Longrightarrow> map (f \<circ> (\<lambda>r. if P r then g r else r)) rs = map f rs"
  by (induction rs) auto

lemma key_revoke_ok: "keys_ok db \<Longrightarrow> keys_ok (snd (key_revoke kid db))"
  by (auto simp: key_revoke_def run_query_def keys_ok_def map_if_sel)

lemma touch_ok: "keys_ok db \<Longrightarrow> keys_ok (snd (touch_last_used i db))"
  by (auto simp: touch_last_used_def run_query_def keys_ok_def map_if_sel)

lemma find_active_Inr:
  "find_active_by_key_id kid db = (Inr x, db') \<Longrightarrow>
   db' = tick db \<and> x = find (active_with_id kid) (kd_rows db)"
  by (auto simp: find_active_by_key_id_def run_query_def split: if_splits)

lemma find_active_sel [simp]: "snd (find_active_by_key_id kid db) = tick db"
  by (simp add: find_active_by_key_id_def run_query_def)

text \<open>After a successful revocation no active row has the id.\<close>

lemma key_revoke_rows:
  "key_revoke kid db = (Inr b, db') \<Longrightarrow>
   b = (\<exists>r\<in>set (kd_rows db). active_with_id kid r)
   \<and> kd_rows db' = map (\<lambda>r. if active_with_id kid r
        then r \<lparr> ak_revoked_at := Some (pg_now db (pg_clock db)) \<rparr> else r) (kd_rows db)"
  by (auto simp only: key_revoke_def run_query_def split: if_splits prod.splits) simp_all

lemma key_revoke_inactive:
  assumes "key_revoke kid db = (Inr b, db')"
  shows "find (active_with_id kid) (kd_rows db') = None"
    "b = (find (active_with_id kid) (kd_rows db) \<noteq> None)"
proof -
  have rev: "\<not> active_with_id kid (r \<lparr> ak_revoked_at := Some t \<rparr>)" for r t
    by (simp add: active_with_id_def)
  show "find (active_with_id kid) (kd_rows db') = None"
    unfolding find_None_iff conjunct2 [OF key_revoke_rows [OF assms]] using rev by auto
  show "b = (find (active_with_id kid) (kd_rows db) \<noteq> None)"
    unfolding find_None_iff conjunct1 [OF key_revoke_rows [OF assms]] by blast
qed

end
