(* ===== verification/KeyAuth.thy ===== *)
theory KeyAuth
  imports KeyRepo
begin

text \<open>
  API-key authentication, \<open>src/src/hub/auth.rs\<close>: the key format, the bounded cache of verified keys,
  and \<open>authenticate\<close>. argon2, SHA-256, base64 and the rate limiter are arguments. Instants of the
  monotonic clock are nanoseconds; \<open>elapsed\<close> saturates at zero, as it does in the standard library.
\<close>

section \<open>Key format\<close>

definition key_prefix :: string where "key_prefix = ''snt_''"
definition key_id_len :: nat where "key_id_len = 8"
definition secret_len :: nat where "secret_len = 43"

definition is_hex_lower :: "char \<Rightarrow> bool" where
  "is_hex_lower c \<longleftrightarrow> is_ascii_digit c \<or> in_range 97 102 c"

definition is_base64url :: "char \<Rightarrow> bool" where
  "is_base64url c \<longleftrightarrow> is_ascii_digit c \<or> is_ascii_lowercase c \<or> is_ascii_uppercase c
     \<or> c = CHR ''_'' \<or> c = CHR ''-''"

definition is_wellformed :: "string \<Rightarrow> bool" where
  "is_wellformed raw \<longleftrightarrow>
     (let n = length key_prefix
      in length raw = n + key_id_len + 1 + secret_len \<and> starts_with raw key_prefix
         \<and> list_all is_hex_lower (take key_id_len (drop n raw))
         \<and> raw ! (n + key_id_len) = CHR ''_''
         \<and> list_all is_base64url (drop (n + key_id_len + 1) raw))"

definition parse_key_id :: "string \<Rightarrow> string option" where
  "parse_key_id raw =
     (if is_wellformed raw then Some (take key_id_len (drop (length key_prefix) raw)) else None)"

section \<open>Permissions and principals\<close>

datatype permission = IngestMetrics | IngestLogs | IngestEvents | ReadDashboard

fun permission_as_str :: "permission \<Rightarrow> string" where
  "permission_as_str IngestMetrics = ''ingest:metrics''"
| "permission_as_str IngestLogs = ''ingest:logs''"
| "permission_as_str IngestEvents = ''ingest:events''"
| "permission_as_str ReadDashboard = ''read:dashboard''"

definition permission_parse :: "string \<Rightarrow> permission option" where
  "permission_parse v =
     (if v = ''ingest:metrics'' then Some IngestMetrics
      else if v = ''ingest:logs'' then Some IngestLogs
      else if v = ''ingest:events'' then Some IngestEvents
      else if v = ''read:dashboard'' then Some ReadDashboard
      else None)"

lemma permission_roundtrip [simp]: "permission_parse (permission_as_str p) = Some p"
  by (cases p) (simp_all add: permission_parse_def)

lemma permission_parse_Some: "permission_parse v = Some p \<longleftrightarrow> v = permission_as_str p"
  by (cases p) (auto simp: permission_parse_def)

record principal =
  pp_key_id :: string
  pp_permissions :: "permission set"
  pp_agent_id :: "string option"
  pp_hostname :: "string option"
  pp_app_name :: "string option"

definition principal_require :: "principal \<Rightarrow> permission \<Rightarrow> sentinel_error + unit" where
  "principal_require p perm =
     (if perm \<in> pp_permissions p then Inr ()
      else Inl (AuthError (''key lacks required permission '' @ [CHR 0x27] @ permission_as_str perm
             @ [CHR 0x27])))"

datatype auth_error = Malformed | UnknownKey | BadSignature | RateLimited | Storage string

fun display_auth_error :: "auth_error \<Rightarrow> string" where
  "display_auth_error Malformed = ''malformed API key''"
| "display_auth_error UnknownKey = ''unknown API key''"
| "display_auth_error BadSignature = ''invalid API key''"
| "display_auth_error RateLimited = ''too many authentication attempts''"
| "display_auth_error (Storage m) = ''authentication storage failure: '' @ m"

definition principal_from_row :: "api_key_row \<Rightarrow> principal" where
  "principal_from_row r =
     \<lparr> pp_key_id = ak_key_id r,
       pp_permissions = set (List.map_filter permission_parse (ak_permissions r)),
       pp_agent_id = ak_agent_id r, pp_hostname = ak_hostname r, pp_app_name = ak_app_name r \<rparr>"

section \<open>The cache of verified keys\<close>

type_synonym instant = nat

record cache_entry =
  ce_principal :: principal
  ce_inserted_at :: instant

record verified_cache =
  vc_map :: "string \<Rightarrow> cache_entry option"
  vc_order :: "string list"

definition cache_max_entries :: nat where "cache_max_entries = 1000"
definition cache_ttl :: nat where "cache_ttl = 60 * 1000000000"

definition cache_new :: verified_cache where
  "cache_new = \<lparr> vc_map = Map.empty, vc_order = [] \<rparr>"

definition entry_fresh :: "instant \<Rightarrow> cache_entry \<Rightarrow> bool" where
  "entry_fresh now e \<longleftrightarrow> now - ce_inserted_at e \<le> cache_ttl"

definition cache_get :: "instant \<Rightarrow> verified_cache \<Rightarrow> string \<Rightarrow> principal option" where
  "cache_get now c k =
     (case vc_map c k of
        None \<Rightarrow> None
      | Some e \<Rightarrow> if entry_fresh now e then Some (ce_principal e) else None)"

text \<open>\<open>order.retain\<close> with the removal from the map that its closure does.\<close>

fun cache_purge :: "instant \<Rightarrow> string list \<Rightarrow> (string \<Rightarrow> cache_entry option) \<Rightarrow>
    string list \<times> (string \<Rightarrow> cache_entry option)" where
  "cache_purge now [] m = ([], m)"
| "cache_purge now (k # ks) m =
     (if (case m k of Some e \<Rightarrow> entry_fresh now e | None \<Rightarrow> False)
      then (case cache_purge now ks m of (ks', m') \<Rightarrow> (k # ks', m'))
      else cache_purge now ks (m(k := None)))"

text \<open>The eviction loop: the front of the queue goes while it is too long.\<close>

fun cache_evict :: "string list \<Rightarrow> (string \<Rightarrow> cache_entry option) \<Rightarrow>
    string list \<times> (string \<Rightarrow> cache_entry option)" where
  "cache_evict [] m = ([], m)"
| "cache_evict (k # ks) m =
     (if cache_max_entries < length (k # ks) then cache_evict ks (m(k := None)) else (k # ks, m))"

definition cache_insert :: "instant \<Rightarrow> string \<Rightarrow> principal \<Rightarrow> verified_cache \<Rightarrow> verified_cache" where
  "cache_insert now k p c =
     (let order = (if k \<in> set (vc_order c) then vc_order c else vc_order c @ [k]);
          m = (vc_map c)(k \<mapsto> \<lparr> ce_principal = p, ce_inserted_at = now \<rparr>);
          (order, m) = cache_purge now order m;
          (order, m) = cache_evict order m
      in \<lparr> vc_map = m, vc_order = order \<rparr>)"

definition cache_invalidate :: "string \<Rightarrow> verified_cache \<Rightarrow> verified_cache" where
  "cache_invalidate k c =
     \<lparr> vc_map = (vc_map c)(k := None), vc_order = filter (\<lambda>x. x \<noteq> k) (vc_order c) \<rparr>"

section \<open>The service\<close>

text \<open>argon2: parsing a stored hash, and verifying a password against the parsed hash.\<close>

record 'h argon2 =
  ar_parse :: "string \<Rightarrow> string + 'h"
  ar_verify :: "'h \<Rightarrow> string \<Rightarrow> bool"

definition verify_hash :: "'h argon2 \<Rightarrow> string \<Rightarrow> string \<Rightarrow> auth_error + unit" where
  "verify_hash ar stored raw =
     and_then (map_err (\<lambda>e. Storage (''stored hash unparseable: '' @ e)) (ar_parse ar stored)) (\<lambda>h.
       if ar_verify ar h raw then Inr () else Inl BadSignature)"

record 'l auth_service =
  as_db :: keys_db
  as_cache :: verified_cache
  as_limiter :: 'l
  as_touches :: "uuid list"

definition max_auth_attempts_per_minute :: nat where "max_auth_attempts_per_minute = 20"

definition auth_invalidate :: "string \<Rightarrow> 'l auth_service \<Rightarrow> 'l auth_service" where
  "auth_invalidate k s = s \<lparr> as_cache := cache_invalidate k (as_cache s) \<rparr>"

text \<open>The keyed limiter of the governor crate: a decision for an address and the limiter after it.\<close>

definition check_ip_budget ::
  "('l \<Rightarrow> string \<Rightarrow> bool \<times> 'l) \<Rightarrow> string \<Rightarrow> 'l auth_service \<Rightarrow> (auth_error + unit) \<times> 'l auth_service"
  where
  "check_ip_budget lim ip s =
     (case lim (as_limiter s) ip of
        (ok, l) \<Rightarrow> (if ok then Inr () else Inl RateLimited, s \<lparr> as_limiter := l \<rparr>))"

definition authenticate ::
  "'h argon2 \<Rightarrow> instant \<Rightarrow> string \<Rightarrow> 'l auth_service \<Rightarrow> (auth_error + principal) \<times> 'l auth_service" where
  "authenticate ar now raw s =
     (case parse_key_id raw of
        None \<Rightarrow> (Inl Malformed, s)
      | Some kid \<Rightarrow>
          (case cache_get now (as_cache s) kid of
             Some p \<Rightarrow> (Inr p, s)
           | None \<Rightarrow>
               (case find_active_by_key_id kid (as_db s) of
                  (Inl e, db) \<Rightarrow> (Inl (Storage (display_error e)), s \<lparr> as_db := db \<rparr>)
                | (Inr None, db) \<Rightarrow> (Inl UnknownKey, s \<lparr> as_db := db \<rparr>)
                | (Inr (Some row), db) \<Rightarrow>
                    (case verify_hash ar (ak_hash row) raw of
                       Inl _ \<Rightarrow> (Inl BadSignature, s \<lparr> as_db := db \<rparr>)
                     | Inr _ \<Rightarrow>
                         (let p = principal_from_row row
                          in (Inr p,
                              s \<lparr> as_db := db,
                                  as_cache := cache_insert now (ak_key_id row) p (as_cache s),
                                  as_touches := as_touches s @ [ak_id row] \<rparr>))))))"

text \<open>The spawned task that stamps the usage of a key.\<close>

definition run_touch :: "'l auth_service \<Rightarrow> 'l auth_service" where
  "run_touch s =
     (case as_touches s of
        [] \<Rightarrow> s
      | i # is \<Rightarrow> s \<lparr> as_db := snd (touch_last_used i (as_db s)), as_touches := is \<rparr>)"

section \<open>Key generation\<close>

definition hex_encode :: "nat list \<Rightarrow> string" where
  "hex_encode bs =
     concat (map (\<lambda>b. [char_of (if b div 16 < 10 then 48 + b div 16 else 87 + b div 16),
                         char_of (if b mod 16 < 10 then 48 + b mod 16 else 87 + b mod 16)]) bs)"

definition generate_key :: "(nat list \<Rightarrow> string) \<Rightarrow> (string \<Rightarrow> nat list) \<Rightarrow> nat list \<Rightarrow> string \<times> string" where
  "generate_key b64 sha256 secret_bytes =
     (let secret = b64 secret_bytes;
          key_id = hex_encode (take 4 (sha256 secret))
      in (key_prefix @ key_id @ ''_'' @ secret, key_id))"

definition hash_key :: "(string \<Rightarrow> string + string) \<Rightarrow> string \<Rightarrow> sentinel_error + string" where
  "hash_key argon raw = map_err (\<lambda>e. Internal (''argon2 failure: '' @ e)) (argon raw)"

section \<open>The cache invariant\<close>

definition key_fresh :: "instant \<Rightarrow> (string \<Rightarrow> cache_entry option) \<Rightarrow> string \<Rightarrow> bool" where
  "key_fresh now m k = (case m k of Some e \<Rightarrow> entry_fresh now e | None \<Rightarrow> False)"

lemma cache_purge_eq:
  "distinct ks \<Longrightarrow>
   cache_purge now ks m =
     (filter (key_fresh now m) ks, (\<lambda>k. if k \<in> set ks \<and> \<not> key_fresh now m k then None else m k))"
proof (induction ks arbitrary: m)
  case (Cons k ks)
  have same: "x \<in> set ks \<Longrightarrow> key_fresh now (m(k := None)) x = key_fresh now m x" for x
    using Cons.prems by (auto simp: key_fresh_def)
  have "filter (key_fresh now (m(k := None))) ks = filter (key_fresh now m) ks"
    using same by (intro filter_cong) auto
  then show ?case
    using Cons same by (auto simp: key_fresh_def [symmetric] fun_eq_iff)
qed auto

lemma cache_evict_eq:
  "cache_evict ks m =
     (drop (length ks - cache_max_entries) ks,
      (\<lambda>k. if k \<in> set (take (length ks - cache_max_entries) ks) then None else m k))"
proof (induction ks arbitrary: m)
  case (Cons k ks)
  show ?case
  proof (cases "cache_max_entries < length (k # ks)")
    case True
    then have "length (k # ks) - cache_max_entries = Suc (length ks - cache_max_entries)" by simp
    with True Cons show ?thesis by (auto simp: fun_eq_iff)
  next
    case False
    then show ?thesis by simp
  qed
qed simp

definition cache_ok :: "verified_cache \<Rightarrow> bool" where
  "cache_ok c \<longleftrightarrow>
     dom (vc_map c) = set (vc_order c) \<and> distinct (vc_order c)
     \<and> length (vc_order c) \<le> cache_max_entries"

lemma cache_new_ok: "cache_ok cache_new"
  by (simp add: cache_ok_def cache_new_def)

lemma cache_invalidate_ok: "cache_ok c \<Longrightarrow> cache_ok (cache_invalidate k c)"
  by (auto simp: cache_ok_def cache_invalidate_def le_trans [OF length_filter_le])

text \<open>The queue and map before the purge, and the purged queue.\<close>

definition insert_order :: "string \<Rightarrow> verified_cache \<Rightarrow> string list" where
  "insert_order k c = (if k \<in> set (vc_order c) then vc_order c else vc_order c @ [k])"

definition insert_map :: "instant \<Rightarrow> string \<Rightarrow> principal \<Rightarrow> verified_cache \<Rightarrow> string \<Rightarrow> cache_entry option" where
  "insert_map now k p c = (vc_map c)(k \<mapsto> \<lparr> ce_principal = p, ce_inserted_at = now \<rparr>)"

definition purged :: "instant \<Rightarrow> string \<Rightarrow> principal \<Rightarrow> verified_cache \<Rightarrow> string list" where
  "purged now k p c = filter (key_fresh now (insert_map now k p c)) (insert_order k c)"

lemma insert_order_ok:
  assumes "cache_ok c"
  shows "distinct (insert_order k c)" "set (insert_order k c) = dom (insert_map now k p c)"
    "length (insert_order k c) \<le> Suc cache_max_entries"
  using assms by (auto simp: cache_ok_def insert_order_def insert_map_def)

lemma cache_insert_eq:
  assumes "cache_ok c"
  shows "cache_insert now k p c =
    \<lparr> vc_map = (\<lambda>x. if x \<in> set (drop (length (purged now k p c) - cache_max_entries) (purged now k p c))
                    then insert_map now k p c x else None),
      vc_order = drop (length (purged now k p c) - cache_max_entries) (purged now k p c) \<rparr>"
proof -
  let ?m = "insert_map now k p c" and ?q = "purged now k p c"
  let ?n = "length ?q - cache_max_entries"
  note ord = insert_order_ok [OF assms, of k]
  have dq: "distinct ?q" unfolding purged_def using ord(1) by simp
  have purge: "cache_purge now (insert_order k c) ?m =
      (?q, \<lambda>x. if x \<in> set (insert_order k c) \<and> \<not> key_fresh now ?m x then None else ?m x)"
    unfolding purged_def by (rule cache_purge_eq [OF ord(1)])
  have split: "set ?q = set (take ?n ?q) \<union> set (drop ?n ?q)"
    by (metis append_take_drop_id set_append)
  have disj: "set (take ?n ?q) \<inter> set (drop ?n ?q) = {}"
    using dq by (metis append_take_drop_id distinct_append)
  have map: "(if x \<in> set (take ?n ?q) then None
        else if x \<in> set (insert_order k c) \<and> \<not> key_fresh now ?m x then None else ?m x)
      = (if x \<in> set (drop ?n ?q) then ?m x else None)" for x
  proof (cases "x \<in> set ?q")
    case True
    then have "key_fresh now ?m x" by (simp add: purged_def)
    with True split disj show ?thesis by auto
  next
    case False
    with split have "x \<notin> set (drop ?n ?q)" by blast
    moreover have "x \<in> set (insert_order k c) \<Longrightarrow> \<not> key_fresh now ?m x"
      using False by (simp add: purged_def)
    moreover have "x \<notin> set (insert_order k c) \<Longrightarrow> ?m x = None"
      using ord(2) [of now p] by (auto simp: domIff)
    ultimately show ?thesis by auto
  qed
  have "cache_insert now k p c =
      (let (order, m) = cache_purge now (insert_order k c) ?m; (order, m) = cache_evict order m
       in \<lparr> vc_map = m, vc_order = order \<rparr>)"
    by (simp add: cache_insert_def insert_order_def insert_map_def)
  then show ?thesis by (simp add: purge cache_evict_eq map)
qed

lemma cache_insert_ok:
  assumes "cache_ok c"
  shows "cache_ok (cache_insert now k p c)"
proof -
  let ?q = "purged now k p c"
  let ?d = "drop (length ?q - cache_max_entries) ?q"
  have "distinct ?q" unfolding purged_def using insert_order_ok(1) [OF assms] by simp
  moreover have "set ?d \<subseteq> dom (insert_map now k p c)"
    using set_drop_subset [of _ ?q] insert_order_ok(2) [OF assms, of k now p]
    by (auto simp: purged_def)
  ultimately have "distinct ?d" "dom (\<lambda>x. if x \<in> set ?d then insert_map now k p c x else None) = set ?d"
    by (auto simp: dom_def split: if_splits)
  moreover have "length ?d \<le> cache_max_entries" by simp
  ultimately show ?thesis unfolding cache_ok_def cache_insert_eq [OF assms] by simp
qed

text \<open>The key just verified survives its own insertion.\<close>

lemma cache_insert_get:
  assumes "cache_ok c"
  shows "vc_map (cache_insert now k p c) k = Some \<lparr> ce_principal = p, ce_inserted_at = now \<rparr>"
proof -
  let ?q = "purged now k p c"
  have fresh: "key_fresh now (insert_map now k p c) k"
    by (simp add: key_fresh_def insert_map_def entry_fresh_def)
  have "k \<in> set (drop (length ?q - cache_max_entries) ?q)"
  proof (cases "k \<in> set (vc_order c)")
    case True
    then have "length ?q \<le> length (vc_order c)"
      unfolding purged_def insert_order_def by simp
    with assms have "length ?q \<le> cache_max_entries" by (simp add: cache_ok_def)
    moreover have "k \<in> set ?q" using True fresh by (simp add: purged_def insert_order_def)
    ultimately show ?thesis by simp
  next
    case False
    have max: "0 < cache_max_entries" by (simp add: cache_max_entries_def)
    let ?f = "filter (key_fresh now (insert_map now k p c)) (vc_order c)"
    have q: "?q = ?f @ [k]" using False fresh by (simp add: purged_def insert_order_def)
    then have "length ?q - cache_max_entries \<le> length ?f" using max by simp
    then show ?thesis unfolding q by simp
  qed
  then show ?thesis by (simp add: cache_insert_eq [OF assms] insert_map_def)
qed

lemma cache_insert_other:
  assumes "cache_ok c" "x \<noteq> k" "vc_map (cache_insert now k p c) x = Some e"
  shows "vc_map c x = Some e"
  using assms(2,3) by (auto simp: cache_insert_eq [OF assms(1)] insert_map_def split: if_splits)

section \<open>Authentication\<close>

lemma parse_key_id_len: "parse_key_id raw = Some kid \<Longrightarrow> length kid = key_id_len"
  by (auto simp: parse_key_id_def is_wellformed_def Let_def key_prefix_def key_id_len_def
      split: if_splits)

lemma verify_hash_ok:
  "verify_hash ar stored raw = Inr u \<longleftrightarrow> (\<exists>h. ar_parse ar stored = Inr h \<and> ar_verify ar h raw)"
  by (auto simp: verify_hash_def shape_simps split: if_splits)

lemma find_active_row:
  "find (active_with_id kid) rs = Some r \<Longrightarrow> r \<in> set rs \<and> ak_key_id r = kid \<and> ak_revoked_at r = None"
  by (auto simp: find_Some_iff active_with_id_def)

text \<open>On a cache miss a principal is only returned for an active row whose hash verifies.\<close>

lemma authenticate_miss:
  assumes "authenticate ar now raw s = (Inr p, s')" "parse_key_id raw = Some kid"
    and "cache_get now (as_cache s) kid = None"
  obtains row where "row \<in> set (kd_rows (as_db s))" "ak_key_id row = kid" "ak_revoked_at row = None"
    "verify_hash ar (ak_hash row) raw = Inr ()" "p = principal_from_row row"
    "as_cache s' = cache_insert now kid p (as_cache s)" "as_db s' = tick (as_db s)"
proof -
  obtain x db where q: "find_active_by_key_id kid (as_db s) = (x, db)" by force
  with assms obtain row where x: "x = Inr (Some row)"
    and v: "verify_hash ar (ak_hash row) raw = Inr ()" "p = principal_from_row row"
    and s': "s' = s \<lparr> as_db := db, as_cache := cache_insert now (ak_key_id row) p (as_cache s),
               as_touches := as_touches s @ [ak_id row] \<rparr>"
    by (auto simp: authenticate_def Let_def split: sum.splits option.splits)
  have "db = tick (as_db s)" "find (active_with_id kid) (kd_rows (as_db s)) = Some row"
    using find_active_Inr [of kid "as_db s" "Some row" db] q x by auto
  note f = find_active_row [OF this(2)]
  show ?thesis by (rule that [of row]) (use f v s' \<open>db = tick (as_db s)\<close> in simp_all)
qed

text \<open>A fresh cached principal is returned whatever the secret part of the key is.\<close>

lemma authenticate_hit:
  assumes "parse_key_id raw = Some kid" "cache_get now (as_cache s) kid = Some p"
  shows "authenticate ar now raw s = (Inr p, s)"
  using assms by (simp add: authenticate_def)

lemma authenticate_revoked:
  assumes "parse_key_id raw = Some kid" "cache_get now (as_cache s) kid = None"
    and "find (active_with_id kid) (kd_rows (as_db s)) = None"
  shows "\<exists>e. fst (authenticate ar now raw s) = Inl e \<and> (e = UnknownKey \<or> (\<exists>m. e = Storage m))"
  using assms
  by (simp add: authenticate_def find_active_by_key_id_def run_query_def)

text \<open>Failures leave the cache alone.\<close>

lemma authenticate_Inl_cache:
  "fst (authenticate ar now raw s) = Inl e \<Longrightarrow> as_cache (snd (authenticate ar now raw s)) = as_cache s"
  by (auto simp: authenticate_def Let_def split: sum.splits option.splits prod.splits)

section \<open>Histories\<close>

text \<open>
  What can happen to the service: requests at some instant, the stamping task, an explicit
  invalidation, and changes that other processes make to the table.
\<close>

datatype auth_op = OpAuthenticate instant string | OpTouch | OpInvalidate string | OpTable keys_db

fun auth_op_step :: "'h argon2 \<Rightarrow> auth_op \<Rightarrow> 'l auth_service \<Rightarrow> 'l auth_service" where
  "auth_op_step ar (OpAuthenticate now raw) s = snd (authenticate ar now raw s)"
| "auth_op_step ar OpTouch s = run_touch s"
| "auth_op_step ar (OpInvalidate k) s = auth_invalidate k s"
| "auth_op_step ar (OpTable db) s = s \<lparr> as_db := db \<rparr>"

inductive auth_reach :: "'h argon2 \<Rightarrow> 'l auth_service \<Rightarrow> 'l auth_service \<Rightarrow> bool" for ar s0 where
  start: "auth_reach ar s0 s0"
| step: "auth_reach ar s0 s \<Longrightarrow> auth_reach ar s0 (auth_op_step ar x s)"

text \<open>Cached principals carry the key id they are filed under.\<close>

definition auth_ok :: "'l auth_service \<Rightarrow> bool" where
  "auth_ok s \<longleftrightarrow> cache_ok (as_cache s)
     \<and> (\<forall>k e. vc_map (as_cache s) k = Some e \<longrightarrow> pp_key_id (ce_principal e) = k)"

lemma auth_ok_insert:
  assumes "auth_ok s" "pp_key_id p = kid" "as_cache s' = cache_insert now kid p (as_cache s)"
  shows "auth_ok s'"
  unfolding auth_ok_def assms(3)
proof (intro conjI allI impI)
  have c: "cache_ok (as_cache s)" using assms(1) by (simp add: auth_ok_def)
  then show "cache_ok (cache_insert now kid p (as_cache s))" by (rule cache_insert_ok)
  fix k e
  assume e: "vc_map (cache_insert now kid p (as_cache s)) k = Some e"
  show "pp_key_id (ce_principal e) = k"
  proof (cases "k = kid")
    case True
    with e assms(2) cache_insert_get [OF c, of now kid p] show ?thesis by auto
  next
    case False
    from cache_insert_other [OF c False e] assms(1) show ?thesis by (simp add: auth_ok_def)
  qed
qed

lemma authenticate_ok:
  assumes "auth_ok s"
  shows "auth_ok (snd (authenticate ar now raw s))"
proof (cases "fst (authenticate ar now raw s)")
  case (Inl e)
  with assms authenticate_Inl_cache [OF Inl] show ?thesis by (simp add: auth_ok_def)
next
  case (Inr p)
  then have a: "authenticate ar now raw s = (Inr p, snd (authenticate ar now raw s))"
    by (metis prod.collapse)
  then obtain kid where kid: "parse_key_id raw = Some kid"
    by (auto simp: authenticate_def split: option.splits)
  show ?thesis
  proof (cases "cache_get now (as_cache s) kid")
    case (Some q)
    with assms show ?thesis by (simp add: authenticate_hit [OF kid])
  next
    case None
    from a kid None obtain row where "ak_key_id row = kid" "p = principal_from_row row"
      "as_cache (snd (authenticate ar now raw s)) = cache_insert now kid p (as_cache s)"
      by (rule authenticate_miss)
    moreover from this have "pp_key_id p = kid" by (simp add: principal_from_row_def)
    ultimately show ?thesis using auth_ok_insert [OF assms] by blast
  qed
qed

lemma auth_ok_cong: "auth_ok s \<Longrightarrow> as_cache s' = as_cache s \<Longrightarrow> auth_ok s'"
  by (simp add: auth_ok_def)

lemma auth_reach_ok: "auth_reach ar s0 s \<Longrightarrow> auth_ok s0 \<Longrightarrow> auth_ok s"
proof (induction rule: auth_reach.induct)
  case (step s x)
  then have ok: "auth_ok s" by blast
  show ?case
  proof (cases x)
    case (OpAuthenticate now raw)
    with ok authenticate_ok show ?thesis by simp
  next
    case OpTouch
    have "as_cache (run_touch s) = as_cache s" by (simp add: run_touch_def split: list.split)
    with ok OpTouch auth_ok_cong show ?thesis by simp blast
  next
    case (OpInvalidate k)
    have "cache_ok (cache_invalidate k (as_cache s))"
      using ok by (intro cache_invalidate_ok) (simp add: auth_ok_def)
    with ok OpInvalidate show ?thesis
      by (simp add: auth_ok_def auth_invalidate_def cache_invalidate_def)
  next
    case (OpTable db)
    with ok auth_ok_cong [of s "s \<lparr> as_db := db \<rparr>"] show ?thesis by simp
  qed
qed

section \<open>Generated keys\<close>

lemma hex_encode_length: "length (hex_encode bs) = 2 * length bs"
  by (induction bs) (simp_all add: hex_encode_def)

lemma hex_encode_hex: "\<forall>b\<in>set bs. b < 256 \<Longrightarrow> list_all is_hex_lower (hex_encode bs)"
proof (induction bs)
  case (Cons b bs)
  have d: "is_hex_lower (char_of (if n < 10 then 48 + n else 87 + n))" if "n < 16" for n :: nat
    using that by (simp add: is_hex_lower_def is_ascii_digit_def in_range_def)
  have "b div 16 < 16" "b mod 16 < 16" using Cons.prems by auto
  with d Cons show ?case by (simp add: hex_encode_def)
qed (simp add: hex_encode_def)

lemma generate_key_wellformed:
  assumes "length (b64 bytes) = secret_len" "list_all is_base64url (b64 bytes)"
    and "4 \<le> length (sha256 (b64 bytes))" "\<forall>b\<in>set (sha256 (b64 bytes)). b < 256"
  shows "parse_key_id (fst (generate_key b64 sha256 bytes)) = Some (snd (generate_key b64 sha256 bytes))"
proof -
  let ?k = "hex_encode (take 4 (sha256 (b64 bytes)))"
  have k: "length ?k = 8" using assms(3) by (simp add: hex_encode_length)
  have hex: "list_all is_hex_lower ?k"
    using assms(4) by (intro hex_encode_hex) (auto dest: in_set_takeD)
  have nth: "(''snt_'' @ ?k @ ''_'' @ b64 bytes) ! (4 + 8) = CHR ''_''"
    using k by (simp add: nth_append)
  have "drop (4 + 8 + 1) (''snt_'' @ ?k @ ''_'' @ b64 bytes) = b64 bytes"
    "take 8 (drop 4 (''snt_'' @ ?k @ ''_'' @ b64 bytes)) = ?k"
    using k by simp_all
  with nth k hex assms(1,2) show ?thesis
    by (simp add: parse_key_id_def is_wellformed_def generate_key_def key_prefix_def key_id_len_def
        secret_len_def starts_with_def Let_def)
qed

section \<open>Where principals come from\<close>

lemma auth_ok_history:
  "auth_ok s0 \<Longrightarrow> auth_ok (fold (auth_op_step ar) ops s0)"
proof -
  assume "auth_ok s0"
  moreover have "auth_reach ar s0 (fold (auth_op_step ar) ops s0)"
    by (induction ops rule: rev_induct) (auto intro: auth_reach.intros)
  ultimately show ?thesis using auth_reach_ok by blast
qed

text \<open>The verification behind a cache entry: who was verified, when, and in which state.\<close>

definition verified_in ::
  "'h argon2 \<Rightarrow> 'l auth_service \<Rightarrow> instant \<Rightarrow> string \<Rightarrow> string \<Rightarrow> principal \<Rightarrow> bool" where
  "verified_in ar s t raw kid p \<longleftrightarrow>
     parse_key_id raw = Some kid
     \<and> (\<exists>row\<in>set (kd_rows (as_db s)). ak_key_id row = kid \<and> ak_revoked_at row = None
          \<and> verify_hash ar (ak_hash row) raw = Inr () \<and> p = principal_from_row row)"


lemma cache_origin:
  assumes "as_cache s0 = cache_new"
    and "vc_map (as_cache (fold (auth_op_step ar) ops s0)) kid = Some e"
  shows "\<exists>before raw after. ops = before @ OpAuthenticate (ce_inserted_at e) raw # after
    \<and> verified_in ar (fold (auth_op_step ar) before s0) (ce_inserted_at e) raw kid (ce_principal e)"
  using assms(2)
proof (induction ops rule: rev_induct)
  case Nil
  with assms(1) show ?case by (simp add: cache_new_def)
next
  case (snoc x ops)
  let ?s = "fold (auth_op_step ar) ops s0"
  have later: ?case if "vc_map (as_cache ?s) kid = Some e"
    using snoc.IH [OF that] by (metis append_Cons append_assoc)
  have "auth_ok s0" using assms(1) cache_new_ok by (simp add: auth_ok_def) (simp add: cache_new_def)
  then have ok: "cache_ok (as_cache ?s)" using auth_ok_history [of s0 ar ops] by (simp add: auth_ok_def)
  show ?case
  proof (cases x)
    case (OpAuthenticate t raw)
    with snoc.prems have e: "vc_map (as_cache (snd (authenticate ar t raw ?s))) kid = Some e" by simp
    show ?thesis
    proof (cases "fst (authenticate ar t raw ?s)")
      case (Inl err)
      from e later show ?thesis unfolding authenticate_Inl_cache [OF Inl] by blast
    next
      case (Inr p)
      then have a: "authenticate ar t raw ?s = (Inr p, snd (authenticate ar t raw ?s))" by (metis prod.collapse)
      then obtain k where k: "parse_key_id raw = Some k" by (auto simp: authenticate_def split: option.splits)
      show ?thesis
      proof (cases "cache_get t (as_cache ?s) k")
        case (Some q)
        from e later show ?thesis by (simp add: authenticate_hit [OF k Some])
      next
        case None
        from a k None obtain row where row: "row \<in> set (kd_rows (as_db ?s))" "ak_key_id row = k"
          "ak_revoked_at row = None" "verify_hash ar (ak_hash row) raw = Inr ()" "p = principal_from_row row"
          and c: "as_cache (snd (authenticate ar t raw ?s)) = cache_insert t k p (as_cache ?s)"
          by (rule authenticate_miss)
        show ?thesis
        proof (cases "kid = k")
          case True
          with e c cache_insert_get [OF ok, of t k p] have "e = \<lparr> ce_principal = p, ce_inserted_at = t \<rparr>" by simp
          with True OpAuthenticate row k show ?thesis
            by (intro exI [where x = ops] exI [where x = raw] exI [where x = "[]"])
              (auto simp: verified_in_def)
        next
          case False
          with e c show ?thesis by (intro later cache_insert_other [OF ok False]) simp
        qed
      qed
    qed
  next
    case OpTouch
    have "as_cache (run_touch ?s) = as_cache ?s" by (simp add: run_touch_def split: list.split)
    with OpTouch snoc.prems later show ?thesis by simp
  next
    case (OpInvalidate k)
    with snoc.prems later show ?thesis
      by (simp add: auth_invalidate_def cache_invalidate_def split: if_splits)
  next
    case (OpTable db)
    with snoc.prems later show ?thesis by simp
  qed
qed


text \<open>
  C10: For a minute after a key was verified, every key with its id is accepted. Once a request has been
  verified, any well-formed key with the same public id, whatever its secret, is answered with the same
  principal for 60 seconds, without a look at the stored hash, and also when the key has been revoked
  in the table meanwhile.
\<close>

theorem cached_id_admits_any_secret:
  assumes "auth_ok s" "parse_key_id raw = Some kid" "cache_get now (as_cache s) kid = None"
    and "authenticate ar now raw s = (Inr p, s')"
    and "parse_key_id forged = Some kid" "now' - now \<le> cache_ttl"
  shows "authenticate ar' now' forged (s' \<lparr> as_db := db \<rparr>) = (Inr p, s' \<lparr> as_db := db \<rparr>)"
proof (rule authenticate_hit [OF assms(5)])
  have "cache_ok (as_cache s)" using assms(1) by (simp add: auth_ok_def)
  from cache_insert_get [OF this, of now kid p] have
    "vc_map (as_cache s') kid = Some \<lparr> ce_principal = p, ce_inserted_at = now \<rparr>"
    using authenticate_miss [OF assms(4,2,3)] by (metis (no_types))
  with assms(6) show "cache_get now' (as_cache (s' \<lparr> as_db := db \<rparr>)) kid = Some p"
    by (simp add: cache_get_def entry_fresh_def)
qed

definition sample_secret_key :: "char \<Rightarrow> string" where
  "sample_secret_key c = ''snt_0123abcd_'' @ replicate 43 c"

definition sample_key_row :: api_key_row where
  "sample_key_row =
     \<lparr> ak_id = 1, ak_name = ''web1'', ak_hash = sample_secret_key (CHR ''a''), ak_permissions = [''ingest:logs''],
       ak_key_id = ''0123abcd'', ak_agent_id = Some ''web1'', ak_hostname = Some ''web1'', ak_app_name = None,
       ak_created_at = 0, ak_last_used_at = None, ak_revoked_at = None \<rparr>"

definition plain_argon2 :: "string argon2" where
  "plain_argon2 = \<lparr> ar_parse = Inr, ar_verify = (\<lambda>h raw. h = raw) \<rparr>"

definition sample_auth_service :: "unit auth_service" where
  "sample_auth_service =
     \<lparr> as_db = \<lparr> pg_up = (\<lambda>_. True), pg_error = (\<lambda>_. []), pg_uuid = of_nat, pg_now = int, pg_clock = 0,
         kd_rows = [sample_key_row] \<rparr>,
       as_cache = cache_new, as_limiter = (), as_touches = [] \<rparr>"

lemma sample_secret_key_id: "parse_key_id (sample_secret_key (CHR ''a'')) = Some ''0123abcd''"
  "parse_key_id (sample_secret_key (CHR ''b'')) = Some ''0123abcd''"
  by code_simp+

lemma sample_verified:
  "\<exists>s'. authenticate plain_argon2 0 (sample_secret_key (CHR ''a'')) sample_auth_service
     = (Inr (principal_from_row sample_key_row), s')"
  by (simp add: authenticate_def sample_secret_key_id cache_get_def sample_auth_service_def cache_new_def
      find_active_by_key_id_def run_query_def active_with_id_def sample_key_row_def verify_hash_def plain_argon2_def Let_def)


theorem cached_id_admits_any_secret_witness:
  "\<forall>db. \<exists>s' :: unit auth_service. sample_secret_key (CHR ''b'') \<noteq> ak_hash sample_key_row
     \<and> authenticate plain_argon2 cache_ttl (sample_secret_key (CHR ''b'')) (s' \<lparr> as_db := db \<rparr>)
       = (Inr (principal_from_row sample_key_row), s' \<lparr> as_db := db \<rparr>)"
proof
  fix db
  obtain s' where s': "authenticate plain_argon2 0 (sample_secret_key (CHR ''a'')) sample_auth_service
     = (Inr (principal_from_row sample_key_row), s')"
    using sample_verified by blast
  have ok: "auth_ok sample_auth_service"
    using cache_new_ok by (simp add: auth_ok_def sample_auth_service_def) (simp add: cache_new_def)
  have n: "cache_get 0 (as_cache sample_auth_service) ''0123abcd'' = None"
    by (simp add: cache_get_def sample_auth_service_def cache_new_def)
  have "sample_secret_key (CHR ''b'') \<noteq> ak_hash sample_key_row"
    by (simp add: sample_key_row_def sample_secret_key_def)
  moreover have "authenticate plain_argon2 cache_ttl (sample_secret_key (CHR ''b'')) (s' \<lparr> as_db := db \<rparr>)
       = (Inr (principal_from_row sample_key_row), s' \<lparr> as_db := db \<rparr>)"
    by (rule cached_id_admits_any_secret [OF ok sample_secret_key_id(1) n s' sample_secret_key_id(2)]) simp
  ultimately show "\<exists>s' :: unit auth_service. sample_secret_key (CHR ''b'') \<noteq> ak_hash sample_key_row
     \<and> authenticate plain_argon2 cache_ttl (sample_secret_key (CHR ''b'')) (s' \<lparr> as_db := db \<rparr>)
       = (Inr (principal_from_row sample_key_row), s' \<lparr> as_db := db \<rparr>)" by blast
qed

end
