(* ===== verification/KeysCli.thy ===== *)
theory KeysCli
  imports KeyAuth
begin

text \<open>
  \<open>sentinel hub-key\<close>, \<open>src/src/hub/keys_cli.rs\<close>: the role of a new key, its creation, listing and
  revocation. A run returns what it prints, as a value. Randomness, the hashes and the time format
  are arguments.
\<close>

section \<open>Roles\<close>

datatype hub_key_action =
    KeyCreate "string option" "string option" "string option" "string option"
  | KeyList
  | KeyRevoke string

record role =
  ro_name :: string
  ro_agent_id :: "string option"
  ro_hostname :: "string option"
  ro_app_name :: "string option"
  ro_permissions :: "string list"

definition count_chosen :: "bool list \<Rightarrow> nat" where
  "count_chosen bs = length (filter (\<lambda>b. b) bs)"

text \<open>\<open>Role::from_action\<close>; the arguments of \<open>KeyCreate\<close> are agent, hostname, app and dashboard.\<close>

definition role_from_action :: "hub_key_action \<Rightarrow> sentinel_error + role option" where
  "role_from_action action =
     (case action of
        KeyCreate agent hostname app dashboard \<Rightarrow>
          if count_chosen [agent \<noteq> None, app \<noteq> None, dashboard \<noteq> None] \<noteq> 1
          then Inl (ConfigError
            ''hub-key create requires exactly one of --agent, --app, or --dashboard'')
          else
            (case agent of
               Some a \<Rightarrow> Inr (Some
                 \<lparr> ro_name = a, ro_agent_id = Some a,
                   ro_hostname = Some (case hostname of Some h \<Rightarrow> h | None \<Rightarrow> a), ro_app_name = None,
                   ro_permissions = [permission_as_str IngestMetrics, permission_as_str IngestLogs] \<rparr>)
             | None \<Rightarrow>
                 (case app of
                    Some n \<Rightarrow> Inr (Some
                      \<lparr> ro_name = n, ro_agent_id = None, ro_hostname = None, ro_app_name = Some n,
                        ro_permissions = [permission_as_str IngestEvents] \<rparr>)
                  | None \<Rightarrow>
                      (case dashboard of
                         Some n \<Rightarrow> Inr (Some
                           \<lparr> ro_name = n, ro_agent_id = None, ro_hostname = None, ro_app_name = None,
                             ro_permissions = [permission_as_str ReadDashboard] \<rparr>)
                       | None \<Rightarrow> Inr None)))
      | _ \<Rightarrow> Inr None)"

section \<open>Printing\<close>

text \<open>\<open>chars().count()\<close> and \<open>chars().take(n)\<close> on UTF-8 bytes.\<close>

definition char_count :: "string \<Rightarrow> nat" where
  "char_count s = length (filter (\<lambda>c. \<not> is_cont c) s)"

primrec take_chars :: "nat \<Rightarrow> string \<Rightarrow> string" where
  "take_chars n [] = []"
| "take_chars n (c # cs) =
     (if is_cont c then c # take_chars n cs
      else if n = 0 then [] else c # take_chars (n - 1) cs)"

definition horizontal_ellipsis :: string where
  "horizontal_ellipsis = of_bytes [226, 128, 166]"

definition truncate_name :: "string \<Rightarrow> nat \<Rightarrow> string" where
  "truncate_name v m =
     (if char_count v \<le> m then v else take_chars (m - 1) v @ horizontal_ellipsis)"

text \<open>\<open>{:<n}\<close>: padding on the right, by characters.\<close>

definition pad_right :: "nat \<Rightarrow> string \<Rightarrow> string" where
  "pad_right n s = s @ replicate (n - char_count s) (CHR '' '')"

fun show_role :: "key_role \<Rightarrow> string" where
  "show_role RoleAgent = ''Agent''"
| "show_role RoleApp = ''App''"
| "show_role RoleDashboard = ''Dashboard''"

fun show_role_upper :: "key_role \<Rightarrow> string" where
  "show_role_upper RoleAgent = ''AGENT''"
| "show_role_upper RoleApp = ''APP''"
| "show_role_upper RoleDashboard = ''DASHBOARD''"

definition table_line :: "string \<Rightarrow> string \<Rightarrow> string \<Rightarrow> string \<Rightarrow> string \<Rightarrow> string" where
  "table_line a b c d e =
     pad_right 12 a @ '' '' @ pad_right 20 b @ '' '' @ pad_right 10 c @ '' '' @ pad_right 24 d @ '' ''
     @ pad_right 10 e"

definition summary_line :: "(datetime \<Rightarrow> string) \<Rightarrow> api_key_summary \<Rightarrow> string" where
  "summary_line rfc3339 k =
     table_line (ks_key_id k) (truncate_name (ks_name k) 20) (show_role_upper (summary_role k))
       (case ks_last_used_at k of None \<Rightarrow> ''never'' | Some t \<Rightarrow> rfc3339 t)
       (if ks_revoked_at k \<noteq> None then ''yes'' else ''no'')"

definition tick_mark :: string where "tick_mark = [CHR 0x27]"

section \<open>The command\<close>

record key_env =
  ke_b64 :: "nat list \<Rightarrow> string"
  ke_sha256 :: "string \<Rightarrow> nat list"
  ke_random :: "nat list"
  ke_argon :: "string \<Rightarrow> string + string"
  ke_rfc3339 :: "datetime \<Rightarrow> string"

text \<open>What is printed, by the line.\<close>

definition created_report :: "string \<Rightarrow> string \<Rightarrow> key_role \<Rightarrow> string \<Rightarrow> string list" where
  "created_report name key_id r raw =
     [''API key created for '' @ tick_mark @ name @ tick_mark, ''  key_id:   '' @ key_id,
      ''  role:     '' @ show_role r, ''  key:      '' @ raw, [],
      ''Store this key now '' @ of_bytes [226, 128, 148] @ '' it is shown exactly once and never again.'']"

definition hub_key_create ::
  "key_env \<Rightarrow> hub_key_action \<Rightarrow> keys_db \<Rightarrow> (sentinel_error + string list) \<times> keys_db" where
  "hub_key_create env action db =
     (case role_from_action action of
        Inl e \<Rightarrow> (Inl e, db)
      | Inr None \<Rightarrow> (Inl (Internal ''create handled without role''), db)
      | Inr (Some role) \<Rightarrow>
          (case generate_key (ke_b64 env) (ke_sha256 env) (ke_random env) of
             (raw, key_id) \<Rightarrow>
               (case hash_key (ke_argon env) raw of
                  Inl e \<Rightarrow> (Inl e, db)
                | Inr h \<Rightarrow>
                    (case key_create
                            \<lparr> ik_name = ro_name role, ik_hash = h, ik_permissions = ro_permissions role,
                              ik_key_id = key_id, ik_agent_id = ro_agent_id role,
                              ik_hostname = ro_hostname role, ik_app_name = ro_app_name role \<rparr> db of
                       (Inl e, db') \<Rightarrow> (Inl e, db')
                     | (Inr row, db') \<Rightarrow>
                         (Inr (created_report (ak_name row) key_id (key_role row) raw), db')))))"

definition hub_key_list ::
  "key_env \<Rightarrow> keys_db \<Rightarrow> (sentinel_error + string list) \<times> keys_db" where
  "hub_key_list env db =
     (case key_list db of
        (Inl e, db') \<Rightarrow> (Inl e, db')
      | (Inr ks, db') \<Rightarrow>
          (if ks = [] then (Inr [''No API keys.''], db')
           else (Inr (table_line ''KEY_ID'' ''NAME'' ''ROLE'' ''LAST_USED'' ''REVOKED''
                      # map (summary_line (ke_rfc3339 env)) ks), db')))"

definition hub_key_revoke ::
  "string \<Rightarrow> keys_db \<Rightarrow> (sentinel_error + string list) \<times> keys_db" where
  "hub_key_revoke kid db =
     (case key_revoke kid db of
        (Inl e, db') \<Rightarrow> (Inl e, db')
      | (Inr b, db') \<Rightarrow>
          (if b then
             (Inr [''Key '' @ tick_mark @ kid @ tick_mark @ '' revoked.'',
                   ''Note: the running hub may keep serving this key for up to 60s'',
                   ''(verified-key cache TTL). Restart the hub to revoke immediately.''], db')
           else
             (Inr [''Key '' @ tick_mark @ kid @ tick_mark @ '' not found or already revoked.''], db')))"

definition hub_key_run ::
  "(string \<Rightarrow> string + keys_db) \<Rightarrow> key_env \<Rightarrow> hub_key_action \<Rightarrow> string \<Rightarrow>
   (sentinel_error + string list) \<times> keys_db option" where
  "hub_key_run connect env action database_url =
     (case create_pool connect database_url of
        Inl e \<Rightarrow> (Inl e, None)
      | Inr db \<Rightarrow>
          map_prod id Some
            (case action of
               KeyCreate _ _ _ _ \<Rightarrow> hub_key_create env action db
             | KeyList \<Rightarrow> hub_key_list env db
             | KeyRevoke kid \<Rightarrow> hub_key_revoke kid db))"

section \<open>Facts\<close>

lemma char_count_simps [simp]:
  "char_count [] = 0"
  "char_count (c # cs) = (if is_cont c then 0 else 1) + char_count cs"
  "char_count (s @ t) = char_count s + char_count t"
  by (simp_all add: char_count_def)

lemma take_chars_count: "char_count (take_chars n v) \<le> n"
proof (induction v arbitrary: n)
  case (Cons c v)
  from Cons [of n] Cons [of "n - 1"] show ?case by (cases n) auto
qed simp

lemma take_chars_prefix: "\<exists>r. v = take_chars n v @ r"
  by (induction v arbitrary: n) auto

lemma truncate_count: "0 < m \<Longrightarrow> char_count (truncate_name v m) \<le> m"
proof -
  assume "0 < m"
  have "char_count horizontal_ellipsis = 1"
    by (simp add: horizontal_ellipsis_def of_bytes_def is_cont_def in_range_def byte_def)
  with \<open>0 < m\<close> take_chars_count [of "m - 1" v] show ?thesis
    by (simp add: truncate_name_def) linarith
qed

text \<open>The role of a successful selection: exactly one flag, and the permissions that belong to it.\<close>

lemma role_cases:
  "role_from_action (KeyCreate agent hostname app dash) = Inr (Some r) \<longleftrightarrow>
     (\<exists>a. agent = Some a \<and> app = None \<and> dash = None
        \<and> r = \<lparr> ro_name = a, ro_agent_id = Some a,
               ro_hostname = Some (case hostname of Some h \<Rightarrow> h | None \<Rightarrow> a), ro_app_name = None,
               ro_permissions = [''ingest:metrics'', ''ingest:logs''] \<rparr>)
     \<or> (\<exists>n. agent = None \<and> app = Some n \<and> dash = None
        \<and> r = \<lparr> ro_name = n, ro_agent_id = None, ro_hostname = None, ro_app_name = Some n,
               ro_permissions = [''ingest:events''] \<rparr>)
     \<or> (\<exists>n. agent = None \<and> app = None \<and> dash = Some n
        \<and> r = \<lparr> ro_name = n, ro_agent_id = None, ro_hostname = None, ro_app_name = None,
               ro_permissions = [''read:dashboard''] \<rparr>)"
  by (cases agent; cases app; cases dash) (auto simp: role_from_action_def count_chosen_def)

lemma role_valid_role:
  "role_from_action action = Inr (Some r) \<Longrightarrow> ro_agent_id r = None \<or> ro_app_name r = None"
  by (cases action) (auto simp: role_cases, simp_all add: role_from_action_def)

text \<open>What a successful creation has stored.\<close>

lemma hub_key_create_row:
  assumes "hub_key_create env action db = (Inr out, db')"
  obtains r raw kid h row where "role_from_action action = Inr (Some r)"
    "generate_key (ke_b64 env) (ke_sha256 env) (ke_random env) = (raw, kid)"
    "ke_argon env raw = Inr h" "out = created_report (ak_name row) kid (key_role row) raw"
    "kd_rows db' = kd_rows db @ [row]" "\<forall>x\<in>set (kd_rows db). ak_key_id x \<noteq> kid"
    "ak_key_id row = kid" "ak_hash row = h" "ak_permissions row = ro_permissions r"
    "ak_agent_id row = ro_agent_id r" "ak_hostname row = ro_hostname r"
    "ak_app_name row = ro_app_name r" "ak_revoked_at row = None" "ak_name row = ro_name r"
proof -
  obtain raw kid where g: "generate_key (ke_b64 env) (ke_sha256 env) (ke_random env) = (raw, kid)"
    by force
  from assms obtain r where r: "role_from_action action = Inr (Some r)"
    by (auto simp: hub_key_create_def split: sum.splits option.splits)
  from assms r g obtain h where h: "ke_argon env raw = Inr h"
    by (auto simp: hub_key_create_def hash_key_def map_err_def split: sum.splits)
  let ?k = "\<lparr> ik_name = ro_name r, ik_hash = h, ik_permissions = ro_permissions r, ik_key_id = kid,
    ik_agent_id = ro_agent_id r, ik_hostname = ro_hostname r, ik_app_name = ro_app_name r \<rparr>"
  obtain x d where c: "key_create ?k db = (x, d)" by force
  with assms r g h obtain row where x: "x = Inr row" and d: "d = db'"
    and out: "out = created_report (ak_name row) kid (key_role row) raw"
    by (auto simp: hub_key_create_def hash_key_def split: sum.splits)
  let ?row = "key_row_of (pg_uuid db (pg_clock db)) (pg_now db (pg_clock db)) ?k"
  have up: "role_valid ?k" "pg_up db (pg_clock db)" "\<not> list_ex (key_clash ?row) (kd_rows db)"
    using c x by (auto simp: key_create_def run_query_def Let_def split: if_splits)
  then have "x = Inr ?row" "kd_rows d = kd_rows db @ [?row]"
    using c by (auto simp: key_create_def run_query_def Let_def)
  moreover have "\<forall>x\<in>set (kd_rows db). ak_key_id x \<noteq> kid"
    using up(3) by (auto simp: list_ex_iff key_clash_def key_row_of_def)
  ultimately show ?thesis using that [OF r g h out] x d by (simp add: key_row_of_def)
qed

text \<open>The lookup of a key id that only the last row has.\<close>

lemma find_last_row:
  assumes "\<forall>x\<in>set rs. ak_key_id x \<noteq> kid" "ak_key_id row = kid" "ak_revoked_at row = None"
  shows "find (active_with_id kid) (rs @ [row]) = Some row"
proof -
  have "find (active_with_id kid) rs = None"
    using assms(1) by (auto simp: find_None_iff active_with_id_def)
  then show ?thesis
    using assms(2,3) by (induction rs) (auto simp: active_with_id_def split: if_splits)
qed

text \<open>A row whose hash verifies lets its key in, when the cache has nothing to say.\<close>

lemma authenticate_fresh_key:
  assumes "parse_key_id raw = Some kid" "cache_get now (as_cache s) kid = None"
    and "pg_up (as_db s) (pg_clock (as_db s))" "find (active_with_id kid) (kd_rows (as_db s)) = Some row"
    and "ar_parse ar (ak_hash row) = Inr ph" "ar_verify ar ph raw"
  shows "fst (authenticate ar now raw s) = Inr (principal_from_row row)"
  using assms
  by (simp add: authenticate_def find_active_by_key_id_def run_query_def verify_hash_def Let_def)

section \<open>From the command line to the hub\<close>

definition role_permissions :: "role \<Rightarrow> permission set" where
  "role_permissions r =
     (if ro_agent_id r \<noteq> None then {IngestMetrics, IngestLogs}
      else if ro_app_name r \<noteq> None then {IngestEvents} else {ReadDashboard})"

lemma role_permissions_parse:
  "role_from_action action = Inr (Some r) \<Longrightarrow>
   set (List.map_filter permission_parse (ro_permissions r)) = role_permissions r"
  by (cases action)
    (auto simp: role_cases role_permissions_def permission_parse_def map_filter_simps,
     simp_all add: role_from_action_def)

text \<open>
  C19: A key printed by \<open>hub-key create\<close> authenticates at the hub, and the principal it yields has
  exactly the identity and the permissions of the chosen role: an agent key the agent id, its hostname
  and the two ingestion permissions, an app key its app name and \<open>ingest:events\<close>, a dashboard key
  \<open>read:dashboard\<close>. The hypotheses say that base64 and SHA-256 produce texts of their documented
  shape (43 characters for 32 bytes, 32 bytes), that argon2 verifies what it has hashed, that the hub sees the table the command left, that
  its query is answered and that its cache does not know the key id yet.
\<close>

theorem created_key_authenticates:
  assumes create: "hub_key_create env action db = (Inr out, db')"
    and random: "length (ke_random env) = 32"
    and b64: "\<And>bs. length bs = 32 \<Longrightarrow> length (ke_b64 env bs) = secret_len \<and> list_all is_base64url (ke_b64 env bs)"
    and sha: "\<And>t. length (ke_sha256 env t) = 32 \<and> (\<forall>b\<in>set (ke_sha256 env t). b < 256)"
    and argon: "\<And>raw h. ke_argon env raw = Inr h \<Longrightarrow>
      \<exists>ph. ar_parse ar h = Inr ph \<and> ar_verify ar ph raw"
    and hub: "kd_rows (as_db s) = kd_rows db'" "pg_up (as_db s) (pg_clock (as_db s))"
      "\<And>kid. vc_map (as_cache s) kid = None"
  shows "\<exists>r raw p. role_from_action action = Inr (Some r) \<and> ''  key:      '' @ raw \<in> set out
    \<and> fst (authenticate ar now raw s) = Inr p
    \<and> pp_agent_id p = ro_agent_id r \<and> pp_hostname p = ro_hostname r \<and> pp_app_name p = ro_app_name r
    \<and> pp_permissions p = role_permissions r"
proof -
  from create obtain r raw kid h row where r: "role_from_action action = Inr (Some r)"
    and g: "generate_key (ke_b64 env) (ke_sha256 env) (ke_random env) = (raw, kid)"
    and h: "ke_argon env raw = Inr h" and out: "out = created_report (ak_name row) kid (key_role row) raw"
    and rows: "kd_rows db' = kd_rows db @ [row]" "\<forall>x\<in>set (kd_rows db). ak_key_id x \<noteq> kid"
    and row: "ak_key_id row = kid" "ak_hash row = h" "ak_permissions row = ro_permissions r"
      "ak_agent_id row = ro_agent_id r" "ak_hostname row = ro_hostname r"
      "ak_app_name row = ro_app_name r" "ak_revoked_at row = None"
    by (rule hub_key_create_row)
  have kid: "parse_key_id raw = Some kid"
    using generate_key_wellformed [of "ke_b64 env" "ke_random env" "ke_sha256 env"] b64 [OF random] sha
    unfolding g by simp
  have find: "find (active_with_id kid) (kd_rows (as_db s)) = Some row"
    unfolding hub(1) rows(1) by (rule find_last_row [OF rows(2) row(1,7)])
  obtain ph where "ar_parse ar (ak_hash row) = Inr ph" "ar_verify ar ph raw"
    using argon [OF h] row(2) by blast
  then have "fst (authenticate ar now raw s) = Inr (principal_from_row row)"
    using kid find hub(2,3) by (intro authenticate_fresh_key) (simp_all add: cache_get_def)
  moreover have "''  key:      '' @ raw \<in> set out" by (simp add: out created_report_def)
  ultimately show ?thesis
    using r row role_permissions_parse [OF r] by (auto simp: principal_from_row_def)
qed

definition sample_key_env :: key_env where
  "sample_key_env =
     \<lparr> ke_b64 = (\<lambda>_. replicate 43 (CHR ''a'')), ke_sha256 = (\<lambda>_. replicate 32 7), ke_random = replicate 32 0,
       ke_argon = (\<lambda>raw. Inr raw), ke_rfc3339 = (\<lambda>_. []) \<rparr>"

definition sample_keys_db :: keys_db where
  "sample_keys_db =
     \<lparr> pg_up = (\<lambda>_. True), pg_error = (\<lambda>_. ''down''), pg_uuid = of_nat, pg_now = int, pg_clock = 0,
       kd_rows = [] \<rparr>"

definition sample_argon2 :: "string argon2" where
  "sample_argon2 = \<lparr> ar_parse = Inr, ar_verify = (\<lambda>h raw. h = raw) \<rparr>"

definition sample_auth :: "keys_db \<Rightarrow> unit auth_service" where
  "sample_auth db = \<lparr> as_db = db, as_cache = cache_new, as_limiter = (), as_touches = [] \<rparr>"

lemma sample_created:
  "\<exists>out db'. hub_key_create sample_key_env (KeyCreate (Some ''web1'') None None None) sample_keys_db
     = (Inr out, db') \<and> pg_up db' (pg_clock db')"
  by (simp add: hub_key_create_def role_cases role_from_action_def count_chosen_def hash_key_def
      key_create_def run_query_def sample_key_env_def sample_keys_db_def generate_key_def Let_def
      role_valid_def tick_def case_prod_beta)

theorem created_key_authenticates_witness:
  "\<exists>db' raw p. fst (authenticate sample_argon2 0 raw (sample_auth db')) = Inr p
     \<and> pp_agent_id p = Some ''web1'' \<and> pp_hostname p = Some ''web1'' \<and> pp_app_name p = None
     \<and> pp_permissions p = {IngestMetrics, IngestLogs}"
proof -
  obtain out db' where c: "hub_key_create sample_key_env (KeyCreate (Some ''web1'') None None None)
      sample_keys_db = (Inr out, db')" and up: "pg_up db' (pg_clock db')"
    using sample_created by blast
  have "\<exists>r raw p. role_from_action (KeyCreate (Some ''web1'') None None None) = Inr (Some r)
      \<and> ''  key:      '' @ raw \<in> set out \<and> fst (authenticate sample_argon2 0 raw (sample_auth db')) = Inr p
      \<and> pp_agent_id p = ro_agent_id r \<and> pp_hostname p = ro_hostname r \<and> pp_app_name p = ro_app_name r
      \<and> pp_permissions p = role_permissions r"
    by (rule created_key_authenticates [OF c])
      (use up in \<open>auto simp: sample_key_env_def sample_argon2_def sample_auth_def cache_new_def
        secret_len_def is_base64url_def is_ascii_lowercase_def in_range_def list_all_iff byte_def\<close>)
  then show ?thesis by (auto simp: role_cases role_permissions_def)
qed

end
