(* ===== verification/Validate.thy ===== *)
theory Validate
  imports LogEntry
begin

text \<open>
  Shared input validation of the hub, \<open>src/src/hub/validate.rs\<close>, and the closed set of query ranges,
  \<open>src/src/hub/range.rs\<close>. A rejection carries the reason the code returns.
\<close>

section \<open>Limits\<close>

definition max_payload_bytes :: nat where "max_payload_bytes = 4 * 1024"
definition max_event_type_len :: nat where "max_event_type_len = 64"
definition max_user_id_len :: nat where "max_user_id_len = 128"
definition max_container_len :: nat where "max_container_len = 64"
definition max_message_bytes :: nat where "max_message_bytes = 16 * 1024"
definition max_events_per_request :: nat where "max_events_per_request = 500"
definition max_lines_per_request :: nat where "max_lines_per_request = 1000"
definition max_path_len :: nat where "max_path_len = 2048"
definition max_threat_categories :: nat where "max_threat_categories = 16"
definition min_limit :: int where "min_limit = 1"
definition max_limit :: int where "max_limit = 200"
definition default_limit :: int where "default_limit = 50"
definition max_offset :: int where "max_offset = 100000"
definition max_future_skew_secs :: int where "max_future_skew_secs = 5 * 60"
definition max_past_age_days :: int where "max_past_age_days = 30"

definition levels :: "string list" where
  "levels = [''debug'', ''info'', ''warn'', ''error'', ''critical'', ''security'']"

definition threat_levels :: "string list" where
  "threat_levels = [''none'', ''low'', ''medium'', ''high'', ''critical'']"

section \<open>Tokens\<close>

definition quoted :: "string \<Rightarrow> string" where
  "quoted v = [CHR 0x27] @ v @ [CHR 0x27]"

definition sized_token :: "(char \<Rightarrow> bool) \<Rightarrow> nat \<Rightarrow> string \<Rightarrow> bool" where
  "sized_token P n v \<longleftrightarrow> 1 \<le> length v \<and> length v \<le> n \<and> list_all P v"

definition event_type_char :: "char \<Rightarrow> bool" where
  "event_type_char c \<longleftrightarrow> is_ascii_lowercase c \<or> is_ascii_digit c \<or> c \<in> set ''_.:-''"

definition app_name_char :: "char \<Rightarrow> bool" where
  "app_name_char c \<longleftrightarrow> is_ascii_lowercase c \<or> is_ascii_digit c \<or> c \<in> set ''._-''"

definition container_char :: "char \<Rightarrow> bool" where
  "container_char c \<longleftrightarrow>
     is_ascii_uppercase c \<or> is_ascii_lowercase c \<or> is_ascii_digit c \<or> c \<in> set ''._-''"

definition unit_char :: "char \<Rightarrow> bool" where
  "unit_char c \<longleftrightarrow> is_ascii_lowercase c \<or> is_ascii_digit c \<or> c = CHR ''-''"

definition event_type :: "string \<Rightarrow> string list option \<Rightarrow> string + unit" where
  "event_type v allow =
     (if \<not> sized_token event_type_char max_event_type_len v
      then Inl (''event_type '' @ quoted v @ '' must match [a-z0-9_.:-] and be 1..=64 chars'')
      else if (case allow of Some l \<Rightarrow> l \<noteq> [] \<and> v \<notin> set l | None \<Rightarrow> False)
      then Inl (''event_type '' @ quoted v @ '' is not in the configured allowlist'')
      else Inr ())"

definition app_name :: "string \<Rightarrow> string + unit" where
  "app_name v =
     check (sized_token app_name_char 64 v)
       (''app_name '' @ quoted v @ '' must match [a-z0-9._-] and be 1..=64 chars'')"

definition user_id :: "string \<Rightarrow> string + unit" where
  "user_id v =
     (if max_user_id_len < length v then Inl ''user_id exceeds 128 chars''
      else if has_control v then Inl ''user_id contains control characters''
      else Inr ())"

definition container :: "string \<Rightarrow> string + unit" where
  "container v =
     check (sized_token container_char max_container_len v)
       (''container '' @ quoted v @ '' must match [A-Za-z0-9._-] and be 1..=64 chars'')"

definition stream :: "string \<Rightarrow> string + unit" where
  "stream v =
     check (v = ''stdout'' \<or> v = ''stderr'')
       (''stream must be '' @ quoted ''stdout'' @ '' or '' @ quoted ''stderr'' @ '', got '' @ quoted v)"

definition service_name :: "string \<Rightarrow> string + unit" where
  "service_name v =
     check (sized_token container_char max_container_len v)
       (''service_name '' @ quoted v @ '' must match [A-Za-z0-9._-] and be 1..=64 chars'')"

definition unit_type :: "string \<Rightarrow> string + unit" where
  "unit_type v =
     check (sized_token unit_char max_event_type_len v)
       (''unit_type '' @ quoted v @ '' must be lowercase [a-z0-9-], 1..=64 chars'')"

text \<open>\<open>{:?}\<close> of a slice of plain tokens.\<close>

definition show_tokens :: "string list \<Rightarrow> string" where
  "show_tokens ts = ''['' @ join '', '' (map (\<lambda>t. [CHR 0x22] @ t @ [CHR 0x22]) ts) @ '']''"

definition level :: "string \<Rightarrow> string + unit" where
  "level v = check (v \<in> set levels) (''level '' @ quoted v @ '' not in '' @ show_tokens levels)"

definition threat_level :: "string \<Rightarrow> string + unit" where
  "threat_level v =
     check (v \<in> set threat_levels)
       (''threat_level '' @ quoted v @ '' not in '' @ show_tokens threat_levels)"

fun each_category :: "string list \<Rightarrow> string + unit" where
  "each_category [] = Inr ()"
| "each_category (v # vs) =
     (if \<not> sized_token unit_char max_event_type_len v
      then Inl (''threat category '' @ quoted v @ '' must be lowercase [a-z0-9-]'')
      else each_category vs)"

definition threat_categories :: "string list \<Rightarrow> string + unit" where
  "threat_categories vs =
     (if max_threat_categories < length vs then Inl ''too many threat categories''
      else each_category vs)"

definition client_ip :: "string \<Rightarrow> string + unit" where
  "client_ip v =
     check (parse_ip v \<noteq> None) (''client_ip '' @ quoted v @ '' is not an IP address'')"

definition request_path :: "string \<Rightarrow> string + unit" where
  "request_path v =
     (if max_path_len < length v then Inl ''request_path exceeds 2048 chars''
      else if has_control v then Inl ''request_path contains control characters''
      else Inr ())"

definition short_text :: "string \<Rightarrow> string \<Rightarrow> string + unit" where
  "short_text v name =
     (if max_user_id_len < length v then Inl (name @ '' exceeds 128 chars'')
      else if has_control v then Inl (name @ '' contains control characters'')
      else Inr ())"

section \<open>Timestamps\<close>

text \<open>\<open>TimeDelta::num_seconds\<close> truncates towards zero.\<close>

definition num_seconds :: "int \<Rightarrow> int" where
  "num_seconds d = (if 0 \<le> d then d div ns_per_s else - (- d div ns_per_s))"

definition max_age_secs :: int where "max_age_secs = max_past_age_days * 24 * 3600"

definition timestamp :: "datetime \<Rightarrow> datetime \<Rightarrow> string + unit" where
  "timestamp ts now =
     (let skew = num_seconds (ts - now); age = - num_seconds (ts - now)
      in if max_future_skew_secs < skew
         then Inl (''timestamp is '' @ show_int skew @ ''s in the future (max 300s)'')
         else if max_age_secs < age
         then Inl (''timestamp is '' @ show_int age @ ''s old (max 2592000s = 30 days)'')
         else Inr ())"

section \<open>Messages\<close>

function walk_back :: "string \<Rightarrow> nat \<Rightarrow> nat" where
  "walk_back s n = (if 0 < n \<and> \<not> is_char_boundary s n then walk_back s (n - 1) else n)"
  by pat_completeness auto
termination by (relation "measure snd") auto

declare walk_back.simps [simp del]

definition ellipsis :: string where "ellipsis = of_bytes [226, 128, 166]"

definition sanitize_message :: "string \<Rightarrow> string" where
  "sanitize_message raw =
     (let trimmed = (case strip_suffix raw [LF] of Some t \<Rightarrow> t | None \<Rightarrow> raw)
      in if length trimmed \<le> max_message_bytes then trimmed
         else take (walk_back trimmed max_message_bytes) trimmed @ ellipsis)"

definition limit :: "int \<Rightarrow> string + int" where
  "limit v =
     (if min_limit \<le> v \<and> v \<le> max_limit then Inr v else Inl ''limit must be between 1 and 200'')"

definition offset :: "int \<Rightarrow> string + int" where
  "offset v =
     (if 0 \<le> v \<and> v \<le> max_offset then Inr v else Inl ''offset must be between 0 and 100000'')"

section \<open>Ranges\<close>

datatype metric_range = H1 | H6 | H24 | D7 | D30

definition default_range :: metric_range where "default_range = H24"

definition range_parse :: "string \<Rightarrow> metric_range option" where
  "range_parse v =
     (if v = ''1h'' then Some H1
      else if v = ''6h'' then Some H6
      else if v = ''24h'' then Some H24
      else if v = ''7d'' then Some D7
      else if v = ''30d'' then Some D30
      else None)"

fun range_interval :: "metric_range \<Rightarrow> string" where
  "range_interval H1 = ''1 hour''"
| "range_interval H6 = ''6 hours''"
| "range_interval H24 = ''24 hours''"
| "range_interval D7 = ''7 days''"
| "range_interval D30 = ''30 days''"

fun bucket_seconds :: "metric_range \<Rightarrow> int" where
  "bucket_seconds H1 = 60"
| "bucket_seconds H6 = 60"
| "bucket_seconds H24 = 300"
| "bucket_seconds D7 = 1800"
| "bucket_seconds D30 = 7200"

definition max_rows :: "metric_range \<Rightarrow> int" where "max_rows r = 2000"

text \<open>The interval a fragment denotes, in seconds.\<close>

fun range_seconds :: "metric_range \<Rightarrow> int" where
  "range_seconds H1 = 3600"
| "range_seconds H6 = 6 * 3600"
| "range_seconds H24 = 24 * 3600"
| "range_seconds D7 = 7 * 86400"
| "range_seconds D30 = 30 * 86400"

lemma range_fits: "range_seconds r div bucket_seconds r + 1 \<le> max_rows r"
  by (cases r) (simp_all add: max_rows_def)

section \<open>Acceptance\<close>

lemma is_ok_check [simp]: "is_ok (check b e) = b"
  by (simp add: check_def)

lemma is_ok_if: "is_ok (if b then Inl e else r) \<longleftrightarrow> \<not> b \<and> is_ok r"
  by simp

lemma event_type_ok:
  "is_ok (event_type v allow) \<longleftrightarrow>
     sized_token event_type_char 64 v
     \<and> (case allow of None \<Rightarrow> True | Some l \<Rightarrow> l = [] \<or> v \<in> set l)"
  by (auto simp: event_type_def max_event_type_len_def split: option.splits)

lemma token_ok:
  "is_ok (app_name v) \<longleftrightarrow> sized_token app_name_char 64 v"
  "is_ok (container v) \<longleftrightarrow> sized_token container_char 64 v"
  "is_ok (service_name v) \<longleftrightarrow> sized_token container_char 64 v"
  "is_ok (unit_type v) \<longleftrightarrow> sized_token unit_char 64 v"
  "is_ok (stream v) \<longleftrightarrow> v = ''stdout'' \<or> v = ''stderr''"
  "is_ok (level v) \<longleftrightarrow> v \<in> set levels"
  "is_ok (threat_level v) \<longleftrightarrow> v \<in> set threat_levels"
  "is_ok (client_ip v) \<longleftrightarrow> parse_ip v \<noteq> None"
  by (simp_all add: app_name_def container_def service_name_def unit_type_def stream_def level_def
      threat_level_def client_ip_def max_container_len_def max_event_type_len_def)

lemma text_ok:
  "is_ok (user_id v) \<longleftrightarrow> length v \<le> 128 \<and> \<not> has_control v"
  "is_ok (short_text v n) \<longleftrightarrow> length v \<le> 128 \<and> \<not> has_control v"
  "is_ok (request_path v) \<longleftrightarrow> length v \<le> 2048 \<and> \<not> has_control v"
  by (auto simp: user_id_def short_text_def request_path_def max_user_id_len_def max_path_len_def)

lemma each_category_ok:
  "is_ok (each_category vs) \<longleftrightarrow> list_all (sized_token unit_char 64) vs"
  by (induction vs) (simp_all add: max_event_type_len_def)

lemma threat_categories_ok:
  "is_ok (threat_categories vs) \<longleftrightarrow> length vs \<le> 16 \<and> list_all (sized_token unit_char 64) vs"
  by (auto simp: threat_categories_def each_category_ok max_threat_categories_def)

text \<open>
  The window of accepted instants. Because \<open>num_seconds\<close> truncates towards zero, both ends reach
  almost one second further than the nominal limits.
\<close>

lemma div_le_iff_less: "0 < m \<Longrightarrow> d div m \<le> n \<longleftrightarrow> d < (n + 1) * m" for d m n :: int
proof
  assume m: "0 < m" and le: "d div m \<le> n"
  have "d < (d div m + 1) * m"
    unfolding distrib_right mult_1 using pos_mod_bound [OF m, of d] div_mult_mod_eq [of d m] by linarith
  also have "\<dots> \<le> (n + 1) * m" using m le by (intro mult_right_mono) simp_all
  finally show "d < (n + 1) * m" .
next
  assume m: "0 < m" and less: "d < (n + 1) * m"
  have "d div m * m \<le> d" using pos_mod_sign [OF m, of d] div_mult_mod_eq [of d m] by linarith
  with less have "d div m * m < (n + 1) * m" by simp
  with m have "d div m < n + 1" by (simp add: mult_less_cancel_right)
  then show "d div m \<le> n" by simp
qed

lemma num_seconds_le:
  assumes n: "0 \<le> n"
  shows "num_seconds d \<le> n \<longleftrightarrow> d < (n + 1) * ns_per_s"
proof -
  have pos: "0 < ns_per_s" by (simp add: ns_per_s_def)
  show ?thesis
  proof (cases "0 \<le> d")
    case True
    then show ?thesis by (simp add: num_seconds_def div_le_iff_less [OF pos])
  next
    case False
    then have "0 \<le> - d div ns_per_s" using pos by (simp add: pos_imp_zdiv_nonneg_iff)
    moreover have "0 < (n + 1) * ns_per_s" using pos n by simp
    ultimately show ?thesis using False n by (simp add: num_seconds_def)
  qed
qed

lemma num_seconds_minus: "num_seconds (- d) = - num_seconds d"
  by (simp add: num_seconds_def)

lemma timestamp_ok:
  "is_ok (timestamp ts now) \<longleftrightarrow>
     now - 2592001 * ns_per_s < ts \<and> ts < now + 301 * ns_per_s"
proof -
  have "is_ok (timestamp ts now) \<longleftrightarrow>
      num_seconds (ts - now) \<le> 300 \<and> num_seconds (- (ts - now)) \<le> 2592000"
    unfolding num_seconds_minus
    by (auto simp: timestamp_def Let_def max_future_skew_secs_def max_age_secs_def
        max_past_age_days_def)
  also have "\<dots> \<longleftrightarrow> now - 2592001 * ns_per_s < ts \<and> ts < now + 301 * ns_per_s"
    by (simp add: num_seconds_le) linarith
  finally show ?thesis .
qed

section \<open>Sanitised messages\<close>

lemma walk_back_le: "walk_back s n \<le> n"
  by (induction s n rule: walk_back.induct) (subst walk_back.simps, auto)

lemma walk_back_boundary: "is_char_boundary s (walk_back s n)"
proof (induction s n rule: walk_back.induct)
  case (1 s n)
  then show ?case
    by (cases "0 < n \<and> \<not> is_char_boundary s n")
      (auto simp: walk_back.simps [of s n] is_char_boundary_def)
qed

text \<open>At most three bytes are given up: a character has at most four.\<close>

lemma cont_run:
  assumes "utf8_ok s" "n \<le> length s" "\<not> is_char_boundary s n"
  shows "\<exists>k. 0 < k \<and> k \<le> 3 \<and> k \<le> n \<and> is_char_boundary s (n - k)"
  using assms
proof (induction s arbitrary: n rule: utf8_ok.induct)
  case (1 s)
  from "1.prems" have n: "0 < n" "n < length s" by (auto simp: is_char_boundary_def)
  with "1.prems"(1) obtain w where w: "utf8_width s = Some w" and ok: "utf8_ok (drop w s)"
    by (auto simp: utf8_ok.simps [of s] split: option.splits)
  have w4: "0 < w" "w \<le> 4" using utf8_width_le [OF w] by auto
  show ?case
  proof (cases "n < w")
    case True
    then show ?thesis using n w4
      by (intro exI [where x = n]) (simp add: is_char_boundary_def)
  next
    case False
    have ne: "n \<noteq> w" 
    proof
      assume "n = w"
      with ok n obtain v where "utf8_width (drop w s) = Some v"
        by (auto simp: utf8_ok.simps [of "drop w s"] split: option.splits)
      then have "\<not> is_cont (hd (drop w s))"
        by (cases rule: utf8_width_cases) (auto simp: is_cont_def in_range_def)
      with \<open>n = w\<close> n "1.prems"(3) show False
        by (simp add: is_char_boundary_def hd_drop_conv_nth)
    qed
    have nb: "\<not> is_char_boundary (drop w s) (n - w)"
      using "1.prems"(3) False ne n by (auto simp: is_char_boundary_def)
    have "s \<noteq> []" using n by auto
    have "n - w \<le> length (drop w s)" using n by simp
    with \<open>s \<noteq> []\<close> obtain k where
      k: "0 < k" "k \<le> 3" "k \<le> n - w" "is_char_boundary (drop w s) (n - w - k)"
      using "1.IH" [OF w ok _ nb] by blast
    have "is_char_boundary s (n - k)"
    proof (cases "n - w - k = 0")
      case True
      then have "n - k = w" using k False by linarith
      moreover obtain v where "utf8_width (drop w s) = Some v"
        using ok n k False by (auto simp: utf8_ok.simps [of "drop w s"] split: option.splits)
      then have "\<not> is_cont (hd (drop w s))"
        by (cases rule: utf8_width_cases) (auto simp: is_cont_def in_range_def)
      moreover have "w < length s" using n k by linarith
      ultimately show ?thesis
        using n k by (simp add: is_char_boundary_def hd_drop_conv_nth)
    next
      case False
      then show ?thesis using k n \<open>\<not> n < w\<close> by (auto simp: is_char_boundary_def)
    qed
    with k show ?thesis by (intro exI [where x = k]) simp
  qed
qed

lemma walk_back_ge:
  assumes "utf8_ok s" "n \<le> length s"
  shows "n \<le> walk_back s n + 3"
proof (cases "is_char_boundary s n")
  case True
  then show ?thesis by (simp add: walk_back.simps [of s n])
next
  case False
  from cont_run [OF assms False] obtain k where
    k: "0 < k" "k \<le> 3" "k \<le> n" "is_char_boundary s (n - k)" by blast
  have stop: "is_char_boundary s m \<Longrightarrow> m \<le> j \<Longrightarrow> m \<le> walk_back s j" for m j
  proof (induction s j rule: walk_back.induct)
    case (1 s j)
    show ?case
    proof (cases "0 < j \<and> \<not> is_char_boundary s j")
      case True
      with "1.prems" have "m \<noteq> j" by auto
      with "1.prems" have "m \<le> j - 1" by simp
      with "1.IH" [OF True "1.prems"(1)] True show ?thesis by (simp add: walk_back.simps [of s j])
    next
      case False
      then have "walk_back s j = j" by (subst walk_back.simps) (simp only: if_False)
      with "1.prems" show ?thesis by simp
    qed
  qed
  from stop [OF k(4), of n] k show ?thesis by simp
qed

definition strip_newline :: "string \<Rightarrow> string" where
  "strip_newline raw = (case strip_suffix raw [LF] of Some t \<Rightarrow> t | None \<Rightarrow> raw)"

lemma utf8_ok_append_ellipsis: "utf8_ok s \<Longrightarrow> utf8_ok (s @ ellipsis)"
proof (induction s rule: utf8_ok.induct)
  case (1 s)
  show ?case
  proof (cases "s = []")
    case True
    have "utf8_ok ellipsis" by code_simp
    with True show ?thesis by simp
  next
    case False
    with "1.prems" obtain w where w: "utf8_width s = Some w" and ok: "utf8_ok (drop w s)"
      by (auto simp: utf8_ok.simps [of s] split: option.splits)
    have "utf8_width (s @ ellipsis) = Some w"
      using w by (cases rule: utf8_width_cases) simp_all
    moreover have "drop w (s @ ellipsis) = drop w s @ ellipsis"
      using utf8_width_le [OF w] by simp
    ultimately show ?thesis
      using "1.IH" [OF w ok] by (subst utf8_ok.simps) simp
  qed
qed

lemma strip_newline_ok: "utf8_ok raw \<Longrightarrow> utf8_ok (strip_newline raw)"
proof (cases "strip_suffix raw [LF]")
  case (Some t)
  assume ok: "utf8_ok raw"
  from Some have raw: "raw = t @ [LF]" by (simp add: strip_suffix_Some)
  have "\<not> is_cont LF" by (simp add: is_cont_def in_range_def LF_def byte_def)
  then have "is_char_boundary raw (length t)" by (simp add: raw is_char_boundary_def nth_append)
  from utf8_ok_take [OF ok this] show ?thesis using Some raw by (simp add: strip_newline_def)
qed (simp add: strip_newline_def)

text \<open>The stored text is valid, is a prefix of the message, and has a bounded size.\<close>

lemma sanitize_cases:
  assumes "utf8_ok raw"
  obtains "sanitize_message raw = strip_newline raw" "length (strip_newline raw) \<le> max_message_bytes"
  | n where "sanitize_message raw = take n (strip_newline raw) @ ellipsis"
      "max_message_bytes < length (strip_newline raw)" "n \<le> max_message_bytes"
      "max_message_bytes \<le> n + 3" "is_char_boundary (strip_newline raw) n"
proof (cases "length (strip_newline raw) \<le> max_message_bytes")
  case True
  then show ?thesis using that(1) by (simp add: sanitize_message_def strip_newline_def [symmetric])
next
  case False
  let ?n = "walk_back (strip_newline raw) max_message_bytes"
  have "max_message_bytes \<le> ?n + 3"
    using False strip_newline_ok [OF assms] by (intro walk_back_ge) simp_all
  with False show ?thesis
    by (intro that(2) [of ?n])
      (simp_all add: sanitize_message_def strip_newline_def [symmetric] Let_def walk_back_le
        walk_back_boundary)
qed

lemma sanitize_utf8:
  assumes "utf8_ok raw"
  shows "utf8_ok (sanitize_message raw)"
  using assms
  by (cases rule: sanitize_cases)
    (use strip_newline_ok [OF assms] in \<open>simp_all add: utf8_ok_append_ellipsis utf8_ok_take\<close>)

lemma length_ellipsis [simp]: "length ellipsis = 3"
  by (simp add: ellipsis_def of_bytes_def)

lemma sanitize_length: "utf8_ok raw \<Longrightarrow> length (sanitize_message raw) \<le> max_message_bytes + 3"
  by (erule sanitize_cases) simp_all

text \<open>
  C27: A stored message is well-formed text of bounded size. From well-formed UTF-8 the sanitiser makes
  well-formed UTF-8 of at most 16387 bytes; a message that fits into 16384 bytes, not counting a final
  line feed, is kept as it is, and a longer one keeps all but at most three of its first 16384 bytes and
  ends in an ellipsis.
\<close>

theorem sanitized_message_well_formed:
  assumes "utf8_ok raw"
  shows "utf8_ok (sanitize_message raw) \<and> length (sanitize_message raw) \<le> 16387
    \<and> (if length (strip_newline raw) \<le> 16384 then sanitize_message raw = strip_newline raw
       else \<exists>n. 16381 \<le> n \<and> n \<le> 16384 \<and> sanitize_message raw = take n (strip_newline raw) @ ellipsis)"
proof (intro conjI)
  show "utf8_ok (sanitize_message raw)" using assms by (rule sanitize_utf8)
  show "length (sanitize_message raw) \<le> 16387"
    using sanitize_length [OF assms] by (simp add: max_message_bytes_def)
  show "if length (strip_newline raw) \<le> 16384 then sanitize_message raw = strip_newline raw
       else \<exists>n. 16381 \<le> n \<and> n \<le> 16384 \<and> sanitize_message raw = take n (strip_newline raw) @ ellipsis"
    using assms by (cases rule: sanitize_cases) (auto simp: max_message_bytes_def)
qed

theorem sanitized_message_well_formed_witness:
  "sanitize_message (''caf'' @ of_bytes [0xC3, 0xA9] @ [LF]) = ''caf'' @ of_bytes [0xC3, 0xA9]"
proof -
  have "utf8_ok (''caf'' @ of_bytes [0xC3, 0xA9] @ [LF])" by code_simp
  moreover have "strip_newline (''caf'' @ of_bytes [0xC3, 0xA9] @ [LF]) = ''caf'' @ of_bytes [0xC3, 0xA9]" by code_simp
  ultimately show ?thesis
    using sanitized_message_well_formed [of "''caf'' @ of_bytes [0xC3, 0xA9] @ [LF]"] by (simp add: of_bytes_def)
qed

end
