(* ===== verification/LogRepo.thy ===== *)
theory LogRepo
  imports ServiceRepo
begin

text \<open>
  The \<open>log_entries\<close> table as \<open>src/src/db/repositories/log_entry_repo.rs\<close> writes it: one multi-row
  insert per batch, and the bounded delete of the retention loop. \<open>ld_row_ok\<close> stands for the
  constraints that the row values can violate, \<open>ld_binds_ok\<close> for the number of bind parameters the
  connection accepts in one statement.
\<close>

record log_entry =
  lr_id :: uuid
  lr_entry :: insert_log_entry
  lr_created_at :: datetime

record log_db = pg +
  ld_rows :: "log_entry list"
  ld_row_uuid :: "nat \<Rightarrow> nat \<Rightarrow> uuid"
  ld_row_ok :: "insert_log_entry \<Rightarrow> bool"
  ld_binds_ok :: "nat \<Rightarrow> bool"

text \<open>The columns of the insert, in the order of the bind calls.\<close>

definition insert_columns :: "string list" where
  "insert_columns =
     [''service_id'', ''timestamp'', ''level'', ''message'', ''raw_line'', ''client_ip'',
      ''request_path'', ''status_code'', ''response_time_ms'', ''is_noise'', ''noise_reason'',
      ''threat_level'', ''threat_categories'', ''source_host'']"

definition batch_binds :: "insert_log_entry list \<Rightarrow> nat" where
  "batch_binds es = length insert_columns * length es"

definition new_rows :: "log_db \<Rightarrow> insert_log_entry list \<Rightarrow> log_entry list" where
  "new_rows db es =
     map (\<lambda>(i, e). \<lparr> lr_id = ld_row_uuid db (pg_clock db) i, lr_entry = e,
                      lr_created_at = pg_now db (pg_clock db) \<rparr>)
       (zip [0..<length es] es)"

definition insert_batch :: "log_db \<Rightarrow> insert_log_entry list \<Rightarrow> (sentinel_error + nat) \<times> log_db" where
  "insert_batch db es =
     (if es = [] then (Inr 0, db)
      else run_query (\<lambda>db.
             if \<not> ld_binds_ok db (batch_binds es) \<or> \<not> list_all (ld_row_ok db) es
                \<or> \<not> distinct (map lr_id (ld_rows db @ new_rows db es))
             then (Inl (db_fail db), db)
             else (Inr (length es), db \<lparr> ld_rows := ld_rows db @ new_rows db es \<rparr>)) db)"

definition stored_entries :: "log_db \<Rightarrow> insert_log_entry list" where
  "stored_entries db = map lr_entry (ld_rows db)"

definition ns_per_day :: int where "ns_per_day = 86400 * ns_per_s"

text \<open>
  \<open>DELETE \<dots> WHERE id IN (SELECT id \<dots> LIMIT 10000)\<close>: \<open>pick\<close> is the order in which the database scans
  the table, of which the statement takes the first 10000 old rows.
\<close>

definition expired :: "datetime \<Rightarrow> 32 word \<Rightarrow> log_entry \<Rightarrow> bool" where
  "expired now keep_days r \<longleftrightarrow> le_timestamp (lr_entry r) < now - sint keep_days * ns_per_day"

definition prune_victims ::
  "(log_entry list \<Rightarrow> log_entry list) \<Rightarrow> 32 word \<Rightarrow> log_db \<Rightarrow> uuid list" where
  "prune_victims pick keep_days db =
     map lr_id (take 10000
       (filter (expired (pg_now db (pg_clock db)) keep_days) (pick (ld_rows db))))"

definition prune_log_entries ::
  "(log_entry list \<Rightarrow> log_entry list) \<Rightarrow> 32 word \<Rightarrow> log_db \<Rightarrow> (sentinel_error + nat) \<times> log_db" where
  "prune_log_entries pick keep_days = run_query (\<lambda>db.
     let victims = set (prune_victims pick keep_days db);
         gone = filter (\<lambda>r. lr_id r \<in> victims) (ld_rows db)
     in (Inr (length gone), db \<lparr> ld_rows := filter (\<lambda>r. lr_id r \<notin> victims) (ld_rows db) \<rparr>))"

section \<open>Facts\<close>

lemma tick_log [simp]:
  "ld_rows (tick db) = ld_rows db" "ld_row_ok (tick db) = ld_row_ok db"
  "ld_binds_ok (tick db) = ld_binds_ok db" "ld_row_uuid (tick db) = ld_row_uuid db"
  by (simp_all add: tick_def)

lemma length_columns [simp]: "length insert_columns = 14"
  by (simp add: insert_columns_def)

lemma map_entry_new_rows [simp]: "map lr_entry (new_rows db es) = es"
  by (simp add: new_rows_def case_prod_beta comp_def)

lemma length_new_rows [simp]: "length (new_rows db es) = length es"
  by (simp add: new_rows_def)

text \<open>A batch is stored whole or not at all.\<close>

lemma insert_batch_Inr:
  "insert_batch db es = (Inr n, db') \<Longrightarrow> stored_entries db' = stored_entries db @ es \<and> n = length es"
  by (auto simp: insert_batch_def stored_entries_def run_query_def split: if_splits prod.splits)

lemma insert_batch_Inl:
  "insert_batch db es = (Inl e, db') \<Longrightarrow> ld_rows db' = ld_rows db"
  by (auto simp: insert_batch_def run_query_def split: if_splits prod.splits)

lemma insert_batch_distinct:
  assumes "distinct (map lr_id (ld_rows db))"
  shows "distinct (map lr_id (ld_rows (snd (insert_batch db es))))"
  using assms by (simp add: insert_batch_def run_query_def)

lemma insert_batch_env:
  "ld_binds_ok (snd (insert_batch db es)) = ld_binds_ok db"
  "ld_row_ok (snd (insert_batch db es)) = ld_row_ok db"
  by (simp_all add: insert_batch_def run_query_def)

text \<open>The wire protocol counts bind parameters in 16 bits; a batch of 4682 rows does not fit.\<close>

lemma insert_batch_too_many:
  assumes "\<And>n. ld_binds_ok db n \<Longrightarrow> n \<le> 65535" "4681 < length es"
  shows "\<exists>e. insert_batch db es = (Inl e, tick db)"
proof -
  have "\<not> ld_binds_ok db (batch_binds es)"
    using assms(1) [of "batch_binds es"] assms(2) by (auto simp: batch_binds_def)
  moreover have "es \<noteq> []" using assms(2) by auto
  ultimately show ?thesis by (simp add: insert_batch_def run_query_def)
qed

lemma prune_bound:
  assumes "prune_log_entries pick days db = (Inr n, db')" "distinct (map lr_id (ld_rows db))"
  shows "n \<le> 10000" "length (ld_rows db') + n = length (ld_rows db)"
proof -
  let ?v = "prune_victims pick days db"
  have n: "n = length (filter (\<lambda>r. lr_id r \<in> set ?v) (ld_rows db))"
    and d: "ld_rows db' = filter (\<lambda>r. lr_id r \<notin> set ?v) (ld_rows db)"
    using assms(1) by (auto simp: prune_log_entries_def run_query_def Let_def split: if_splits)
  have "distinct (map lr_id (filter (\<lambda>r. lr_id r \<in> set ?v) (ld_rows db)))"
    using assms(2) by (rule distinct_map_filter)
  then have "n = card (set (map lr_id (filter (\<lambda>r. lr_id r \<in> set ?v) (ld_rows db))))"
    unfolding n by (metis distinct_card length_map)
  also have "\<dots> \<le> card (set ?v)" by (intro card_mono) auto
  also have "\<dots> \<le> length ?v" by (rule card_length)
  also have "\<dots> \<le> 10000" unfolding prune_victims_def length_map length_take by (rule min.cobounded2)
  finally show "n \<le> 10000" .
  show "length (ld_rows db') + n = length (ld_rows db)"
    unfolding n d using sum_length_filter_compl [of "\<lambda>r. lr_id r \<in> set ?v" "ld_rows db"]
    by (simp only: add.commute)
qed

definition sample_log_db :: log_db where
  "sample_log_db =
     \<lparr> pg_up = (\<lambda>_. True), pg_error = (\<lambda>_. []), pg_uuid = of_nat, pg_now = int, pg_clock = 0,
       ld_rows = [], ld_row_uuid = (\<lambda>t i. of_nat (1000 * t + i)), ld_row_ok = (\<lambda>_. True),
       ld_binds_ok = (\<lambda>n. n \<le> 65535) \<rparr>"


definition sample_insert :: insert_log_entry where
  "sample_insert =
     \<lparr> le_service_id = None, le_timestamp = - 100 * ns_per_day, le_level = ''info'', le_message = ''m'',
       le_raw_line = None, le_client_ip = None, le_request_path = None, le_status_code = None,
       le_response_time_ms = None, le_is_noise = False, le_noise_reason = None, le_threat_level = ''none'',
       le_threat_categories = [], le_source_host = None \<rparr>"


end
