(* ===== verification/HubRepos.thy ===== *)
theory HubRepos
  imports Complex_Main ServiceRepo LogRepo
begin

text \<open>
  The hub's other tables: agents (\<open>src/src/db/repositories/agent_repo.rs\<close>), system metrics
  (\<open>system_metric_repo.rs\<close>), app events (\<open>app_event_repo.rs\<close>), and the retention pass over them
  (\<open>src/src/hub/retention.rs\<close>). Intervals that the SQL binds as text are given in seconds.
\<close>

section \<open>Doubles\<close>

text \<open>The values of \<open>f64\<close>; the sign of zero plays no role in what the code does with them.\<close>

datatype double = Finite rat | PosInf | NegInf | NaN

section \<open>Agents\<close>

record agent_row =
  aw_agent_id :: string
  aw_hostname :: string
  aw_first_seen_at :: datetime
  aw_last_seen_at :: datetime

record agents_db = pg +
  gd_rows :: "agent_row list"

definition online_window_secs :: int where "online_window_secs = 90"

definition upsert_seen :: "string \<Rightarrow> string \<Rightarrow> agents_db \<Rightarrow> (sentinel_error + unit) \<times> agents_db" where
  "upsert_seen a h = run_query (\<lambda>db.
     let now = pg_now db (pg_clock db)
     in (Inr (),
         if \<exists>r\<in>set (gd_rows db). aw_agent_id r = a
         then db \<lparr> gd_rows := map (\<lambda>r. if aw_agent_id r = a
                then r \<lparr> aw_hostname := h, aw_last_seen_at := now \<rparr> else r) (gd_rows db) \<rparr>
         else db \<lparr> gd_rows := gd_rows db @ [\<lparr> aw_agent_id = a, aw_hostname = h,
                aw_first_seen_at = now, aw_last_seen_at = now \<rparr>] \<rparr>))"

text \<open>\<open>list_with_status\<close>: the rows by hostname with the computed flag.\<close>

definition list_with_status ::
  "(string \<Rightarrow> 'k::linorder) \<Rightarrow> int \<Rightarrow> agents_db \<Rightarrow> (sentinel_error + (agent_row \<times> bool) list) \<times> agents_db"
  where
  "list_with_status collate window = run_query (\<lambda>db.
     (Inr (map (\<lambda>r. (r, aw_last_seen_at r > pg_now db (pg_clock db) - window * ns_per_s))
        (sort_key (\<lambda>r. collate (aw_hostname r)) (gd_rows db))), db))"

section \<open>Metrics\<close>

record system_metric =
  sm_host :: "string option"
  sm_timestamp :: datetime
  sm_cpu_usage_percent :: double
  sm_memory_used_bytes :: "64 word"
  sm_memory_total_bytes :: "64 word"
  sm_disk_used_bytes :: "64 word"
  sm_disk_total_bytes :: "64 word"
  sm_load_avg_1m :: double
  sm_load_avg_5m :: double
  sm_network_rx_bytes :: "64 word"
  sm_network_tx_bytes :: "64 word"

record metrics_db = pg +
  md_rows :: "(uuid \<times> system_metric) list"

definition metric_insert :: "system_metric \<Rightarrow> metrics_db \<Rightarrow> (sentinel_error + unit) \<times> metrics_db" where
  "metric_insert m = run_query (\<lambda>db.
     let i = pg_uuid db (pg_clock db)
     in if i \<in> fst ` set (md_rows db) then (Inl (db_fail db), db)
        else (Inr (), db \<lparr> md_rows := md_rows db @ [(i, m)] \<rparr>))"

text \<open>\<open>ORDER BY timestamp DESC LIMIT 1\<close>; among equal instants any row may be returned.\<close>

definition metric_latest ::
  "((uuid \<times> system_metric) list \<Rightarrow> (uuid \<times> system_metric) list) \<Rightarrow> metrics_db \<Rightarrow>
   (sentinel_error + (uuid \<times> system_metric) option) \<times> metrics_db" where
  "metric_latest pick = run_query (\<lambda>db.
     (Inr (case rev (sort_key (\<lambda>r. sm_timestamp (snd r)) (pick (md_rows db))) of
             [] \<Rightarrow> None | r # _ \<Rightarrow> Some r), db))"

text \<open>The series: points in the window, grouped by bucket, at most \<open>max_rows\<close> buckets, oldest first.\<close>

definition bucket_of :: "int \<Rightarrow> datetime \<Rightarrow> datetime" where
  "bucket_of width ts = ts div (width * ns_per_s) * (width * ns_per_s)"

definition bucketed_series ::
  "int \<Rightarrow> int \<Rightarrow> nat \<Rightarrow> string option \<Rightarrow> metrics_db \<Rightarrow>
   (sentinel_error + (datetime \<times> system_metric list) list) \<times> metrics_db" where
  "bucketed_series window width max_rows host = run_query (\<lambda>db.
     let now = pg_now db (pg_clock db);
         ms = filter (\<lambda>m. sm_timestamp m > now - window * ns_per_s
                \<and> (host = None \<or> sm_host m = host)) (map snd (md_rows db));
         buckets = sorted_list_of_set (set (map (\<lambda>m. bucket_of width (sm_timestamp m)) ms))
     in (Inr (map (\<lambda>b. (b, filter (\<lambda>m. bucket_of width (sm_timestamp m) = b) ms))
                (take max_rows buckets)), db))"

definition metric_prune ::
  "((uuid \<times> system_metric) list \<Rightarrow> (uuid \<times> system_metric) list) \<Rightarrow> 32 word \<Rightarrow> metrics_db \<Rightarrow>
   (sentinel_error + nat) \<times> metrics_db" where
  "metric_prune pick keep_days = run_query (\<lambda>db.
     let now = pg_now db (pg_clock db);
         victims = set (map fst (take 10000
           (filter (\<lambda>r. sm_timestamp (snd r) < now - sint keep_days * ns_per_day) (pick (md_rows db)))))
     in (Inr (length (filter (\<lambda>r. fst r \<in> victims) (md_rows db))),
         db \<lparr> md_rows := filter (\<lambda>r. fst r \<notin> victims) (md_rows db) \<rparr>))"

section \<open>App events\<close>

text \<open>\<open>'j\<close> is the type of JSON values.\<close>

record 'j app_event =
  ae_app_name :: string
  ae_event_type :: string
  ae_user_id :: "string option"
  ae_payload :: 'j
  ae_timestamp :: datetime

record 'j events_db = pg +
  vd_rows :: "(uuid \<times> 'j app_event) list"
  vd_row_uuid :: "nat \<Rightarrow> nat \<Rightarrow> uuid"

text \<open>The table's \<open>CHECK\<close> constraints (\<open>src/migrations/20260909000000_hub_tables.sql\<close>); Postgres
  measures \<open>length(user_id)\<close> in characters, which \<open>chars\<close> counts.\<close>

definition event_checks :: "(string \<Rightarrow> nat) \<Rightarrow> 'j app_event \<Rightarrow> bool" where
  "event_checks chars e \<longleftrightarrow>
     1 \<le> length (ae_event_type e) \<and> length (ae_event_type e) \<le> 64
     \<and> list_all (\<lambda>c. is_ascii_lowercase c \<or> is_ascii_digit c \<or> c \<in> set ''_.:-'') (ae_event_type e)
     \<and> (case ae_user_id e of None \<Rightarrow> True | Some u \<Rightarrow> chars u \<le> 128)
     \<and> 1 \<le> length (ae_app_name e) \<and> length (ae_app_name e) \<le> 64
     \<and> list_all (\<lambda>c. is_ascii_lowercase c \<or> is_ascii_digit c \<or> c \<in> set ''._-'') (ae_app_name e)"

definition events_insert_batch ::
  "(string \<Rightarrow> nat) \<Rightarrow> 'j app_event list \<Rightarrow> 'j events_db \<Rightarrow> (sentinel_error + nat) \<times> 'j events_db" where
  "events_insert_batch chars es db =
     (if es = [] then (Inr 0, db)
      else run_query (\<lambda>db.
        let rows = zip (map (vd_row_uuid db (pg_clock db)) [0..<length es]) es
        in if \<not> list_all (event_checks chars) es \<or> \<not> distinct (map fst (vd_rows db @ rows))
           then (Inl (db_fail db), db)
           else (Inr (length es), db \<lparr> vd_rows := vd_rows db @ rows \<rparr>)) db)"

record event_filter =
  ef_app_name :: "string option"
  ef_event_type :: "string option"
  ef_interval :: int
  ef_limit :: int
  ef_offset :: int

definition in_interval :: "datetime \<Rightarrow> int \<Rightarrow> 'j app_event \<Rightarrow> bool" where
  "in_interval now secs e \<longleftrightarrow> ae_timestamp e > now - secs * ns_per_s"

definition filter_matches :: "datetime \<Rightarrow> event_filter \<Rightarrow> 'j app_event \<Rightarrow> bool" where
  "filter_matches now f e \<longleftrightarrow>
     in_interval now (ef_interval f) e
     \<and> (ef_app_name f = None \<or> ef_app_name f = Some (ae_app_name e))
     \<and> (ef_event_type f = None \<or> ef_event_type f = Some (ae_event_type e))"

text \<open>The page: by descending instant, then id.\<close>

definition event_key :: "uuid \<times> 'j app_event \<Rightarrow> int \<times> nat" where
  "event_key r = (- ae_timestamp (snd r), unat (fst r))"

definition key_le :: "int \<times> nat \<Rightarrow> int \<times> nat \<Rightarrow> bool" where
  "key_le a b \<longleftrightarrow> fst a < fst b \<or> (fst a = fst b \<and> snd a \<le> snd b)"

definition order_events :: "(uuid \<times> 'j app_event) list \<Rightarrow> (uuid \<times> 'j app_event) list" where
  "order_events rs = sort_key (\<lambda>r. fst (event_key r)) (sort_key (\<lambda>r. snd (event_key r)) rs)"

definition events_list ::
  "event_filter \<Rightarrow> 'j events_db \<Rightarrow> (sentinel_error + (uuid \<times> 'j app_event) list \<times> int) \<times> 'j events_db"
  where
  "events_list f db =
     (case run_query (\<lambda>db. (Inr (length (filter (\<lambda>r. filter_matches (pg_now db (pg_clock db)) f (snd r))
             (vd_rows db))), db)) db of
        (Inl e, db') \<Rightarrow> (Inl e, db')
      | (Inr tot, db') \<Rightarrow>
          (case run_query (\<lambda>db. (Inr (take (nat (ef_limit f)) (drop (nat (ef_offset f))
                  (order_events (filter (\<lambda>r. filter_matches (pg_now db (pg_clock db)) f (snd r))
                     (vd_rows db))))), db)) db' of
             (Inl e, db'') \<Rightarrow> (Inl e, db'')
           | (Inr rows, db'') \<Rightarrow> (Inr (rows, int tot), db'')))"

definition count_active_users :: "int \<Rightarrow> 'j events_db \<Rightarrow> (sentinel_error + nat) \<times> 'j events_db" where
  "count_active_users secs = run_query (\<lambda>db.
     (Inr (length (remdups (List.map_filter (\<lambda>r.
             if ae_event_type (snd r) = ''user_login'' \<and> in_interval (pg_now db (pg_clock db)) secs (snd r)
             then ae_user_id (snd r) else None) (vd_rows db)))), db))"

definition count_total :: "int \<Rightarrow> 'j events_db \<Rightarrow> (sentinel_error + nat) \<times> 'j events_db" where
  "count_total secs = run_query (\<lambda>db.
     (Inr (length (filter (\<lambda>r. in_interval (pg_now db (pg_clock db)) secs (snd r)) (vd_rows db))), db))"

text \<open>\<open>GROUP BY\<close> a name, most frequent first.\<close>

definition counts_by ::
  "('j app_event \<Rightarrow> string) \<Rightarrow> int \<Rightarrow> 'j events_db \<Rightarrow> (sentinel_error + (string \<times> nat) list) \<times> 'j events_db"
  where
  "counts_by f secs = run_query (\<lambda>db.
     let es = filter (in_interval (pg_now db (pg_clock db)) secs) (map snd (vd_rows db));
         groups = map (\<lambda>n. (n, length (filter (\<lambda>e. f e = n) es))) (remdups (map f es))
     in (Inr (rev (sort_key snd groups)), db))"

definition counts_by_app :: "int \<Rightarrow> 'j events_db \<Rightarrow> (sentinel_error + (string \<times> nat) list) \<times> 'j events_db"
  where "counts_by_app = counts_by ae_app_name"

definition counts_by_type :: "int \<Rightarrow> 'j events_db \<Rightarrow> (sentinel_error + (string \<times> nat) list) \<times> 'j events_db"
  where "counts_by_type = counts_by ae_event_type"

definition events_prune ::
  "((uuid \<times> 'j app_event) list \<Rightarrow> (uuid \<times> 'j app_event) list) \<Rightarrow> 32 word \<Rightarrow> 'j events_db \<Rightarrow>
   (sentinel_error + nat) \<times> 'j events_db" where
  "events_prune pick keep_days = run_query (\<lambda>db.
     let now = pg_now db (pg_clock db);
         victims = set (map fst (take 10000
           (filter (\<lambda>r. ae_timestamp (snd r) < now - sint keep_days * ns_per_day) (pick (vd_rows db)))))
     in (Inr (length (filter (\<lambda>r. fst r \<in> victims) (vd_rows db))),
         db \<lparr> vd_rows := filter (\<lambda>r. fst r \<notin> victims) (vd_rows db) \<rparr>))"

section \<open>Retention\<close>

record 'j hub_tables =
  ht_events :: "'j events_db"
  ht_logs :: log_db
  ht_metrics :: metrics_db

text \<open>One pass; the tables are scanned in the order given. An error ends the pass.\<close>

definition prune_all :: "32 word \<Rightarrow> 32 word \<Rightarrow> 'j hub_tables \<Rightarrow> (sentinel_error + unit) \<times> 'j hub_tables" where
  "prune_all retention_days metrics_days t =
     (case (if 0 < retention_days then
              (case events_prune id retention_days (ht_events t) of
                 (Inl e, ev) \<Rightarrow> (Inl e, t \<lparr> ht_events := ev \<rparr>)
               | (Inr _, ev) \<Rightarrow>
                   (case prune_log_entries id retention_days (ht_logs t) of
                      (r, lg) \<Rightarrow> (map_sum id (\<lambda>_. ()) r, t \<lparr> ht_events := ev, ht_logs := lg \<rparr>)))
            else (Inr (), t)) of
        (Inl e, t') \<Rightarrow> (Inl e, t')
      | (Inr _, t') \<Rightarrow>
          if 0 < metrics_days then
            (case metric_prune id metrics_days (ht_metrics t') of
               (r, m) \<Rightarrow> (map_sum id (\<lambda>_. ()) r, t' \<lparr> ht_metrics := m \<rparr>))
          else (Inr (), t'))"

text \<open>The loop: one pass at start-up, then one per day until it is cancelled.\<close>

fun retention_run :: "32 word \<Rightarrow> 32 word \<Rightarrow> nat \<Rightarrow> 'j hub_tables \<Rightarrow> 'j hub_tables" where
  "retention_run rd md 0 t = t"
| "retention_run rd md (Suc days) t = retention_run rd md days (snd (prune_all rd md t))"

section \<open>Facts\<close>

lemma upsert_identity:
  assumes "upsert_seen a h db = (Inr (), db')" "distinct (map aw_agent_id (gd_rows db))"
  shows "distinct (map aw_agent_id (gd_rows db'))"
    "\<exists>r\<in>set (gd_rows db'). aw_agent_id r = a \<and> aw_hostname r = h"
proof -
  let ?now = "pg_now db (pg_clock db)"
  have keep: "map (aw_agent_id \<circ> (\<lambda>r. if aw_agent_id r = a
      then r \<lparr> aw_hostname := h, aw_last_seen_at := ?now \<rparr> else r)) rs = map aw_agent_id rs" for rs
    by (induction rs) simp_all
  consider
    (old) r where "r \<in> set (gd_rows db)" "aw_agent_id r = a"
      "gd_rows db' = map (\<lambda>r. if aw_agent_id r = a
         then r \<lparr> aw_hostname := h, aw_last_seen_at := ?now \<rparr> else r) (gd_rows db)"
  | (new) "\<forall>r\<in>set (gd_rows db). aw_agent_id r \<noteq> a"
      "gd_rows db' = gd_rows db @ [\<lparr> aw_agent_id = a, aw_hostname = h,
         aw_first_seen_at = ?now, aw_last_seen_at = ?now \<rparr>]"
    using assms(1)
    by (cases "\<exists>r\<in>set (gd_rows db). aw_agent_id r = a")
      (auto simp: upsert_seen_def run_query_def Let_def tick_def split: if_splits)
  then have "distinct (map aw_agent_id (gd_rows db'))
      \<and> (\<exists>r\<in>set (gd_rows db'). aw_agent_id r = a \<and> aw_hostname r = h)"
  proof cases
    case old
    have "map aw_agent_id (gd_rows db') = map aw_agent_id (gd_rows db)"
      unfolding old(3) map_map by (rule keep)
    moreover have "r \<lparr> aw_hostname := h, aw_last_seen_at := ?now \<rparr> \<in> set (gd_rows db')"
      unfolding old(3) using old(1,2) by (force simp: image_iff)
    ultimately show ?thesis using assms(2) old(2) by (metis agent_row.select_convs(1,2)
      agent_row.simps(5,6,8) agent_row.surjective agent_row.update_convs(2,4))
  next
    case new
    then show ?thesis using assms(2) by auto
  qed
  then show "distinct (map aw_agent_id (gd_rows db'))"
    "\<exists>r\<in>set (gd_rows db'). aw_agent_id r = a \<and> aw_hostname r = h" by blast+
qed

lemma tick_events [simp]: "vd_rows (tick db) = vd_rows db" "vd_row_uuid (tick db) = vd_row_uuid db"
  by (simp_all add: tick_def)

text \<open>A batch of events is stored whole or not at all; one bad row rejects all of them.\<close>

lemma events_insert_Inr:
  "events_insert_batch chars es db = (Inr n, db') \<Longrightarrow>
   n = length es \<and> map snd (vd_rows db') = map snd (vd_rows db) @ es \<and> list_all (event_checks chars) es"
  by (auto simp: events_insert_batch_def run_query_def Let_def split: if_splits prod.splits)

lemma events_insert_Inl:
  "events_insert_batch chars es db = (Inl e, db') \<Longrightarrow> vd_rows db' = vd_rows db"
  by (auto simp: events_insert_batch_def run_query_def Let_def split: if_splits prod.splits)

lemma bucketed_series_length:
  "bucketed_series window width mx host db = (Inr s, db') \<Longrightarrow> length s \<le> mx"
  by (auto simp: bucketed_series_def run_query_def Let_def split: if_splits)

lemma prune_length:
  assumes "prune_log_entries pick days db = (r, db')" "distinct (map lr_id (ld_rows db))"
  shows "length (ld_rows db) \<le> length (ld_rows db') + 10000 \<and> distinct (map lr_id (ld_rows db'))"
proof (cases r)
  case (Inl e)
  then have "ld_rows db' = ld_rows db"
    using assms(1) by (auto simp: prune_log_entries_def run_query_def Let_def split: if_splits)
  with assms(2) show ?thesis by simp
next
  case (Inr n)
  with assms(1) have p: "prune_log_entries pick days db = (Inr n, db')" by simp
  have "ld_rows db' = filter (\<lambda>r. lr_id r \<notin> set (prune_victims pick days db)) (ld_rows db)"
    using p by (auto simp: prune_log_entries_def run_query_def Let_def split: if_splits)
  then have "distinct (map lr_id (ld_rows db'))" using assms(2) by (simp add: distinct_map_filter)
  with prune_bound [OF p assms(2)] show ?thesis by simp
qed

text \<open>A pass removes at most 10000 log entries, so a day with more leaves a growing backlog.\<close>

lemma prune_all_logs:
  assumes "distinct (map lr_id (ld_rows (ht_logs t)))"
  shows "length (ld_rows (ht_logs t)) \<le> length (ld_rows (ht_logs (snd (prune_all rd md t)))) + 10000
    \<and> distinct (map lr_id (ld_rows (ht_logs (snd (prune_all rd md t)))))"
proof -
  obtain r ev where e: "events_prune id rd (ht_events t) = (r, ev)" by force
  obtain q lg where l: "prune_log_entries id rd (ht_logs t) = (q, lg)" by force
  have logs: "ht_logs (snd (prune_all rd md t)) = ht_logs t \<or> ht_logs (snd (prune_all rd md t)) = lg"
    using e l by (cases r; cases q) (simp_all add: prune_all_def case_prod_beta)
  with prune_length [OF l assms] assms show ?thesis by auto
qed

lemma retention_backlog:
  "distinct (map lr_id (ld_rows (ht_logs t))) \<Longrightarrow>
   length (ld_rows (ht_logs t)) \<le> length (ld_rows (ht_logs (retention_run rd md days t))) + 10000 * days"
proof (induction days arbitrary: t)
  case (Suc days)
  note p = prune_all_logs [OF Suc.prems, of rd md]
  from Suc.IH [OF conjunct2 [OF p]] p show ?case by simp
qed simp

definition sample_tables :: "unit hub_tables" where
  "sample_tables =
     \<lparr> ht_events = \<lparr> pg_up = (\<lambda>_. True), pg_error = (\<lambda>_. []), pg_uuid = of_nat, pg_now = int, pg_clock = 0,
         vd_rows = [], vd_row_uuid = (\<lambda>t i. of_nat i) \<rparr>,
       ht_logs = snd (insert_batch sample_log_db (replicate 3 sample_insert)),
       ht_metrics = \<lparr> pg_up = (\<lambda>_. True), pg_error = (\<lambda>_. []), pg_uuid = of_nat, pg_now = int, pg_clock = 0,
         md_rows = [] \<rparr> \<rparr>"

lemma prune_log_entries_keeps:
  assumes "distinct (map lr_id (ld_rows db))" "r \<in> set (ld_rows db)" "\<not> expired (pg_now db (pg_clock db)) days r"
  shows "r \<in> set (ld_rows (snd (prune_log_entries id days db)))"
proof -
  have "lr_id r \<notin> set (prune_victims id days db)"
  proof
    assume "lr_id r \<in> set (prune_victims id days db)"
    then obtain x where "x \<in> set (ld_rows db)" "expired (pg_now db (pg_clock db)) days x" "lr_id x = lr_id r"
      by (auto simp: prune_victims_def dest!: in_set_takeD)
    with assms show False by (auto simp: distinct_map dest: inj_onD)
  qed
  with assms(2) show ?thesis by (simp add: prune_log_entries_def run_query_def Let_def)
qed

text \<open>
  Retention deletes expired entries only, and at most 10000 a day. A pass keeps every log entry that
  is not older than the configured number of days; and after any number of daily passes at least the
  stored entries less 10000 for each pass are still there, so a hub that stores more than that per day
  keeps entries beyond their retention for ever.
\<close>

lemma retention_removes_only_expired:
  assumes "distinct (map lr_id (ld_rows (ht_logs t)))"
  shows "(\<forall>r\<in>set (ld_rows (ht_logs t)). \<not> expired (pg_now (ht_logs t) (pg_clock (ht_logs t))) rd r
        \<longrightarrow> r \<in> set (ld_rows (ht_logs (snd (prune_all rd md t)))))
    \<and> length (ld_rows (ht_logs t)) - 10000 * days \<le> length (ld_rows (ht_logs (retention_run rd md days t)))"
proof (intro conjI ballI impI)
  fix r
  assume r: "r \<in> set (ld_rows (ht_logs t))" "\<not> expired (pg_now (ht_logs t) (pg_clock (ht_logs t))) rd r"
  have "ht_logs (snd (prune_all rd md t)) = ht_logs t
      \<or> ht_logs (snd (prune_all rd md t)) = snd (prune_log_entries id rd (ht_logs t))"
    by (auto simp: prune_all_def case_prod_beta split: sum.split)
  with prune_log_entries_keeps [OF assms r] r show "r \<in> set (ld_rows (ht_logs (snd (prune_all rd md t))))" by auto
qed (use retention_backlog [OF assms, of rd md days] in linarith)

lemma retention_removes_only_expired_witness:
  "length (ld_rows (ht_logs sample_tables)) = 3
   \<and> (\<forall>days. 3 - 10000 * days \<le> length (ld_rows (ht_logs (retention_run 30 7 days sample_tables))))"
proof -
  have d: "distinct (map lr_id (ld_rows (ht_logs sample_tables)))"
    unfolding sample_tables_def hub_tables.select_convs
    by (rule insert_batch_distinct) (simp add: sample_log_db_def)
  have "length (ld_rows (ht_logs sample_tables)) = 3"
    by (simp add: sample_tables_def insert_batch_def run_query_def new_rows_def sample_log_db_def batch_binds_def
        insert_columns_def numeral_3_eq_3)
  with retention_removes_only_expired [OF d, of 30 7] show ?thesis by simp
qed

end
