(* ===== verification/Float64.thy ===== *)
theory Float64
  imports Complex_Main "HOL-Library.Log_Nat" Text
begin

text \<open>
  The non-negative part of \<open>f64\<close> that the nginx parser uses for \<open>$request_time\<close>: decimal parsing
  with round-to-nearest-even, multiplication by a constant, \<open>round\<close> (half away from zero) and the
  range-checked cast to \<open>u64\<close>. A finite value is the rational it denotes.
\<close>

datatype f64 = Fin rat | Inf

section \<open>Rounding to 53 bits\<close>

definition round_half_even :: "rat \<Rightarrow> int" where
  "round_half_even x =
     (let f = \<lfloor>x\<rfloor>; r = x - of_int f
      in if r < 1/2 then f else if r > 1/2 then f + 1 else if even f then f else f + 1)"

definition pow2 :: "int \<Rightarrow> rat" where
  "pow2 e = (if 0 \<le> e then 2 ^ nat e else 1 / 2 ^ nat (- e))"

text \<open>The exponent of the last place of the binade that holds a positive \<open>x\<close>.\<close>

definition ulp_exp :: "rat \<Rightarrow> int" where
  "ulp_exp x =
     (case quotient_of x of (a, b) \<Rightarrow>
        let k = int (floorlog 2 (nat a)) - int (floorlog 2 (nat b));
            e = (if x < pow2 k then k - 53 else k - 52)
        in max e (- 1074))"

definition to_f64 :: "rat \<Rightarrow> f64" where
  "to_f64 x =
     (if x \<le> 0 then Fin 0
      else let e = ulp_exp x; y = of_int (round_half_even (x / pow2 e)) * pow2 e
           in if pow2 1024 \<le> y then Inf else Fin y)"

definition f64_times :: "f64 \<Rightarrow> rat \<Rightarrow> f64" where
  "f64_times x c = (case x of Inf \<Rightarrow> Inf | Fin q \<Rightarrow> to_f64 (q * c))"

definition f64_round :: "f64 \<Rightarrow> f64" where
  "f64_round x = (case x of Inf \<Rightarrow> Inf | Fin q \<Rightarrow> Fin (of_int \<lfloor>q + 1/2\<rfloor>))"

section \<open>Parsing\<close>

text \<open>
  \<open>str::parse::<f64>\<close> on texts of digits and dots (the only ones the log pattern passes on):
  digits, optionally a dot and digits, at least one digit in all.
\<close>

definition parse_f64 :: "string \<Rightarrow> f64 option" where
  "parse_f64 s =
     (case split_once s (CHR ''.'') of
        None \<Rightarrow>
          if s \<noteq> [] \<and> list_all is_ascii_digit s then Some (to_f64 (of_nat (digits_val s))) else None
      | Some (a, b) \<Rightarrow>
          if (a \<noteq> [] \<or> b \<noteq> []) \<and> list_all is_ascii_digit a \<and> list_all is_ascii_digit b
          then Some (to_f64 (of_nat (digits_val (a @ b)) / 10 ^ length b)) else None)"

section \<open>Error of one rounding\<close>

lemma round_half_even_err: "\<bar>of_int (round_half_even x) - x\<bar> \<le> 1/2"
proof -
  have "of_int \<lfloor>x\<rfloor> \<le> x" "x < of_int \<lfloor>x\<rfloor> + 1" by linarith+
  then show ?thesis unfolding round_half_even_def Let_def by (auto simp: abs_le_iff)
qed

lemma round_half_even_int [simp]: "round_half_even (of_int i) = i"
  by (simp add: round_half_even_def)

lemma pow2_pos [simp]: "0 < pow2 e"
  by (simp add: pow2_def)

lemma pow2_powi: "pow2 e = 2 powi e"
  by (simp add: pow2_def power_int_def field_simps power_inverse [symmetric] inverse_eq_divide)

lemma pow2_plus: "pow2 (a + b) = pow2 a * pow2 b"
  by (simp add: pow2_powi power_int_add)

lemma pow2_mono: "a \<le> b \<Longrightarrow> pow2 a \<le> pow2 b"
  by (simp add: pow2_powi power_int_increasing)

lemma pow2_strict: "a < b \<Longrightarrow> pow2 a < pow2 b"
  by (simp add: pow2_powi power_int_strict_increasing)

lemma pow2_of_nat: "pow2 (int n) = 2 ^ n"
  by (simp add: pow2_def)

lemma floorlog_bounds:
  assumes "0 < n"
  shows "pow2 (int (floorlog 2 n) - 1) \<le> of_nat n" "of_nat n < pow2 (int (floorlog 2 n))"
proof -
  have pos: "0 < floorlog 2 n" using assms by (simp add: floorlog_def)
  have lo: "2 ^ (floorlog 2 n - 1) \<le> n" and hi: "n < 2 ^ floorlog 2 n"
    using floorlog_bounds [of n 2] assms by auto
  have "int (floorlog 2 n) - 1 = int (floorlog 2 n - 1)" using pos by simp
  then have "pow2 (int (floorlog 2 n) - 1) = of_nat (2 ^ (floorlog 2 n - 1))"
    by (simp only: pow2_of_nat) simp
  then show "pow2 (int (floorlog 2 n) - 1) \<le> of_nat n" using lo by (simp only: of_nat_le_iff)
  have "pow2 (int (floorlog 2 n)) = of_nat (2 ^ floorlog 2 n)" by (simp add: pow2_of_nat)
  then show "of_nat n < pow2 (int (floorlog 2 n))" using hi by (simp only: of_nat_less_iff)
qed

text \<open>The binade of \<open>x\<close> and its last place.\<close>

definition binade_exp :: "rat \<Rightarrow> int" where
  "binade_exp x =
     (case quotient_of x of (a, b) \<Rightarrow>
        let k = int (floorlog 2 (nat a)) - int (floorlog 2 (nat b))
        in if x < pow2 k then k - 53 else k - 52)"

lemma ulp_exp_eq: "ulp_exp x = max (binade_exp x) (- 1074)"
  by (simp add: ulp_exp_def binade_exp_def Let_def split: prod.splits)

lemma binade_exp:
  assumes "0 < x"
  shows "pow2 (binade_exp x + 52) \<le> x" "x < pow2 (binade_exp x + 53)"
proof -
  obtain a b where q: "quotient_of x = (a, b)" by fastforce
  then have b: "0 < b" and x: "x = of_int a / of_int b"
    by (auto dest: quotient_of_denom_pos quotient_of_div)
  with assms(1) have a: "0 < a" by (simp add: zero_less_divide_iff)
  define ka where "ka = int (floorlog 2 (nat a))"
  define kb where "kb = int (floorlog 2 (nat b))"
  define k where "k = ka - kb"
  have la: "pow2 (ka - 1) \<le> of_int a" and lb: "of_int a < pow2 ka"
    and ua: "pow2 (kb - 1) \<le> of_int b" and ub: "of_int b < pow2 kb"
    using floorlog_bounds [of "nat a"] floorlog_bounds [of "nat b"] a b
    by (simp_all add: ka_def kb_def)
  have "pow2 (k - 1) * of_int b \<le> pow2 (k - 1) * pow2 kb" using ub b by simp
  also have "\<dots> = pow2 (ka - 1)" by (simp add: pow2_plus [symmetric] k_def)
  finally have lo: "pow2 (k - 1) \<le> x" using la b unfolding x by (simp add: pos_le_divide_eq)
  have "pow2 (k + 1) * pow2 (kb - 1) = pow2 ka" by (simp add: pow2_plus [symmetric] k_def)
  moreover have "pow2 (k + 1) * pow2 (kb - 1) \<le> pow2 (k + 1) * of_int b"
    using ua by (intro mult_left_mono) (simp_all add: less_imp_le)
  ultimately have hi: "x < pow2 (k + 1)" using lb b unfolding x by (simp add: pos_divide_less_eq)
  have "binade_exp x = (if x < pow2 k then k - 53 else k - 52)"
    unfolding binade_exp_def q prod.case Let_def by (simp only: k_def ka_def kb_def)
  with lo hi show "pow2 (binade_exp x + 52) \<le> x" "x < pow2 (binade_exp x + 53)"
    by (auto simp: add.commute [of 1 k] split: if_splits)
qed

lemma pow2_less_iff: "pow2 a < pow2 b \<longleftrightarrow> a < b"
  by (meson linorder_not_less order_le_less pow2_mono pow2_strict)

lemma ulp_exp_unique:
  assumes "pow2 (e + 52) \<le> x" "x < pow2 (e + 53)" "- 1074 \<le> e"
  shows "ulp_exp x = e"
proof -
  have "0 < x" using assms(1) pow2_pos [of "e + 52"] by linarith
  note b = binade_exp [OF this]
  have "pow2 (e + 52) < pow2 (binade_exp x + 53)" "pow2 (binade_exp x + 52) < pow2 (e + 53)"
    using assms(1,2) b by linarith+
  then have "binade_exp x = e" by (simp add: pow2_less_iff)
  with assms(3) show ?thesis by (simp add: ulp_exp_eq)
qed

text \<open>The last place of \<open>x\<close> is at most \<open>x / 2 ^ 52\<close> unless \<open>x\<close> is subnormal.\<close>

lemma ulp_exp_le:
  assumes "0 < x" "pow2 (- 1022) \<le> x"
  shows "pow2 (ulp_exp x) * 2 ^ 52 \<le> x"
proof -
  have p: "pow2 e * 2 ^ 52 = pow2 (e + 52)" for e
    by (simp add: pow2_plus pow2_def [of 52])
  show ?thesis
    unfolding p ulp_exp_eq using binade_exp(1) [OF assms(1)] assms(2) by (simp add: max_def)
qed

lemma near_half: "\<bar>w - x\<bar> \<le> u / 2 \<Longrightarrow> u \<le> x \<Longrightarrow> 0 < x \<Longrightarrow> w \<le> 2 * x \<and> 0 \<le> w" for w :: rat
  by linarith

lemma to_f64_err:
  assumes "0 \<le> x" "x = 0 \<or> pow2 (- 1022) \<le> x" "x < pow2 1000"
  shows "\<exists>y. to_f64 x = Fin y \<and> 0 \<le> y \<and> \<bar>y - x\<bar> * 2 ^ 53 \<le> x"
proof (cases "x = 0")
  case True
  then show ?thesis by (simp add: to_f64_def)
next
  case False
  with assms have pos: "0 < x" and big: "pow2 (- 1022) \<le> x" by auto
  define u where "u = pow2 (ulp_exp x)"
  define n where "n = round_half_even (x / u)"
  have u: "0 < u" "u * 2 ^ 52 \<le> x" using ulp_exp_le [OF pos big] by (simp_all add: u_def)
  have "\<bar>of_int n - x / u\<bar> \<le> 1/2" unfolding n_def by (rule round_half_even_err)
  then have "\<bar>of_int n - x / u\<bar> * u \<le> 1/2 * u" using u by (intro mult_right_mono) auto
  moreover have "\<bar>of_int n - x / u\<bar> * u = \<bar>of_int n * u - x\<bar>"
    using u by (simp add: abs_mult_pos left_diff_distrib)
  ultimately have err: "\<bar>of_int n * u - x\<bar> \<le> u / 2" by simp
  then have err53: "\<bar>of_int n * u - x\<bar> * 2 ^ 53 \<le> x" using u(2) by simp
  have "u \<le> x" using u by simp
  then have "of_int n * u \<le> 2 * x" "0 \<le> of_int n * u"
    using near_half [OF err] pos by auto
  moreover have "2 * x < pow2 1024"
  proof -
    have p1: "pow2 1 = 2" by (simp add: pow2_def)
    have "2 * x < pow2 1 * pow2 1000" unfolding p1 using assms(3) by linarith
    also have "\<dots> = pow2 1001" by (simp add: pow2_plus [symmetric])
    also have "\<dots> \<le> pow2 1024" by (rule pow2_mono) simp
    finally show ?thesis .
  qed
  ultimately have "to_f64 x = Fin (of_int n * u)" and "0 \<le> of_int n * u"
    using pos by (auto simp: to_f64_def Let_def u_def n_def)
  with err53 show ?thesis by blast
qed

text \<open>Two roundings and a final \<open>round\<close> return an integral product exactly when it is small.\<close>

lemma f64_scale_exact:
  assumes x: "of_nat n = x * 1000" and n: "n < 2 ^ 50"
  shows "f64_round (f64_times (to_f64 x) 1000) = Fin (of_nat n)"
proof (cases "n = 0")
  case True
  moreover have "\<lfloor>1 / 2 :: rat\<rfloor> = 0" by (simp add: floor_eq_iff)
  ultimately show ?thesis using x by (simp add: to_f64_def f64_times_def f64_round_def)
next
  case False
  then have nr: "1 \<le> (of_nat n :: rat)" "(of_nat n :: rat) < 2 ^ 50"
    using n of_nat_less_iff [of n "2 ^ 50", where ?'a = rat] by simp_all
  have tiny: "pow2 (- 1022) \<le> 1 / 2000"
  proof -
    have "pow2 (- 1022) \<le> pow2 (- 11)" by (rule pow2_mono) simp
    also have "\<dots> \<le> 1 / 2000" by (simp add: pow2_def)
    finally show ?thesis .
  qed
  have "pow2 51 \<le> pow2 1000" by (rule pow2_mono) simp
  then have big: "(2::rat) ^ 51 \<le> pow2 1000" by (simp add: pow2_def [of 51])
  have xpos: "1 / 1000 \<le> x" "x < 2 ^ 50" using x nr by simp_all
  obtain y where y: "to_f64 x = Fin y" "0 \<le> y" "\<bar>y - x\<bar> * 2 ^ 53 \<le> x"
    using to_f64_err [of x] xpos tiny big by auto
  have yx: "\<bar>y - x\<bar> \<le> x / 2 ^ 53" using y(3) by (simp add: field_simps)
  have ylo: "1 / 2 \<le> y * 1000" "y * 1000 < 2 ^ 51"
    using yx xpos x nr unfolding abs_le_iff by auto
  obtain z where z: "to_f64 (y * 1000) = Fin z" "\<bar>z - y * 1000\<bar> * 2 ^ 53 \<le> y * 1000"
    using to_f64_err [of "y * 1000"] ylo tiny big y(2) by auto
  have "\<bar>z - of_nat n\<bar> < 1 / 2"
    using z(2) yx ylo x nr unfolding abs_le_iff abs_less_iff by (auto simp: field_simps abs_if split: if_splits)
  then have "\<lfloor>z + 1 / 2\<rfloor> = int n"
    unfolding abs_less_iff floor_eq_iff of_int_of_nat_eq by linarith
  with y z show ?thesis by (simp add: f64_times_def f64_round_def)
qed

section \<open>Evaluating one rounding\<close>

lemma round_half_even_eq:
  assumes "\<bar>x - of_int n\<bar> < 1 / 2"
  shows "round_half_even x = n"
proof -
  show ?thesis
  proof (cases "of_int n \<le> x")
    case True
    then have "\<lfloor>x\<rfloor> = n" "x - of_int n < 1 / 2" using assms unfolding floor_eq_iff by linarith+
    then show ?thesis by (simp add: round_half_even_def Let_def)
  next
    case False
    then have "\<lfloor>x\<rfloor> = n - 1" "x - of_int (n - 1) > 1 / 2"
      using assms unfolding floor_eq_iff of_int_diff of_int_1 by linarith+
    then show ?thesis by (simp add: round_half_even_def Let_def)
  qed
qed

lemma to_f64_eq:
  assumes "pow2 (e + 52) \<le> x" "x < pow2 (e + 53)" "- 1074 \<le> e" "\<bar>x / pow2 e - of_int n\<bar> < 1 / 2" "0 \<le> n" "n < 2 ^ 60" "e \<le> 0"
  shows "to_f64 x = Fin (of_int n * pow2 e)"
proof -
  have pos: "0 < x" using assms(1) pow2_pos [of "e + 52"] by linarith
  have "of_int n * pow2 e \<le> of_int n * pow2 0"
    using assms(5,7) by (intro mult_left_mono pow2_mono) auto
  also have "\<dots> < pow2 60"
    using assms(6) of_int_less_iff [of n "2 ^ 60", where ?'a = rat] by (simp add: pow2_def)
  also have "\<dots> \<le> pow2 1024" by (rule pow2_mono) simp
  finally show ?thesis
    using pos by (simp add: to_f64_def Let_def ulp_exp_unique [OF assms(1-3)]
        round_half_even_eq [OF assms(4)])
qed

end
