(* ===== verification/Rest.thy ===== *)
theory Rest
  imports KeysCli Validate HubRepos Float64
begin

text \<open>
  The REST side of the hub, \<open>src/src/hub/rest/\<close>: the key middleware (\<open>auth.rs\<close>), event ingestion
  (\<open>events.rs\<close>), the read endpoints (\<open>read.rs\<close>), the security headers (\<open>headers.rs\<close>) and the way
  \<open>mod.rs\<close> puts them together. A request carries what actix's extractors make of it; a middleware is
  a function on services. \<open>'j\<close> is the type of JSON values.
\<close>

section \<open>Requests and responses\<close>

datatype http_method = GET | POST | OtherMethod

record 'j ingest_event =
  ie_event_type :: string
  ie_user_id :: "string option"
  ie_payload :: 'j
  ie_timestamp :: datetime

record metrics_query =
  mq_range :: "string option"
  mq_host :: "string option"

record events_query =
  eq_app :: "string option"
  eq_type :: "string option"
  eq_range :: "string option"
  eq_limit :: "int option"
  eq_offset :: "int option"

text \<open>An extractor that fails (\<open>Inl n\<close>) answers with the error status \<open>400 + n\<close>.\<close>

record 'j http_request =
  rq_method :: http_method
  rq_path :: string
  rq_api_key :: "string option"
  rq_authorization :: "string option"
  rq_peer :: "string option"
  rq_principal :: "principal option"
  rq_events :: "nat + 'j ingest_event list"
  rq_metrics_query :: "nat + metrics_query"
  rq_events_query :: "nat + events_query"

record bucketed_metric =
  bm_cpu_usage_percent :: double
  bm_memory_used_bytes :: double
  bm_memory_total_bytes :: double
  bm_load_avg_1m :: double
  bm_load_avg_5m :: double
  bm_disk_used_bytes :: double
  bm_disk_total_bytes :: double

record metric_point_dto =
  mo_timestamp :: string
  mo_cpu_percent :: double
  mo_mem_used_bytes :: int
  mo_mem_total_bytes :: int
  mo_load_1m :: double
  mo_load_5m :: double
  mo_disk_used_bytes :: int
  mo_disk_total_bytes :: int

record 'j app_event_dto =
  eo_id :: uuid
  eo_app_name :: string
  eo_event_type :: string
  eo_user_id :: "string option"
  eo_payload :: 'j
  eo_timestamp :: string

record agent_dto =
  ao_agent_id :: string
  ao_hostname :: string
  ao_first_seen_at :: string
  ao_last_seen_at :: string
  ao_online :: bool

record summary_response =
  sr_active_users_24h :: nat
  sr_total_events_24h :: nat
  sr_events_by_app :: "string \<Rightarrow> nat option"
  sr_events_by_type :: "string \<Rightarrow> nat option"
  sr_server_online :: bool
  sr_current_cpu_percent :: double
  sr_current_mem_percent :: double

datatype 'j rest_body =
    ErrorBody string
  | HealthBody
  | ReportBody nat "(nat \<times> string) list"
  | MetricsBody "metric_point_dto list"
  | EventsBody "'j app_event_dto list" int
  | ServersBody "agent_dto list"
  | SummaryBody summary_response
  | PageBody string
  | NoBody

record 'j http_response =
  rp_status :: nat
  rp_headers :: "string \<Rightarrow> string option"
  rp_body :: "'j rest_body"

definition respond :: "nat \<Rightarrow> 'j rest_body \<Rightarrow> 'j http_response" where
  "respond status b = \<lparr> rp_status = status, rp_headers = Map.empty, rp_body = b \<rparr>"

section \<open>State and surroundings\<close>

text \<open>Every worker of the server configures its own application, so it has its own event limiter.\<close>

record ('j, 'l, 'm) rest_state =
  rt_auth :: "'l auth_service"
  rt_events :: "'j events_db"
  rt_metrics :: metrics_db
  rt_agents :: agents_db
  rt_limiters :: "nat \<Rightarrow> 'm"

record ('h, 'l, 'm, 'j) rest_env =
  re_argon2 :: "'h argon2"
  re_ip_limiter :: "'l \<Rightarrow> string \<Rightarrow> bool \<times> 'l"
  re_key_limiter :: "'m \<Rightarrow> string \<Rightarrow> bool \<times> 'm"
  re_instant :: instant
  re_clock :: "nat \<Rightarrow> datetime"
  re_is_object :: "'j \<Rightarrow> bool"
  re_json_len :: "'j \<Rightarrow> nat option"
  re_rfc3339 :: "datetime \<Rightarrow> string"
  re_avg :: "system_metric list \<Rightarrow> bucketed_metric"
  re_collate :: "string \<Rightarrow> nat"
  re_allowed :: "string list"

type_synonym ('j, 'l, 'm) rest_service =
  "'j http_request \<Rightarrow> ('j, 'l, 'm) rest_state \<Rightarrow> 'j http_response \<times> ('j, 'l, 'm) rest_state"

section \<open>Authentication middleware\<close>

definition extract_key :: "'j http_request \<Rightarrow> string option" where
  "extract_key rq =
     (case rq_api_key rq of
        Some v \<Rightarrow> Some v
      | None \<Rightarrow>
          (case rq_authorization rq of
             None \<Rightarrow> None
           | Some v \<Rightarrow> strip_prefix ''Bearer '' v))"

definition request_ip :: "'j http_request \<Rightarrow> string" where
  "request_ip rq = (case rq_peer rq of None \<Rightarrow> ''unknown'' | Some a \<Rightarrow> a)"

definition reject :: "auth_error \<Rightarrow> nat \<Rightarrow> 'j http_response" where
  "reject e status = respond status (ErrorBody (display_auth_error e))"

fun auth_error_status :: "auth_error \<Rightarrow> nat" where
  "auth_error_status RateLimited = 429"
| "auth_error_status (Storage m) = 500"
| "auth_error_status Malformed = 401"
| "auth_error_status UnknownKey = 401"
| "auth_error_status BadSignature = 401"

definition key_auth ::
  "('h, 'l, 'm, 'j) rest_env \<Rightarrow> ('j, 'l, 'm) rest_service \<Rightarrow> ('j, 'l, 'm) rest_service" where
  "key_auth env inner rq s =
     (case check_ip_budget (re_ip_limiter env) (request_ip rq) (rt_auth s) of
        (Inl e, a) \<Rightarrow> (reject e 429, s \<lparr> rt_auth := a \<rparr>)
      | (Inr _, a) \<Rightarrow>
          (case extract_key rq of
             None \<Rightarrow> (reject Malformed 401, s \<lparr> rt_auth := a \<rparr>)
           | Some raw \<Rightarrow>
               (case authenticate (re_argon2 env) (re_instant env) raw a of
                  (Inl e, a') \<Rightarrow> (reject e (auth_error_status e), s \<lparr> rt_auth := a' \<rparr>)
                | (Inr p, a') \<Rightarrow> inner (rq \<lparr> rq_principal := Some p \<rparr>) (s \<lparr> rt_auth := a' \<rparr>))))"

text \<open>\<open>PrincipalExtractor\<close>: a handler that asks for the principal answers 401 without one.\<close>

definition with_principal ::
  "(principal \<Rightarrow> ('j, 'l, 'm) rest_service) \<Rightarrow> ('j, 'l, 'm) rest_service" where
  "with_principal h rq s =
     (case rq_principal rq of
        None \<Rightarrow> (respond 401 (ErrorBody ''authentication required''), s)
      | Some p \<Rightarrow> h p rq s)"

section \<open>Security headers\<close>

definition content_security_policy :: string where
  "content_security_policy =
     (let q = (\<lambda>s. [CHR 0x27] @ s @ [CHR 0x27])
      in ''default-src '' @ q ''self'' @ ''; script-src '' @ q ''self'' @ ''; style-src '' @ q ''self''
         @ '' '' @ q ''unsafe-inline'' @ ''; img-src '' @ q ''self'' @ '' data:; connect-src '' @ q ''self''
         @ ''; frame-ancestors '' @ q ''none'' @ ''; base-uri '' @ q ''self'' @ ''; form-action '' @ q ''self'')"

definition security_headers :: "(string \<times> string) list" where
  "security_headers =
     [(''Content-Security-Policy'', content_security_policy),
      (''X-Content-Type-Options'', ''nosniff''),
      (''X-Frame-Options'', ''DENY''),
      (''Referrer-Policy'', ''no-referrer''),
      (''Cross-Origin-Opener-Policy'', ''same-origin'')]"

definition insert_headers ::
  "(string \<times> string) list \<Rightarrow> (string \<Rightarrow> string option) \<Rightarrow> string \<Rightarrow> string option" where
  "insert_headers hs m = fold (\<lambda>(n, v) m. m(n \<mapsto> v)) hs m"

definition with_security_headers :: "('j, 'l, 'm) rest_service \<Rightarrow> ('j, 'l, 'm) rest_service" where
  "with_security_headers inner rq s =
     (case inner rq s of
        (r, s') \<Rightarrow> (r \<lparr> rp_headers := insert_headers security_headers (rp_headers r) \<rparr>, s'))"

section \<open>Event ingestion\<close>

definition events_per_minute :: nat where "events_per_minute = 100"

definition payload_check :: "('h, 'l, 'm, 'j) rest_env \<Rightarrow> 'j \<Rightarrow> string + unit" where
  "payload_check env j =
     (if \<not> re_is_object env j then Inl ''payload must be a JSON object''
      else (let n = (case re_json_len env j of Some n \<Rightarrow> n | None \<Rightarrow> 2 ^ 64 - 1)
            in if max_payload_bytes < n
               then Inl (''payload serialized size '' @ show_nat n @ '' exceeds '' @ show_nat max_payload_bytes
                         @ '' bytes'')
               else Inr ()))"

definition validate_event ::
  "('h, 'l, 'm, 'j) rest_env \<Rightarrow> datetime \<Rightarrow> string \<Rightarrow> 'j ingest_event \<Rightarrow> string + 'j app_event" where
  "validate_event env now app e =
     and_then (event_type (ie_event_type e) (Some (re_allowed env))) (\<lambda>_.
     and_then (case ie_user_id e of None \<Rightarrow> Inr () | Some u \<Rightarrow> user_id u) (\<lambda>_.
     and_then (payload_check env (ie_payload e)) (\<lambda>_.
     and_then (timestamp (ie_timestamp e) now) (\<lambda>_.
       Inr \<lparr> ae_app_name = app, ae_event_type = ie_event_type e, ae_user_id = ie_user_id e,
             ae_payload = ie_payload e, ae_timestamp = ie_timestamp e \<rparr>))))"

definition reject_forbidden :: "string \<Rightarrow> 'j http_response" where
  "reject_forbidden reason = respond 403 (ErrorBody reason)"

definition validated ::
  "('h, 'l, 'm, 'j) rest_env \<Rightarrow> string \<Rightarrow> 'j ingest_event list \<Rightarrow> (string + 'j app_event) list" where
  "validated env app es =
     map (\<lambda>(i, e). validate_event env (re_clock env i) app e) (zip [0..<length es] es)"

definition accepted_of :: "('e + 'a) list \<Rightarrow> 'a list" where
  "accepted_of rs = List.map_filter (\<lambda>r. case r of Inr a \<Rightarrow> Some a | Inl _ \<Rightarrow> None) rs"

definition errors_of :: "('e + 'a) list \<Rightarrow> (nat \<times> 'e) list" where
  "errors_of rs =
     List.map_filter (\<lambda>(i, r). case r of Inl e \<Rightarrow> Some (i, e) | Inr _ \<Rightarrow> None) (zip [0..<length rs] rs)"

text \<open>The handler on worker \<open>w\<close>.\<close>

definition post_events ::
  "('h, 'l, 'm, 'j) rest_env \<Rightarrow> nat \<Rightarrow> principal \<Rightarrow> ('j, 'l, 'm) rest_service" where
  "post_events env w p rq s =
     (case rq_events rq of
        Inl n \<Rightarrow> (respond (400 + n) NoBody, s)
      | Inr es \<Rightarrow>
          if IngestEvents \<notin> pp_permissions p
          then (reject_forbidden ''key lacks ingest:events'', s)
          else
            (case pp_app_name p of
               None \<Rightarrow> (reject_forbidden
                 ''this key is not bound to an app; app keys are required for event ingestion'', s)
             | Some app \<Rightarrow>
                 (case re_key_limiter env (rt_limiters s w) (pp_key_id p) of
                    (allowed, l) \<Rightarrow>
                      let s = s \<lparr> rt_limiters := (rt_limiters s)(w := l) \<rparr>
                      in if \<not> allowed then (respond 429 (ErrorBody ''rate limit exceeded''), s)
                         else if max_events_per_request < length es
                         then (respond 400 (ErrorBody (''batch exceeds '' @ show_nat max_events_per_request
                                 @ '' events'')), s)
                         else
                           (let rs = validated env app es; ok = accepted_of rs; errs = errors_of rs
                            in if ok = [] \<and> errs \<noteq> [] then (respond 422 (ReportBody 0 errs), s)
                               else (case events_insert_batch char_count ok (rt_events s) of
                                       (Inl _, ev) \<Rightarrow>
                                         (respond 500 (ErrorBody ''storage failure''), s \<lparr> rt_events := ev \<rparr>)
                                     | (Inr n, ev) \<Rightarrow>
                                         (respond 202 (ReportBody n errs), s \<lparr> rt_events := ev \<rparr>))))))"

section \<open>Read endpoints\<close>

definition health :: "('j, 'l, 'm) rest_service" where
  "health rq s = (respond 200 HealthBody, s)"

definition bad_request :: "string \<Rightarrow> 'j http_response" where
  "bad_request reason = respond 400 (ErrorBody reason)"

definition internal_error :: "sentinel_error \<Rightarrow> 'j http_response" where
  "internal_error e = respond 500 (ErrorBody ''storage failure'')"

definition range_error :: string where
  "range_error = ''range must be one of 1h, 6h, 24h, 7d, 30d''"

definition require_dashboard :: "principal \<Rightarrow> 'j http_response option" where
  "require_dashboard p =
     (if ReadDashboard \<in> pp_permissions p then None
      else Some (respond 403 (ErrorBody ''key lacks read:dashboard'')))"

text \<open>\<open>x as i64\<close> on a double: truncation, saturating; \<open>NaN\<close> gives 0.\<close>

definition trunc_i64 :: "double \<Rightarrow> int" where
  "trunc_i64 d =
     (case d of
        Finite q \<Rightarrow> max (- (2 ^ 63)) (min (2 ^ 63 - 1) (if 0 \<le> q then \<lfloor>q\<rfloor> else \<lceil>q\<rceil>))
      | PosInf \<Rightarrow> 2 ^ 63 - 1
      | NegInf \<Rightarrow> - (2 ^ 63)
      | NaN \<Rightarrow> 0)"

definition metric_dto ::
  "('h, 'l, 'm, 'j) rest_env \<Rightarrow> datetime \<times> system_metric list \<Rightarrow> metric_point_dto" where
  "metric_dto env b =
     (let m = re_avg env (snd b)
      in \<lparr> mo_timestamp = re_rfc3339 env (fst b), mo_cpu_percent = bm_cpu_usage_percent m,
           mo_mem_used_bytes = trunc_i64 (bm_memory_used_bytes m),
           mo_mem_total_bytes = trunc_i64 (bm_memory_total_bytes m),
           mo_load_1m = bm_load_avg_1m m, mo_load_5m = bm_load_avg_5m m,
           mo_disk_used_bytes = trunc_i64 (bm_disk_used_bytes m),
           mo_disk_total_bytes = trunc_i64 (bm_disk_total_bytes m) \<rparr>)"

definition range_arg :: "string option \<Rightarrow> metric_range option" where
  "range_arg r = range_parse (case r of None \<Rightarrow> ''24h'' | Some v \<Rightarrow> v)"

definition get_metrics ::
  "('h, 'l, 'm, 'j) rest_env \<Rightarrow> principal \<Rightarrow> ('j, 'l, 'm) rest_service" where
  "get_metrics env p rq s =
     (case rq_metrics_query rq of
        Inl n \<Rightarrow> (respond (400 + n) NoBody, s)
      | Inr q \<Rightarrow>
          (case require_dashboard p of
             Some denied \<Rightarrow> (denied, s)
           | None \<Rightarrow>
               (case range_arg (mq_range q) of
                  None \<Rightarrow> (bad_request range_error, s)
                | Some rg \<Rightarrow>
                    (case bucketed_series (range_seconds rg) (bucket_seconds rg)
                            (nat (max_rows rg)) (mq_host q) (rt_metrics s) of
                       (Inr series, db) \<Rightarrow>
                         (respond 200 (MetricsBody (map (metric_dto env) series)), s \<lparr> rt_metrics := db \<rparr>)
                     | (Inl e, db) \<Rightarrow> (internal_error e, s \<lparr> rt_metrics := db \<rparr>)))))"

definition event_dto ::
  "('h, 'l, 'm, 'j) rest_env \<Rightarrow> uuid \<times> 'j app_event \<Rightarrow> 'j app_event_dto" where
  "event_dto env r =
     \<lparr> eo_id = fst r, eo_app_name = ae_app_name (snd r), eo_event_type = ae_event_type (snd r),
       eo_user_id = ae_user_id (snd r), eo_payload = ae_payload (snd r),
       eo_timestamp = re_rfc3339 env (ae_timestamp (snd r)) \<rparr>"

text \<open>The checks of the query, in the order of the code; the result is the filter or the response.\<close>

definition event_filter_of :: "events_query \<Rightarrow> string + event_filter" where
  "event_filter_of q =
     and_then (ok_or range_error (range_arg (eq_range q))) (\<lambda>rg.
     and_then (limit (case eq_limit q of Some l \<Rightarrow> l | None \<Rightarrow> min max_limit 50)) (\<lambda>lim.
     and_then (offset (case eq_offset q of Some x \<Rightarrow> x | None \<Rightarrow> 0)) (\<lambda>off.
     and_then (case eq_app q of Some a \<Rightarrow> app_name a | None \<Rightarrow> Inr ()) (\<lambda>_.
     and_then (case eq_type q of Some t \<Rightarrow> event_type t None | None \<Rightarrow> Inr ()) (\<lambda>_.
       Inr \<lparr> ef_app_name = eq_app q, ef_event_type = eq_type q, ef_interval = range_seconds rg,
             ef_limit = lim, ef_offset = off \<rparr>)))))"

definition get_app_events ::
  "('h, 'l, 'm, 'j) rest_env \<Rightarrow> principal \<Rightarrow> ('j, 'l, 'm) rest_service" where
  "get_app_events env p rq s =
     (case rq_events_query rq of
        Inl n \<Rightarrow> (respond (400 + n) NoBody, s)
      | Inr q \<Rightarrow>
          (case require_dashboard p of
             Some denied \<Rightarrow> (denied, s)
           | None \<Rightarrow>
               (case event_filter_of q of
                  Inl reason \<Rightarrow> (bad_request reason, s)
                | Inr f \<Rightarrow>
                    (case events_list f (rt_events s) of
                       (Inr (rows, tot), db) \<Rightarrow>
                         (respond 200 (EventsBody (map (event_dto env) rows) tot), s \<lparr> rt_events := db \<rparr>)
                     | (Inl e, db) \<Rightarrow> (internal_error e, s \<lparr> rt_events := db \<rparr>)))))"

definition get_servers ::
  "('h, 'l, 'm, 'j) rest_env \<Rightarrow> principal \<Rightarrow> ('j, 'l, 'm) rest_service" where
  "get_servers env p rq s =
     (case require_dashboard p of
        Some denied \<Rightarrow> (denied, s)
      | None \<Rightarrow>
          (case list_with_status (re_collate env) online_window_secs (rt_agents s) of
             (Inr rows, db) \<Rightarrow>
               (respond 200 (ServersBody (map (\<lambda>(a, on).
                  \<lparr> ao_agent_id = aw_agent_id a, ao_hostname = aw_hostname a,
                    ao_first_seen_at = re_rfc3339 env (aw_first_seen_at a),
                    ao_last_seen_at = re_rfc3339 env (aw_last_seen_at a), ao_online = on \<rparr>) rows)),
                s \<lparr> rt_agents := db \<rparr>)
           | (Inl e, db) \<Rightarrow> (internal_error e, s \<lparr> rt_agents := db \<rparr>)))"

text \<open>\<open>used as f64 / total as f64 * 100.0\<close>, each operation rounded.\<close>

definition f64_of_int :: "int \<Rightarrow> rat" where
  "f64_of_int n =
     (case to_f64 (of_int \<bar>n\<bar>) of Fin q \<Rightarrow> (if n < 0 then - q else q) | Inf \<Rightarrow> 0)"

definition round_f64 :: "rat \<Rightarrow> double" where
  "round_f64 x =
     (case to_f64 \<bar>x\<bar> of
        Fin q \<Rightarrow> Finite (if x < 0 then - q else q)
      | Inf \<Rightarrow> if x < 0 then NegInf else PosInf)"

definition mem_percent :: "64 word \<Rightarrow> 64 word \<Rightarrow> double" where
  "mem_percent used tot =
     (if 0 < sint tot
      then (case round_f64 (f64_of_int (sint used) / f64_of_int (sint tot)) of
              Finite q \<Rightarrow> round_f64 (q * 100)
            | d \<Rightarrow> d)
      else Finite 0)"

text \<open>The five queries of the summary, in their order; the first error ends them.\<close>

definition summary_queries ::
  "int \<Rightarrow> ('j, 'l, 'm) rest_state \<Rightarrow>
   (sentinel_error + nat \<times> nat \<times> (string \<times> nat) list \<times> (string \<times> nat) list
      \<times> (uuid \<times> system_metric) option) \<times> ('j, 'l, 'm) rest_state" where
  "summary_queries secs s =
     (case count_active_users secs (rt_events s) of
        (Inl e, ev) \<Rightarrow> (Inl e, s \<lparr> rt_events := ev \<rparr>)
      | (Inr users, ev) \<Rightarrow>
     (case count_total secs ev of
        (Inl e, ev) \<Rightarrow> (Inl e, s \<lparr> rt_events := ev \<rparr>)
      | (Inr tot, ev) \<Rightarrow>
     (case counts_by_app secs ev of
        (Inl e, ev) \<Rightarrow> (Inl e, s \<lparr> rt_events := ev \<rparr>)
      | (Inr by_app, ev) \<Rightarrow>
     (case counts_by_type secs ev of
        (Inl e, ev) \<Rightarrow> (Inl e, s \<lparr> rt_events := ev \<rparr>)
      | (Inr by_type, ev) \<Rightarrow>
     (case metric_latest id (rt_metrics s) of
        (Inl e, m) \<Rightarrow> (Inl e, s \<lparr> rt_events := ev, rt_metrics := m \<rparr>)
      | (Inr latest, m) \<Rightarrow>
          (Inr (users, tot, by_app, by_type, latest), s \<lparr> rt_events := ev, rt_metrics := m \<rparr>))))))"

definition get_summary ::
  "('h, 'l, 'm, 'j) rest_env \<Rightarrow> principal \<Rightarrow> ('j, 'l, 'm) rest_service" where
  "get_summary env p rq s =
     (case require_dashboard p of
        Some denied \<Rightarrow> (denied, s)
      | None \<Rightarrow>
          (case summary_queries (range_seconds default_range) s of
             (Inl e, s) \<Rightarrow> (internal_error e, s)
           | (Inr (users, tot, by_app, by_type, latest), s) \<Rightarrow>
               (let (cpu, mem, online) =
                  (case latest of
                     Some (_, m) \<Rightarrow>
                       (sm_cpu_usage_percent m, mem_percent (sm_memory_used_bytes m) (sm_memory_total_bytes m),
                        sm_timestamp m > re_clock env 0 - 90 * ns_per_s)
                   | None \<Rightarrow> (Finite 0, Finite 0, False))
                in (respond 200 (SummaryBody
                      \<lparr> sr_active_users_24h = users, sr_total_events_24h = tot,
                        sr_events_by_app = map_of (rev by_app), sr_events_by_type = map_of (rev by_type),
                        sr_server_online = online, sr_current_cpu_percent = cpu,
                        sr_current_mem_percent = mem \<rparr>), s))))"

section \<open>The application\<close>

text \<open>\<open>.wrap\<close> calls in their order: the last one registered is the outermost.\<close>

definition wrap_all ::
  "(('j, 'l, 'm) rest_service \<Rightarrow> ('j, 'l, 'm) rest_service) list \<Rightarrow> ('j, 'l, 'm) rest_service \<Rightarrow>
   ('j, 'l, 'm) rest_service" where
  "wrap_all ms inner = fold (\<lambda>m s. m s) ms inner"

definition not_found :: "('j, 'l, 'm) rest_service" where
  "not_found rq s = (respond 404 NoBody, s)"

definition scope_v1 :: "('h, 'l, 'm, 'j) rest_env \<Rightarrow> nat \<Rightarrow> ('j, 'l, 'm) rest_service" where
  "scope_v1 env w rq =
     (if rq_path rq = ''/v1/events'' \<and> rq_method rq = POST then with_principal (post_events env w) rq
      else not_found rq)"

definition scope_api :: "('h, 'l, 'm, 'j) rest_env \<Rightarrow> ('j, 'l, 'm) rest_service" where
  "scope_api env rq =
     (if rq_method rq \<noteq> GET then not_found rq
      else if rq_path rq = ''/api/v1/metrics'' then with_principal (get_metrics env) rq
      else if rq_path rq = ''/api/v1/events'' then with_principal (get_app_events env) rq
      else if rq_path rq = ''/api/v1/servers'' then with_principal (get_servers env) rq
      else if rq_path rq = ''/api/v1/summary'' then with_principal (get_summary env) rq
      else not_found rq)"

definition in_scope :: "string \<Rightarrow> string \<Rightarrow> bool" where
  "in_scope prefix p \<longleftrightarrow> p = prefix \<or> starts_with p (prefix @ ''/'')"

definition spa_placeholder :: string where
  "spa_placeholder =
     ''<!doctype html><html><head><title>Sentinel</title></head>''
     @ ''<body><h1>Sentinel hub is running</h1>''
     @ ''<p>The dashboard SPA is not built yet (web/dist missing).</p>''
     @ ''</body></html>''"

text \<open>\<open>serve_index\<close>: \<open>None\<close> when the file cannot be read.\<close>

definition serve_index :: "string option \<Rightarrow> 'j http_response" where
  "serve_index index =
     (case index of
        Some bytes \<Rightarrow> respond 200 (PageBody bytes)
      | None \<Rightarrow> respond 404 (PageBody ''SPA index missing''))"

text \<open>
  The files under the SPA directory: whether it has an index at configuration time, what the static
  file service finds for a path, and what reading the index gives.
\<close>

record spa_files =
  sp_exists :: bool
  sp_file :: "string \<Rightarrow> string option"
  sp_index :: "string option"

definition spa_service :: "spa_files \<Rightarrow> ('j, 'l, 'm) rest_service" where
  "spa_service spa rq s =
     (if sp_exists spa
      then (case sp_file spa (rq_path rq) of
              Some bytes \<Rightarrow> respond 200 (PageBody bytes)
            | None \<Rightarrow> serve_index (sp_index spa))
      else respond 200 (PageBody spa_placeholder), s)"

definition configure_app ::
  "('h, 'l, 'm, 'j) rest_env \<Rightarrow> spa_files \<Rightarrow> nat \<Rightarrow> ('j, 'l, 'm) rest_service" where
  "configure_app env spa w rq =
     (if rq_path rq = ''/api/v1/health'' \<and> rq_method rq = GET then health rq
      else if in_scope ''/v1'' (rq_path rq)
      then wrap_all [with_security_headers, key_auth env] (scope_v1 env w) rq
      else if in_scope ''/api/v1'' (rq_path rq)
      then wrap_all [with_security_headers, key_auth env] (scope_api env) rq
      else wrap_all [with_security_headers] (spa_service spa) rq)"

section \<open>Accepted events\<close>

lemma char_count_le: "char_count s \<le> length s"
  by (induction s) auto

lemma validate_event_Inr:
  "validate_event env now app e = Inr a \<longleftrightarrow>
     is_ok (event_type (ie_event_type e) (Some (re_allowed env)))
     \<and> (\<forall>u. ie_user_id e = Some u \<longrightarrow> is_ok (user_id u))
     \<and> is_ok (payload_check env (ie_payload e)) \<and> is_ok (timestamp (ie_timestamp e) now)
     \<and> a = \<lparr> ae_app_name = app, ae_event_type = ie_event_type e, ae_user_id = ie_user_id e,
            ae_payload = ie_payload e, ae_timestamp = ie_timestamp e \<rparr>"
  by (cases "ie_user_id e") (auto simp: validate_event_def and_then_Inr_conv is_ok_def split: sum.splits)

text \<open>What the code accepts, the table accepts too, provided that the key's app name is well formed.\<close>

lemma validated_checks:
  assumes "validate_event env now app e = Inr a"
  shows "event_checks char_count a \<longleftrightarrow> sized_token app_name_char 64 app"
proof -
  note a = assms [unfolded validate_event_Inr event_type_ok]
  have u: "char_count v \<le> 128" if "ie_user_id e = Some v" for v
    using a that char_count_le [of v] by (auto simp: text_ok)
  have chars: "(\<lambda>c. is_ascii_lowercase c \<or> is_ascii_digit c \<or> c \<in> set ''_.:-'') = event_type_char"
    "(\<lambda>c. is_ascii_lowercase c \<or> is_ascii_digit c \<or> c \<in> set ''._-'') = app_name_char"
    by (auto simp: event_type_char_def app_name_char_def fun_eq_iff)
  show ?thesis
    using a u unfolding event_checks_def chars by (auto simp: sized_token_def split: option.split)
qed

lemma accepted_of_simps [simp]:
  "accepted_of [] = []"
  "accepted_of (r # rs) = (case r of Inr a \<Rightarrow> a # accepted_of rs | Inl _ \<Rightarrow> accepted_of rs)"
  by (simp_all add: accepted_of_def map_filter_simps split: sum.split)

lemma accepted_of_set: "a \<in> set (accepted_of rs) \<longleftrightarrow> Inr a \<in> set rs"
  by (induction rs) (auto split: sum.splits)

lemma length_validated [simp]: "length (validated env app es) = length es"
  by (simp add: validated_def)

lemma errors_length: "length (accepted_of rs) + length (errors_of rs) = length rs"
proof -
  have "length ks = length rs \<Longrightarrow> length (accepted_of rs) + length (List.map_filter
      (\<lambda>(i, r). case r of Inl e \<Rightarrow> Some (i, e) | Inr _ \<Rightarrow> None) (zip ks rs)) = length rs" for ks :: "nat list"
  proof (induction rs arbitrary: ks)
    case (Cons r rs)
    then show ?case by (cases ks) (simp_all add: map_filter_simps split: sum.split)
  qed (simp add: map_filter_simps)
  from this [of "[0..<length rs]"] show ?thesis by (simp add: errors_of_def)
qed

lemma validated_app:
  assumes "Inr a \<in> set (validated env app es)"
  shows "ae_app_name a = app" "event_checks char_count a \<longleftrightarrow> sized_token app_name_char 64 app"
proof -
  from assms obtain i e where v: "validate_event env (re_clock env i) app e = Inr a"
    by (auto simp: validated_def)
  from validated_checks [OF v] show "event_checks char_count a \<longleftrightarrow> sized_token app_name_char 64 app" .
  from v show "ae_app_name a = app" by (simp add: validate_event_Inr)
qed

section \<open>Guarded services\<close>

text \<open>
  The contract of what stands behind the key middleware: without a principal that has the required
  permission a request neither succeeds nor changes the stored data, and the data do not live in the
  authentication state.
\<close>

locale guarded_service =
  fixes svc :: "'j http_request \<Rightarrow> ('j, 'l, 'm) rest_state \<Rightarrow> 'j http_response \<times> ('j, 'l, 'm) rest_state"
    and data :: "('j, 'l, 'm) rest_state \<Rightarrow> 'd"
    and permitted :: "principal \<Rightarrow> bool"
  assumes no_permission: "\<not> (\<exists>p. rq_principal rq = Some p \<and> permitted p) \<Longrightarrow>
      data (snd (svc rq s)) = data s \<and> rp_status (fst (svc rq s)) \<notin> {200, 202}"
    and auth_apart: "data (s \<lparr> rt_auth := a \<rparr>) = data s"
begin

lemma headers_apart:
  "rp_status (fst (with_security_headers svc rq s)) = rp_status (fst (svc rq s))"
  "snd (with_security_headers svc rq s) = snd (svc rq s)"
  by (simp_all add: with_security_headers_def case_prod_beta)

text \<open>Success or an effect proves that a permitted principal has authenticated.\<close>

lemma guard:
  assumes "key_auth env (with_security_headers svc) rq s = (r, s')"
    and "rp_status r \<in> {200, 202} \<or> data s' \<noteq> data s"
  shows "\<exists>a raw p a'. check_ip_budget (re_ip_limiter env) (request_ip rq) (rt_auth s) = (Inr (), a)
    \<and> extract_key rq = Some raw \<and> authenticate (re_argon2 env) (re_instant env) raw a = (Inr p, a')
    \<and> permitted p"
proof -
  obtain x a where b: "check_ip_budget (re_ip_limiter env) (request_ip rq) (rt_auth s) = (x, a)" by force
  have status: "auth_error_status e \<notin> {200, 202}" for e by (cases e) simp_all
  have x: "x = Inr ()"
  proof (cases x)
    case (Inl e)
    with b assms auth_apart show ?thesis by (auto simp: key_auth_def reject_def respond_def)
  qed simp
  obtain raw where raw: "extract_key rq = Some raw"
    using b x assms auth_apart by (cases "extract_key rq") (auto simp: key_auth_def reject_def respond_def)
  obtain y a' where y: "authenticate (re_argon2 env) (re_instant env) raw a = (y, a')" by force
  show ?thesis
  proof (cases y)
    case (Inl e)
    with b x raw y assms auth_apart status [of e] show ?thesis
      by (auto simp: key_auth_def reject_def respond_def)
  next
    case (Inr p)
    then have call: "with_security_headers svc (rq \<lparr> rq_principal := Some p \<rparr>) (s \<lparr> rt_auth := a' \<rparr>) = (r, s')"
      using b x raw y assms(1) by (simp add: key_auth_def)
    have "permitted p"
    proof (rule ccontr)
      assume "\<not> permitted p"
      with no_permission [of "rq \<lparr> rq_principal := Some p \<rparr>" "s \<lparr> rt_auth := a' \<rparr>"]
      show False
        using assms(2) call headers_apart [of "rq \<lparr> rq_principal := Some p \<rparr>" "s \<lparr> rt_auth := a' \<rparr>"]
        by (simp add: auth_apart)
    qed
    with b x raw y Inr show ?thesis by blast
  qed
qed

end

text \<open>The rows of the three tables.\<close>

definition stored_data ::
  "('j, 'l, 'm) rest_state \<Rightarrow> (uuid \<times> 'j app_event) list \<times> (uuid \<times> system_metric) list \<times> agent_row list" where
  "stored_data s = (vd_rows (rt_events s), md_rows (rt_metrics s), gd_rows (rt_agents s))"

definition may_ingest :: "principal \<Rightarrow> bool" where
  "may_ingest p \<longleftrightarrow> IngestEvents \<in> pp_permissions p \<and> pp_app_name p \<noteq> None"

definition may_read :: "principal \<Rightarrow> bool" where
  "may_read p \<longleftrightarrow> ReadDashboard \<in> pp_permissions p"

lemma stored_data_auth [simp]: "stored_data (s \<lparr> rt_auth := a \<rparr>) = stored_data s"
  by (simp add: stored_data_def)

lemma respond_sel [simp]:
  "rp_status (respond n b) = n" "rp_body (respond n b) = b" "rp_headers (respond n b) = Map.empty"
  by (simp_all add: respond_def)

lemma post_events_denied:
  "\<not> may_ingest p \<Longrightarrow> snd (post_events env w p rq s) = s
     \<and> rp_status (fst (post_events env w p rq s)) \<notin> {200, 202}"
  by (auto simp: post_events_def may_ingest_def reject_forbidden_def split: sum.split option.split)

lemma reads_denied:
  assumes "\<not> may_read p"
  shows "snd (get_metrics env p rq s) = s \<and> rp_status (fst (get_metrics env p rq s)) \<notin> {200, 202}"
    "snd (get_app_events env p rq s) = s \<and> rp_status (fst (get_app_events env p rq s)) \<notin> {200, 202}"
    "snd (get_servers env p rq s) = s \<and> rp_status (fst (get_servers env p rq s)) \<notin> {200, 202}"
    "snd (get_summary env p rq s) = s \<and> rp_status (fst (get_summary env p rq s)) \<notin> {200, 202}"
  using assms
  by (auto simp: get_metrics_def get_app_events_def get_servers_def get_summary_def may_read_def
      require_dashboard_def split: sum.split)

interpretation v1: guarded_service
  "scope_v1 env w :: ('j, 'l, 'm) rest_service" stored_data may_ingest
  for env :: "('h, 'l, 'm, 'j) rest_env" and w
proof
  fix rq :: "'j http_request" and s :: "('j, 'l, 'm) rest_state"
  assume "\<not> (\<exists>p. rq_principal rq = Some p \<and> may_ingest p)"
  then show "stored_data (snd (scope_v1 env w rq s)) = stored_data s
      \<and> rp_status (fst (scope_v1 env w rq s)) \<notin> {200, 202}"
    using post_events_denied [of _ env w rq s]
    by (auto simp: scope_v1_def not_found_def with_principal_def split: option.split)
qed simp

interpretation api: guarded_service
  "scope_api env :: ('j, 'l, 'm) rest_service" stored_data may_read
  for env :: "('h, 'l, 'm, 'j) rest_env"
proof
  fix rq :: "'j http_request" and s :: "('j, 'l, 'm) rest_state"
  assume "\<not> (\<exists>p. rq_principal rq = Some p \<and> may_read p)"
  then show "stored_data (snd (scope_api env rq s)) = stored_data s
      \<and> rp_status (fst (scope_api env rq s)) \<notin> {200, 202}"
    using reads_denied [of _ env rq s]
    by (cases "rq_principal rq") (simp_all add: scope_api_def not_found_def with_principal_def)
qed simp

section \<open>What requests do\<close>

text \<open>The read endpoints only move the clock of the connections.\<close>

lemma run_query_rows:
  "run_query (\<lambda>db. (q db, db)) db = (r, db') \<Longrightarrow> db' = tick db"
  by (auto simp: run_query_def split: if_splits)

lemma reads_tick:
  "snd (bucketed_series a b c d m) = tick m"
  "snd (list_with_status k w ag) = tick ag"
  "snd (count_active_users i ev) = tick ev" "snd (count_total i ev) = tick ev"
  "snd (counts_by_app i ev) = tick ev" "snd (counts_by_type i ev) = tick ev"
  "snd (metric_latest pk m) = tick m"
  by (simp_all add: bucketed_series_def list_with_status_def count_active_users_def count_total_def
      counts_by_app_def counts_by_type_def counts_by_def metric_latest_def run_query_def Let_def)

lemma rest_tick_rows [simp]: "md_rows (tick m) = md_rows m" "gd_rows (tick ag) = gd_rows ag"
  by (simp_all add: tick_def)

lemma events_list_rows: "vd_rows (snd (events_list f db)) = vd_rows db"
  by (auto simp: events_list_def run_query_def split: sum.split)

lemma summary_queries_rows: "stored_data (snd (summary_queries secs s)) = stored_data s"
  by (auto simp: summary_queries_def stored_data_def case_prod_beta reads_tick split: sum.split)

lemma scope_api_rows: "stored_data (snd (scope_api env rq s)) = stored_data s"
proof -
  have "stored_data (snd (get_metrics env p rq s)) = stored_data s" for p
    by (auto simp: get_metrics_def stored_data_def case_prod_beta reads_tick split: sum.split option.split)
  moreover have "stored_data (snd (get_app_events env p rq s)) = stored_data s" for p
    by (auto simp: get_app_events_def stored_data_def case_prod_beta events_list_rows
        split: sum.split option.split)
  moreover have "stored_data (snd (get_servers env p rq s)) = stored_data s" for p
    by (auto simp: get_servers_def stored_data_def case_prod_beta reads_tick split: sum.split option.split)
  moreover have "stored_data (snd (get_summary env p rq s)) = stored_data s" for p
    using summary_queries_rows [of "range_seconds default_range" s]
    by (auto simp: get_summary_def case_prod_beta Let_def split: sum.split option.split)
  ultimately show ?thesis
    by (simp add: scope_api_def not_found_def with_principal_def split: option.split)
qed

text \<open>A 202 has stored exactly the accepted events, under the app of the key.\<close>

lemma post_events_202:
  assumes "post_events env w p rq s = (r, s')" "rp_status r = 202"
  shows "\<exists>es app. rq_events rq = Inr es \<and> pp_app_name p = Some app \<and> length es \<le> 500
    \<and> map snd (vd_rows (rt_events s')) = map snd (vd_rows (rt_events s)) @ accepted_of (validated env app es)
    \<and> rp_body r = ReportBody (length (accepted_of (validated env app es))) (errors_of (validated env app es))"
proof -
  obtain es app where e: "rq_events rq = Inr es" "pp_app_name p = Some app"
    using assms by (auto simp: post_events_def reject_forbidden_def split: sum.splits option.splits if_splits)
  obtain q ev where i: "events_insert_batch char_count (accepted_of (validated env app es)) (rt_events s) = (q, ev)"
    by force
  have "\<exists>n. q = Inr n \<and> length es \<le> 500 \<and> vd_rows (rt_events s') = vd_rows ev
      \<and> rp_body r = ReportBody n (errors_of (validated env app es))"
    using assms e i
    by (cases q) (auto simp: post_events_def reject_forbidden_def case_prod_beta Let_def
        max_events_per_request_def split: if_splits)
  then show ?thesis using e events_insert_Inr i by (metis (no_types, lifting))
qed

lemma post_events_stored:
  assumes "post_events env w p rq s = (r, s')" "rp_status r = 202"
    and "vd_rows (rt_events s') \<noteq> vd_rows (rt_events s)"
  shows "\<exists>es app. pp_app_name p = Some app \<and> accepted_of (validated env app es) \<noteq> []
    \<and> list_all (event_checks char_count) (accepted_of (validated env app es))"
proof -
  obtain es app where e: "rq_events rq = Inr es" "pp_app_name p = Some app"
    using post_events_202 [OF assms(1,2)] by blast
  obtain q ev where i: "events_insert_batch char_count (accepted_of (validated env app es)) (rt_events s) = (q, ev)"
    by force
  have "(\<exists>n. q = Inr n) \<and> vd_rows (rt_events s') = vd_rows ev"
    using assms(1,2) e i
    by (cases q) (auto simp: post_events_def reject_forbidden_def case_prod_beta Let_def split: if_splits)
  with i have "list_all (event_checks char_count) (accepted_of (validated env app es))"
    and "accepted_of (validated env app es) \<noteq> []"
    using events_insert_Inr assms(3) by (blast, fastforce simp: events_insert_batch_def)
  with e show ?thesis by blast
qed

lemma sorted_order_events: "sorted_wrt (\<lambda>a b. ae_timestamp (snd b) \<le> ae_timestamp (snd a)) (order_events rs)"
proof -
  have "sorted (map (\<lambda>r. fst (event_key r)) (order_events rs))" unfolding order_events_def by simp
  then show ?thesis by (simp add: sorted_map event_key_def)
qed

lemma sorted_wrt_page: "sorted_wrt P xs \<Longrightarrow> sorted_wrt P (take m (drop n xs))"
  by (simp add: sorted_wrt_take sorted_wrt_drop)

lemma events_list_page:
  assumes "events_list f db = (Inr (rows, tot), db')"
  shows "set rows \<subseteq> set (vd_rows db)
    \<and> sorted_wrt (\<lambda>a b. ae_timestamp (snd b) \<le> ae_timestamp (snd a)) rows
    \<and> (\<exists>now. tot = int (length (filter (\<lambda>r. filter_matches now f (snd r)) (vd_rows db))))
    \<and> (\<exists>now. \<forall>r\<in>set rows. filter_matches now f (snd r))"
proof -
  obtain now now' where rows: "rows = take (nat (ef_limit f)) (drop (nat (ef_offset f))
        (order_events (filter (\<lambda>r. filter_matches now f (snd r)) (vd_rows db))))"
    and tot: "tot = int (length (filter (\<lambda>r. filter_matches now' f (snd r)) (vd_rows db)))"
    using assms by (auto simp: events_list_def run_query_def split: sum.splits if_splits)
  have "set rows \<subseteq> set (filter (\<lambda>r. filter_matches now f (snd r)) (vd_rows db))"
    unfolding rows by (auto simp: order_events_def dest!: in_set_takeD in_set_dropD)
  then show ?thesis
    using sorted_wrt_page [OF sorted_order_events] unfolding tot by (auto simp: rows)
qed

lemma page_length:
  "events_list f db = (Inr (rows, tot), db') \<Longrightarrow> length rows \<le> nat (ef_limit f)"
  by (auto simp: events_list_def run_query_def split: sum.splits if_splits)

lemma event_filter_limit: "event_filter_of q = Inr f \<Longrightarrow> ef_limit f \<le> 200 \<and> 1 \<le> ef_limit f"
  by (auto simp: event_filter_of_def and_then_Inr_conv limit_def min_limit_def max_limit_def
      split: if_splits)

lemma events_insert_err:
  "fst (events_insert_batch chars es db) = Inl e \<Longrightarrow> vd_rows (snd (events_insert_batch chars es db)) = vd_rows db"
  using events_insert_Inl [of chars es db e] by (cases "events_insert_batch chars es db") simp

lemma post_events_change:
  "vd_rows (rt_events (snd (post_events env w p rq s))) \<noteq> vd_rows (rt_events s)
     \<Longrightarrow> rp_status (fst (post_events env w p rq s)) = 202"
  by (auto simp: post_events_def reject_forbidden_def Let_def case_prod_beta events_insert_err
      split: sum.splits option.splits if_splits)

lemma post_events_apart:
  "rt_metrics (snd (post_events env w p rq s)) = rt_metrics s"
  "rt_agents (snd (post_events env w p rq s)) = rt_agents s"
  by (auto simp: post_events_def Let_def case_prod_beta split: sum.split option.split)

lemma insert_headers_get:
  "distinct (map fst hs) \<Longrightarrow> (n, v) \<in> set hs \<Longrightarrow> insert_headers hs m n = Some v"
proof (induction hs arbitrary: m)
  case (Cons h hs)
  have keep: "n \<notin> fst ` set hs \<Longrightarrow> insert_headers hs m n = m n" for m
    unfolding insert_headers_def by (induction hs arbitrary: m) (auto simp: case_prod_beta)
  show ?case
  proof (cases "h = (n, v)")
    case True
    with Cons.prems keep [of "m(n \<mapsto> v)"] show ?thesis by (simp add: insert_headers_def)
  next
    case False
    with Cons.prems have "distinct (map fst hs)" "(n, v) \<in> set hs" by simp_all
    from Cons.IH [OF this] show ?thesis by (cases h) (simp add: insert_headers_def)
  qed
qed simp

lemma security_headers_distinct: "distinct (map fst security_headers)"
  by (simp add: security_headers_def)

definition guarded_path :: "'j http_request \<Rightarrow> bool" where
  "guarded_path rq \<longleftrightarrow>
     (in_scope ''/v1'' (rq_path rq) \<or> in_scope ''/api/v1'' (rq_path rq))
     \<and> \<not> (rq_path rq = ''/api/v1/health'' \<and> rq_method rq = GET)"

definition authenticated ::
  "('h, 'l, 'm, 'j) rest_env \<Rightarrow> 'j http_request \<Rightarrow> ('j, 'l, 'm) rest_state \<Rightarrow> principal \<Rightarrow> bool" where
  "authenticated env rq s p \<longleftrightarrow>
     (\<exists>a raw a'. check_ip_budget (re_ip_limiter env) (request_ip rq) (rt_auth s) = (Inr (), a)
        \<and> extract_key rq = Some raw
        \<and> authenticate (re_argon2 env) (re_instant env) raw a = (Inr p, a'))"

lemma in_scope_nth:
  assumes "in_scope q p" "1 < length q"
  shows "p ! 1 = q ! 1"
proof (cases "p = q")
  case False
  with assms(1) have "take (length (q @ ''/'')) p = q @ ''/''" by (auto simp: in_scope_def starts_with_def)
  then have "p ! 1 = (q @ ''/'') ! 1" using assms(2) by (metis (no_types, lifting) length_append
    nth_take trans_less_add1)
  with assms(2) show ?thesis by (simp add: nth_append)
qed simp

lemma in_scope_apart: "in_scope ''/v1'' p \<Longrightarrow> \<not> in_scope ''/api/v1'' p"
  using in_scope_nth [of "''/v1''" p] in_scope_nth [of "''/api/v1''" p] by auto

lemma configure_guarded:
  assumes "guarded_path rq"
  shows "configure_app env spa w rq =
    key_auth env (with_security_headers
      (if in_scope ''/v1'' (rq_path rq) then scope_v1 env w else scope_api env)) rq"
  using assms by (auto simp: configure_app_def guarded_path_def wrap_all_def)

lemma configure_unguarded_data:
  "\<not> guarded_path rq \<Longrightarrow> stored_data (snd (configure_app env spa w rq s)) = stored_data s"
  by (auto simp: configure_app_def guarded_path_def health_def wrap_all_def with_security_headers_def
      spa_service_def)

lemma key_auth_pass:
  assumes "authenticated env rq s p"
  shows "\<exists>a'. key_auth env inner rq s = inner (rq \<lparr> rq_principal := Some p \<rparr>) (s \<lparr> rt_auth := a' \<rparr>)"
  using assms by (auto simp: authenticated_def key_auth_def)

lemma configure_pass:
  assumes "guarded_path rq" "authenticated env rq s p"
  obtains a where "configure_app env spa w rq s = with_security_headers
    (if in_scope ''/v1'' (rq_path rq) then scope_v1 env w else scope_api env)
    (rq \<lparr> rq_principal := Some p \<rparr>) (s \<lparr> rt_auth := a \<rparr>)"
  using key_auth_pass [OF assms(2)] unfolding configure_guarded [OF assms(1)] by blast

lemma key_auth_stop:
  assumes "\<nexists>p. authenticated env rq s p"
  shows "rp_headers (fst (key_auth env inner rq s)) = Map.empty"
    "stored_data (snd (key_auth env inner rq s)) = stored_data s"
  using assms
  by (auto simp: authenticated_def key_auth_def reject_def split: prod.splits sum.splits option.splits)

section \<open>Properties\<close>

text \<open>
  C8: Whatever the request, the stored events, metrics and agents only change, and a guarded route
  only answers 200 or 202, when the per-address budget allowed the attempt, the key of the request
  authenticated, and the principal holds what the route asks for: \<open>ingest:events\<close> and an app binding
  under \<open>/v1\<close>, \<open>read:dashboard\<close> under \<open>/api/v1\<close>.
\<close>

theorem rest_requires_permission:
  assumes "rp_status (fst (configure_app env spa w rq s)) \<in> {200, 202} \<and> guarded_path rq
    \<or> stored_data (snd (configure_app env spa w rq s)) \<noteq> stored_data s"
  shows "\<exists>p. authenticated env rq s p
    \<and> (if in_scope ''/v1'' (rq_path rq) then may_ingest p else may_read p)"
proof -
  have g: "guarded_path rq" using assms configure_unguarded_data by blast
  note c = configure_guarded [OF g, of env spa w]
  show ?thesis
  proof (cases "in_scope ''/v1'' (rq_path rq)")
    case True
    have "key_auth env (with_security_headers (scope_v1 env w)) rq s
        = (fst (configure_app env spa w rq s), snd (configure_app env spa w rq s))"
      using c True by simp
    from v1.guard [OF this] assms True show ?thesis by (auto simp: authenticated_def)
  next
    case False
    have "key_auth env (with_security_headers (scope_api env)) rq s
        = (fst (configure_app env spa w rq s), snd (configure_app env spa w rq s))"
      using c False by simp
    from api.guard [OF this] assms False show ?thesis by (auto simp: authenticated_def)
  qed
qed

text \<open>
  C25: Only an accepted \<open>POST /v1/events\<close> changes what is stored, and then the answer is 202 and the
  events table has grown by exactly the events of the body that passed validation, in order, each
  under the app name of the authenticated key; metrics and agents are untouched.
\<close>

theorem stored_data_changes:
  assumes "stored_data (snd (configure_app env spa w rq s)) \<noteq> stored_data s"
  shows "\<exists>p app es. authenticated env rq s p \<and> pp_app_name p = Some app \<and> rq_events rq = Inr es
    \<and> rq_path rq = ''/v1/events'' \<and> rq_method rq = POST
    \<and> rp_status (fst (configure_app env spa w rq s)) = 202
    \<and> map snd (vd_rows (rt_events (snd (configure_app env spa w rq s)))) =
        map snd (vd_rows (rt_events s)) @ accepted_of (validated env app es)
    \<and> (\<forall>a\<in>set (accepted_of (validated env app es)). ae_app_name a = app)
    \<and> rt_metrics (snd (configure_app env spa w rq s)) = rt_metrics s
    \<and> rt_agents (snd (configure_app env spa w rq s)) = rt_agents s"
proof -
  have g: "guarded_path rq" using assms configure_unguarded_data by blast
  note c = configure_guarded [OF g, of env spa w]
  have auth: "\<exists>p. authenticated env rq s p"
  proof (rule ccontr)
    assume "\<nexists>p. authenticated env rq s p"
    from key_auth_stop(2) [OF this] assms show False by (simp add: c)
  qed
  then obtain p where p: "authenticated env rq s p" ..
  let ?rq = "rq \<lparr> rq_principal := Some p \<rparr>"
  from configure_pass [OF g p] obtain a where k: "configure_app env spa w rq s = with_security_headers
      (if in_scope ''/v1'' (rq_path rq) then scope_v1 env w else scope_api env) ?rq (s \<lparr> rt_auth := a \<rparr>)" .
  have v1: "in_scope ''/v1'' (rq_path rq)"
  proof (rule ccontr)
    assume "\<not> ?thesis"
    then have "stored_data (snd (configure_app env spa w rq s)) = stored_data (s \<lparr> rt_auth := a \<rparr>)"
      unfolding k by (simp add: with_security_headers_def case_prod_beta scope_api_rows)
    with assms show False by simp
  qed
  let ?r = "post_events env w p ?rq (s \<lparr> rt_auth := a \<rparr>)"
  have route: "rq_path rq = ''/v1/events'' \<and> rq_method rq = POST"
    and out: "snd (configure_app env spa w rq s) = snd ?r"
      "rp_status (fst (configure_app env spa w rq s)) = rp_status (fst ?r)"
    using assms v1 unfolding k
    by (auto simp: with_security_headers_def case_prod_beta scope_v1_def not_found_def with_principal_def
        split: if_splits)
  have apart: "rt_metrics (snd ?r) = rt_metrics s" "rt_agents (snd ?r) = rt_agents s"
    by (simp_all add: post_events_apart)
  have "vd_rows (rt_events (snd ?r)) \<noteq> vd_rows (rt_events s)"
    using assms apart unfolding out(1) by (auto simp: stored_data_def)
  then have st: "rp_status (fst ?r) = 202" by (intro post_events_change) simp
  obtain es app where "rq_events rq = Inr es" "pp_app_name p = Some app"
    "map snd (vd_rows (rt_events (snd ?r))) = map snd (vd_rows (rt_events s)) @ accepted_of (validated env app es)"
    using post_events_202 [of env w p ?rq "s \<lparr> rt_auth := a \<rparr>" "fst ?r" "snd ?r"] st by auto
  moreover have "\<forall>a\<in>set (accepted_of (validated env app es)). ae_app_name a = app"
    by (auto simp: accepted_of_set validated_app(1))
  ultimately show ?thesis using p route st apart unfolding out by blast
qed

text \<open>
  On a guarded route the hardening headers are on the response exactly when the request
  authenticated. The key middleware is registered after the header middleware, so it is the outer
  one, and its rejections carry no header at all.
\<close>

lemma headers_only_behind_auth:
  assumes "guarded_path rq"
  shows "if \<exists>p. authenticated env rq s p
    then \<forall>(n, v)\<in>set security_headers. rp_headers (fst (configure_app env spa w rq s)) n = Some v
    else rp_headers (fst (configure_app env spa w rq s)) = Map.empty"
proof (cases "\<exists>p. authenticated env rq s p")
  case True
  then obtain p where "authenticated env rq s p" ..
  from configure_pass [OF assms this] obtain a where "configure_app env spa w rq s = with_security_headers
      (if in_scope ''/v1'' (rq_path rq) then scope_v1 env w else scope_api env)
      (rq \<lparr> rq_principal := Some p \<rparr>) (s \<lparr> rt_auth := a \<rparr>)" .
  then have "\<forall>(n, v)\<in>set security_headers. rp_headers (fst (configure_app env spa w rq s)) n = Some v"
    using insert_headers_get [OF security_headers_distinct]
    by (auto simp: with_security_headers_def case_prod_beta)
  with True show ?thesis by simp
next
  case False
  then show ?thesis unfolding configure_guarded [OF assms] by (simp add: key_auth_stop)
qed

text \<open>
  An app name is never checked when its key is created, and an app key whose name is not
  \<open>[a-z0-9._-]\<close> of 1 to 64 characters can never store an event: the events pass validation, the table
  refuses the whole batch, and no answer reports a stored event.
\<close>

lemma ill_formed_app_stores_nothing:
  assumes "pp_app_name p = Some app" "\<not> sized_token app_name_char 64 app"
  shows "vd_rows (rt_events (snd (post_events env w p rq s))) = vd_rows (rt_events s)
    \<and> (\<exists>r. role_from_action (KeyCreate None None (Some app) None) = Inr (Some r))"
proof -
  have "vd_rows (rt_events (snd (post_events env w p rq s))) = vd_rows (rt_events s)"
  proof (rule ccontr)
    assume changed: "\<not> ?thesis"
    then have st: "rp_status (fst (post_events env w p rq s)) = 202" by (rule post_events_change)
    from post_events_stored [OF _ st changed] assms(1) obtain es where
      "accepted_of (validated env app es) \<noteq> []"
      "list_all (event_checks char_count) (accepted_of (validated env app es))"
      by (metis (no_types, lifting) option.inject prod.collapse)
    then obtain a where "a \<in> set (accepted_of (validated env app es))" "event_checks char_count a"
      by (cases "accepted_of (validated env app es)") auto
    with assms(2) show False using validated_app(2) accepted_of_set by metis
  qed
  then show ?thesis by (simp add: role_from_action_def count_chosen_def)
qed


text \<open>
  The limit of events requests is kept per worker: a request is only refused for its rate by the
  limiter of the worker that serves it, and no other worker's limiter counts it. With two workers a
  key has two budgets.
\<close>

lemma limiter_per_worker:
  assumes "v \<noteq> w"
  shows "rt_limiters (snd (post_events env w p rq s)) v = rt_limiters s v
    \<and> (fst (re_key_limiter env (rt_limiters s w) (pp_key_id p)) \<and> (\<forall>n. rq_events rq \<noteq> Inl n)
        \<longrightarrow> rp_status (fst (post_events env w p rq s)) \<noteq> 429)"
  using assms
  by (auto simp: post_events_def reject_forbidden_def Let_def case_prod_beta split: sum.split option.split)

section \<open>Instances\<close>

definition sample_raw :: string where
  "sample_raw = ''snt_0123abcd_aaaaaaaaaaaaaaaaaaaaaaaaaaaaaaaaaaaaaaaaaaa''"

definition sample_principal :: principal where
  "sample_principal =
     \<lparr> pp_key_id = ''0123abcd'', pp_permissions = {IngestEvents}, pp_agent_id = None, pp_hostname = None,
       pp_app_name = Some ''shop'' \<rparr>"

definition sample_rest_env :: "(string, unit, nat, unit) rest_env" where
  "sample_rest_env =
     \<lparr> re_argon2 = sample_argon2, re_ip_limiter = (\<lambda>l _. (True, l)),
       re_key_limiter = (\<lambda>n _. (n < 100, Suc n)), re_instant = 0, re_clock = (\<lambda>_. 0),
       re_is_object = (\<lambda>_. True), re_json_len = (\<lambda>_. Some 2), re_rfc3339 = (\<lambda>_. []),
       re_avg = (\<lambda>_. \<lparr> bm_cpu_usage_percent = Finite 0, bm_memory_used_bytes = Finite 0,
          bm_memory_total_bytes = Finite 0, bm_load_avg_1m = Finite 0, bm_load_avg_5m = Finite 0,
          bm_disk_used_bytes = Finite 0, bm_disk_total_bytes = Finite 0 \<rparr>),
       re_collate = length, re_allowed = [] \<rparr>"

definition sample_rest_state :: "principal \<Rightarrow> (unit, unit, nat) rest_state" where
  "sample_rest_state p =
     \<lparr> rt_auth = (sample_auth sample_keys_db)
         \<lparr> as_cache := \<lparr> vc_map = [''0123abcd'' \<mapsto> \<lparr> ce_principal = p, ce_inserted_at = 0 \<rparr>],
                        vc_order = [''0123abcd''] \<rparr> \<rparr>,
       rt_events = \<lparr> pg_up = (\<lambda>_. True), pg_error = (\<lambda>_. []), pg_uuid = of_nat, pg_now = int, pg_clock = 0,
         vd_rows = [], vd_row_uuid = (\<lambda>t i. of_nat i) \<rparr>,
       rt_metrics = \<lparr> pg_up = (\<lambda>_. True), pg_error = (\<lambda>_. []), pg_uuid = of_nat, pg_now = int, pg_clock = 0,
         md_rows = [] \<rparr>,
       rt_agents = \<lparr> pg_up = (\<lambda>_. True), pg_error = (\<lambda>_. []), pg_uuid = of_nat, pg_now = int, pg_clock = 0,
         gd_rows = [] \<rparr>,
       rt_limiters = (\<lambda>_. 0) \<rparr>"

definition sample_request :: "unit http_request" where
  "sample_request =
     \<lparr> rq_method = POST, rq_path = ''/v1/events'', rq_api_key = Some sample_raw, rq_authorization = None,
       rq_peer = None, rq_principal = None,
       rq_events = Inr [\<lparr> ie_event_type = ''user_login'', ie_user_id = Some ''u1'', ie_payload = (),
                          ie_timestamp = 0 \<rparr>],
       rq_metrics_query = Inl 0,
       rq_events_query = Inr \<lparr> eq_app = None, eq_type = None, eq_range = None, eq_limit = None, eq_offset = None \<rparr> \<rparr>"

definition sample_spa :: spa_files where
  "sample_spa = \<lparr> sp_exists = False, sp_file = (\<lambda>_. None), sp_index = None \<rparr>"

lemma sample_key: "parse_key_id sample_raw = Some ''0123abcd''"
  by code_simp

lemma sample_authenticated:
  "rq_api_key rq = Some sample_raw \<Longrightarrow> authenticated sample_rest_env rq (sample_rest_state p) p"
  by (simp add: authenticated_def check_ip_budget_def sample_rest_env_def sample_rest_state_def
      sample_auth_def extract_key_def authenticate_hit [OF sample_key] cache_get_def entry_fresh_def)

lemma sample_event:
  "validated sample_rest_env ''shop'' [\<lparr> ie_event_type = ''user_login'', ie_user_id = Some ''u1'',
      ie_payload = (), ie_timestamp = 0 \<rparr>] =
    [Inr \<lparr> ae_app_name = ''shop'', ae_event_type = ''user_login'', ae_user_id = Some ''u1'',
      ae_payload = (), ae_timestamp = 0 \<rparr>]"
  by code_simp

lemma sample_event_checks:
  "event_checks char_count \<lparr> ae_app_name = ''shop'', ae_event_type = ''user_login'',
      ae_user_id = Some ''u1'', ae_payload = (), ae_timestamp = 0 \<rparr>"
  by code_simp

lemma sample_guarded: "guarded_path sample_request" "in_scope ''/v1'' ''/v1/events''"
  by code_simp+

lemma sample_posted:
  "rp_status (fst (post_events sample_rest_env 0 sample_principal
      (sample_request \<lparr> rq_principal := Some sample_principal \<rparr>)
      ((sample_rest_state sample_principal) \<lparr> rt_auth := a \<rparr>))) = 202"
  "vd_rows (rt_events (snd (post_events sample_rest_env 0 sample_principal
      (sample_request \<lparr> rq_principal := Some sample_principal \<rparr>)
      ((sample_rest_state sample_principal) \<lparr> rt_auth := a \<rparr>)))) \<noteq> []"
proof -
  have lim: "re_key_limiter sample_rest_env 0 k = (True, 1)" for k by (simp add: sample_rest_env_def)
  note unf = post_events_def sample_request_def sample_principal_def sample_event sample_event_checks lim
    max_events_per_request_def max_events_per_request_def events_insert_batch_def run_query_def Let_def
    sample_rest_state_def errors_of_def map_filter_simps tick_def
  show "rp_status (fst (post_events sample_rest_env 0 sample_principal
      (sample_request \<lparr> rq_principal := Some sample_principal \<rparr>)
      ((sample_rest_state sample_principal) \<lparr> rt_auth := a \<rparr>))) = 202"
    by (simp add: unf)
  show "vd_rows (rt_events (snd (post_events sample_rest_env 0 sample_principal
      (sample_request \<lparr> rq_principal := Some sample_principal \<rparr>)
      ((sample_rest_state sample_principal) \<lparr> rt_auth := a \<rparr>)))) \<noteq> []"
    by (simp add: unf)
qed

lemma sample_changed:
  "rp_status (fst (configure_app sample_rest_env sample_spa 0 sample_request
      (sample_rest_state sample_principal))) = 202"
  "stored_data (snd (configure_app sample_rest_env sample_spa 0 sample_request
      (sample_rest_state sample_principal))) \<noteq> stored_data (sample_rest_state sample_principal)"
proof -
  have key: "rq_api_key sample_request = Some sample_raw" by (simp add: sample_request_def)
  obtain a where c: "configure_app sample_rest_env sample_spa 0 sample_request (sample_rest_state sample_principal)
    = with_security_headers (scope_v1 sample_rest_env 0) (sample_request \<lparr> rq_principal := Some sample_principal \<rparr>)
        ((sample_rest_state sample_principal) \<lparr> rt_auth := a \<rparr>)"
    using configure_pass [OF sample_guarded(1) sample_authenticated [OF key, of sample_principal],
      of sample_spa 0] sample_guarded(2) by (auto simp: sample_request_def)
  have route: "scope_v1 sample_rest_env 0 (sample_request \<lparr> rq_principal := Some sample_principal \<rparr>) =
    post_events sample_rest_env 0 sample_principal (sample_request \<lparr> rq_principal := Some sample_principal \<rparr>)"
    by (rule ext) (simp add: scope_v1_def sample_request_def with_principal_def)
  show "rp_status (fst (configure_app sample_rest_env sample_spa 0 sample_request
      (sample_rest_state sample_principal))) = 202"
    unfolding c by (simp add: with_security_headers_def case_prod_beta route sample_posted)
  have "vd_rows (rt_events (sample_rest_state sample_principal)) = []"
    by (simp add: sample_rest_state_def)
  with sample_posted(2) [of a] show "stored_data (snd (configure_app sample_rest_env sample_spa 0 sample_request
      (sample_rest_state sample_principal))) \<noteq> stored_data (sample_rest_state sample_principal)"
    unfolding c by (simp add: with_security_headers_def case_prod_beta route stored_data_def)
qed

theorem rest_requires_permission_witness:
  "\<exists>p. authenticated sample_rest_env sample_request (sample_rest_state sample_principal) p \<and> may_ingest p"
  using rest_requires_permission [of sample_rest_env sample_spa 0 sample_request
      "sample_rest_state sample_principal"] sample_changed(2) sample_guarded(2)
  by (auto simp: sample_request_def)

theorem stored_data_changes_witness:
  "rq_path sample_request = ''/v1/events'' \<and> rp_status (fst (configure_app sample_rest_env sample_spa 0
      sample_request (sample_rest_state sample_principal))) = 202"
  using stored_data_changes [OF sample_changed(2)] by blast

lemma headers_only_behind_auth_witness:
  "rp_headers (fst (configure_app sample_rest_env sample_spa 0 (sample_request \<lparr> rq_api_key := None \<rparr>)
      (sample_rest_state sample_principal))) = Map.empty"
proof -
  have "guarded_path (sample_request \<lparr> rq_api_key := None \<rparr>)"
    using sample_guarded(1) by (simp add: guarded_path_def)
  moreover have "\<not> authenticated sample_rest_env (sample_request \<lparr> rq_api_key := None \<rparr>)
      (sample_rest_state sample_principal) p" for p
    by (simp add: authenticated_def extract_key_def sample_request_def)
  ultimately show ?thesis
    using headers_only_behind_auth [of "sample_request \<lparr> rq_api_key := None \<rparr>" sample_rest_env
        "sample_rest_state sample_principal" sample_spa 0] by simp
qed

lemma ill_formed_app_stores_nothing_witness:
  "vd_rows (rt_events (snd (post_events sample_rest_env 0 (sample_principal \<lparr> pp_app_name := Some ''My Shop'' \<rparr>)
      sample_request (sample_rest_state sample_principal)))) = []"
proof -
  have "\<not> sized_token app_name_char 64 ''My Shop''" by code_simp
  with ill_formed_app_stores_nothing [of "sample_principal \<lparr> pp_app_name := Some ''My Shop'' \<rparr>" "''My Shop''"
      sample_rest_env 0 sample_request "sample_rest_state sample_principal"]
  show ?thesis by (simp add: sample_rest_state_def)
qed


lemma limiter_per_worker_witness:
  "rt_limiters (snd (post_events sample_rest_env 1 sample_principal sample_request
      (sample_rest_state sample_principal))) 0 = 0"
  using limiter_per_worker [of 0 1 sample_rest_env sample_principal sample_request
      "sample_rest_state sample_principal"]
  by (simp add: sample_rest_state_def)

end
