(* ===== verification/Parsers.thy ===== *)
theory Parsers
  imports LogEntry Float64
begin

text \<open>
  The log-line parsers \<open>src/src/log_scanner/parser/nginx.rs\<close> and \<open>auth.rs\<close>. A compiled pattern
  of the regex crate is an argument that maps a text to the captures of its named groups, \<open>None\<close>
  when it does not match; a group outside every optional part of the pattern is captured whenever
  the pattern matches, so it is a plain string. chrono's format parser is an argument too.
\<close>

section \<open>nginx access logs\<close>

record nginx_caps =
  nc_remote_addr :: string
  nc_time_local :: string
  nc_request :: string
  nc_status :: string
  nc_body_bytes_sent :: string
  nc_http_referer :: string
  nc_http_user_agent :: string
  nc_host :: "string option"
  nc_request_time :: "string option"

type_synonym nginx_re = "string \<Rightarrow> nginx_caps option"

text \<open>\<open>DateTime::parse_from_str(text, format)\<close> of chrono.\<close>

type_synonym time_parser = "string \<Rightarrow> string \<Rightarrow> datetime option"

definition parse_nginx_timestamp :: "time_parser \<Rightarrow> string \<Rightarrow> parse_error + datetime" where
  "parse_nginx_timestamp chrono s =
     ok_or (InvalidValue ''time_local'' s) (chrono ''%d/%b/%Y:%H:%M:%S %z'' s)"

definition classify_status :: "16 word \<Rightarrow> log_level" where
  "classify_status status =
     (let s = unat status
      in if 100 \<le> s \<and> s \<le> 399 then Info
         else if 500 \<le> s \<and> s \<le> 599 then Error
         else Warn)"

text \<open>The cast of \<open>$request_time * 1000\<close>; out-of-range values saturate.\<close>

definition request_time_ms :: "string \<Rightarrow> 64 word option" where
  "request_time_ms s =
     map_option (\<lambda>rt.
       case f64_round (f64_times rt 1000) of
         Fin ms \<Rightarrow> if 0 \<le> ms \<and> ms < 2 ^ 64 then of_int \<lfloor>ms\<rfloor> else - 1
       | Inf \<Rightarrow> - 1)
     (parse_f64 s)"

definition request_parts :: "string \<Rightarrow> string option \<times> string option" where
  "request_parts req =
     (case splitn 3 (CHR '' '') req of
        m # p # _ \<Rightarrow> (Some m, Some p)
      | _ \<Rightarrow> (None, None))"

definition nginx_metadata ::
  "nginx_caps \<Rightarrow> ip_addr \<Rightarrow> 16 word \<Rightarrow> 64 word \<Rightarrow> log_metadata" where
  "nginx_metadata caps addr status bytes =
     (let (m, p) = request_parts (nc_request caps)
      in \<lparr> md_client_ip = Some addr, md_request_method = m, md_request_path = p,
           md_status_code = Some status, md_bytes_sent = Some bytes,
           md_response_time_ms = Option.bind (nc_request_time caps) request_time_ms,
           md_user_agent = Some (nc_http_user_agent caps),
           md_referer = Some (nc_http_referer caps),
           md_virtual_host =
             (case nc_host caps of Some h \<Rightarrow> if h \<noteq> ''-'' then Some h else None | None \<Rightarrow> None),
           md_upstream_service = None \<rparr>)"

definition nginx_message :: "log_metadata \<Rightarrow> 16 word \<Rightarrow> string" where
  "nginx_message md status =
     unwrap_or [] (md_request_method md) @ '' '' @ unwrap_or [] (md_request_path md) @ '' ''
     @ show_nat (unat status)"

definition nginx_parse ::
  "nginx_re \<Rightarrow> time_parser \<Rightarrow> string \<Rightarrow> parse_error + parsed_log_entry option" where
  "nginx_parse re chrono input =
     (let line = trim input
      in if line = [] then Inr None
         else
           and_then (ok_or (InvalidFormat (line @ '' - line does not match nginx combined format''))
             (re line)) (\<lambda>caps.
           and_then (ok_or (InvalidValue ''remote_addr'' (nc_remote_addr caps))
             (parse_ip (nc_remote_addr caps))) (\<lambda>addr.
           and_then (parse_nginx_timestamp chrono (nc_time_local caps)) (\<lambda>ts.
           and_then (ok_or (InvalidValue ''status'' (nc_status caps))
             (map_option of_nat (parse_uint 65535 (nc_status caps)))) (\<lambda>status.
           and_then (ok_or (InvalidValue ''body_bytes_sent'' (nc_body_bytes_sent caps))
             (map_option of_nat (parse_uint (2 ^ 64 - 1) (nc_body_bytes_sent caps)))) (\<lambda>bytes.
             let md = nginx_metadata caps addr status bytes
             in Inr (Some
                  \<lparr> pe_timestamp = ts, pe_source_name = ''nginx-access'',
                    pe_level = classify_status status, pe_message = nginx_message md status,
                    pe_raw = line, pe_metadata = md \<rparr>)))))))"

section \<open>Syslog authentication logs\<close>

record auth_res =
  iso_syslog_re :: "string \<Rightarrow> (string \<times> string \<times> string) option"
  syslog_timestamp_re :: "string \<Rightarrow> (string \<times> string \<times> string \<times> string \<times> string) option"
  ssh_failed_re :: "string \<Rightarrow> string option"
  ssh_accepted_re :: "string \<Rightarrow> string option"

definition parse_syslog_timestamp ::
  "time_parser \<Rightarrow> int \<Rightarrow> string \<Rightarrow> string \<Rightarrow> string \<Rightarrow> parse_error + datetime" where
  "parse_syslog_timestamp chrono year month day tm =
     (let s = month @ '' '' @ day @ '' '' @ show_int year @ '' '' @ tm
      in ok_or (InvalidValue ''timestamp'' s) (chrono ''%b %d %Y %H:%M:%S'' s))"

definition classify_auth_message :: "auth_res \<Rightarrow> string \<Rightarrow> log_level \<times> ip_addr option" where
  "classify_auth_message re message =
     (case ssh_failed_re re message of
        Some ip \<Rightarrow> (Security, parse_ip ip)
      | None \<Rightarrow>
          (case ssh_accepted_re re message of
             Some ip \<Rightarrow> (Info, parse_ip ip)
           | None \<Rightarrow>
               if contains message ''error'' \<or> contains message ''failed'' then (Error, None)
               else if contains message ''warning'' \<or> contains message ''invalid'' then (Warn, None)
               else (Info, None)))"

text \<open>\<open>rfc3339\<close> is chrono's \<open>parse_from_rfc3339\<close>, \<open>year\<close> the current year.\<close>

definition auth_parse ::
  "auth_res \<Rightarrow> (string \<Rightarrow> datetime option) \<Rightarrow> time_parser \<Rightarrow> int \<Rightarrow> string \<Rightarrow>
   parse_error + parsed_log_entry option" where
  "auth_parse re rfc3339 chrono year input =
     (let line = trim input
      in if line = [] then Inr None
         else
           and_then
             (case iso_syslog_re re line of
                Some (ts_str, service, message) \<Rightarrow>
                  and_then (ok_or (InvalidValue ''timestamp'' ts_str) (rfc3339 ts_str)) (\<lambda>ts.
                    Inr (ts, service, message))
              | None \<Rightarrow>
                  (case syslog_timestamp_re re line of
                     Some (month, day, tm, service, message) \<Rightarrow>
                       and_then (parse_syslog_timestamp chrono year month day tm) (\<lambda>ts.
                         Inr (ts, service, message))
                   | None \<Rightarrow> Inl (InvalidFormat ''line does not match syslog format'')))
           (\<lambda>(ts, service, message).
             case classify_auth_message re message of (level, ip) \<Rightarrow>
               Inr (Some
                 \<lparr> pe_timestamp = ts, pe_source_name = ''auth-log'', pe_level = level,
                   pe_message = ''['' @ service @ ''] '' @ message, pe_raw = line,
                   pe_metadata = default_metadata \<lparr> md_client_ip := ip \<rparr> \<rparr>)))"

section \<open>What a parsed entry satisfies\<close>

lemma nginx_parse_Some:
  assumes "nginx_parse re chrono input = Inr (Some e)"
  obtains caps addr ts n m where
    "trim input \<noteq> []" "re (trim input) = Some caps"
    "parse_ip (nc_remote_addr caps) = Some addr"
    "chrono ''%d/%b/%Y:%H:%M:%S %z'' (nc_time_local caps) = Some ts"
    "parse_uint 65535 (nc_status caps) = Some n"
    "parse_uint (2 ^ 64 - 1) (nc_body_bytes_sent caps) = Some m"
    "e = \<lparr> pe_timestamp = ts, pe_source_name = ''nginx-access'',
           pe_level = classify_status (of_nat n),
           pe_message = nginx_message (nginx_metadata caps addr (of_nat n) (of_nat m)) (of_nat n),
           pe_raw = trim input, pe_metadata = nginx_metadata caps addr (of_nat n) (of_nat m) \<rparr>"
  using assms
  by (auto simp: nginx_parse_def Let_def parse_nginx_timestamp_def shape_simps split: if_splits)

text \<open>The addresses in an entry are whole ones, as their type in the code has it.\<close>

definition entry_ip_ok :: "parsed_log_entry \<Rightarrow> bool" where
  "entry_ip_ok e \<longleftrightarrow> (\<forall>ip. md_client_ip (pe_metadata e) = Some ip \<longrightarrow> ip_ok ip)"

lemma nginx_parse_ip_ok: "nginx_parse re chrono input = Inr (Some e) \<Longrightarrow> entry_ip_ok e"
  by (erule nginx_parse_Some) (auto simp: entry_ip_ok_def nginx_metadata_def case_prod_beta parse_ip_ok)

lemma auth_parse_ip_ok: "auth_parse re rfc3339 chrono year input = Inr (Some e) \<Longrightarrow> entry_ip_ok e"
  by (auto simp: auth_parse_def Let_def shape_simps entry_ip_ok_def classify_auth_message_def
      default_metadata_def parse_ip_ok split: if_splits option.splits prod.splits)

lemma nginx_parse_None: "nginx_parse re chrono input = Inr None \<longleftrightarrow> trim input = []"
  by (auto simp: nginx_parse_def Let_def shape_simps split: if_splits)

lemma splitn_three:
  "splitn 3 (CHR '' '') s =
     (case split_once s (CHR '' '') of
        None \<Rightarrow> [s]
      | Some (a, b) \<Rightarrow>
          a # (case split_once b (CHR '' '') of None \<Rightarrow> [b] | Some (c, d) \<Rightarrow> [c, d]))"
  by (simp add: numeral_3_eq_3 split: option.splits prod.splits)

lemma request_parts_eq:
  "request_parts req =
     (case split_once req (CHR '' '') of
        None \<Rightarrow> (None, None)
      | Some (m, r) \<Rightarrow>
          (Some m, Some (case split_once r (CHR '' '') of None \<Rightarrow> r | Some (p, _) \<Rightarrow> p)))"
  by (auto simp: request_parts_def splitn_three split: option.splits prod.splits)

lemma nginx_metadata_sel [simp]:
  "md_client_ip (nginx_metadata caps addr status bytes) = Some addr"
  "md_status_code (nginx_metadata caps addr status bytes) = Some status"
  "md_bytes_sent (nginx_metadata caps addr status bytes) = Some bytes"
  "md_user_agent (nginx_metadata caps addr status bytes) = Some (nc_http_user_agent caps)"
  "md_referer (nginx_metadata caps addr status bytes) = Some (nc_http_referer caps)"
  "md_response_time_ms (nginx_metadata caps addr status bytes) =
     Option.bind (nc_request_time caps) request_time_ms"
  "md_request_method (nginx_metadata caps addr status bytes) = fst (request_parts (nc_request caps))"
  "md_request_path (nginx_metadata caps addr status bytes) = snd (request_parts (nc_request caps))"
  by (simp_all add: nginx_metadata_def split: prod.splits)

text \<open>The request line \<open>METHOD PATH PROTOCOL\<close> is taken apart as nginx wrote it.\<close>

lemma request_parts_line:
  assumes "CHR '' '' \<notin> set m" "CHR '' '' \<notin> set p"
  shows "request_parts (m @ '' '' @ p @ '' '' @ proto) = (Some m, Some p)"
proof -
  have "split_once (m @ '' '' @ p @ '' '' @ proto) (CHR '' '') = Some (m, p @ '' '' @ proto)"
    using assms(1) by (simp add: split_once_Some)
  moreover have "split_once (p @ '' '' @ proto) (CHR '' '') = Some (p, proto)"
    using assms(2) by (simp add: split_once_Some)
  ultimately show ?thesis unfolding request_parts_eq by simp
qed

section \<open>Response times\<close>

lemma list_all_digits_append [simp]:
  "list_all is_ascii_digit (a @ b) \<longleftrightarrow> list_all is_ascii_digit a \<and> list_all is_ascii_digit b"
  by (rule list_all_append)

lemma split_once_digits:
  assumes "list_all is_ascii_digit a"
  shows "split_once (a @ ''.'' @ b) (CHR ''.'') = Some (a, b)"
proof -
  have "\<not> is_ascii_digit (CHR ''.'')" by (simp add: is_ascii_digit_def in_range_def byte_def)
  with assms have "CHR ''.'' \<notin> set a" by (auto simp: list_all_iff)
  then show ?thesis by (simp add: split_once_Some)
qed

lemma parse_f64_millis:
  assumes "list_all is_ascii_digit a" "list_all is_ascii_digit b" "length b = 3"
  shows "parse_f64 (a @ ''.'' @ b) = Some (to_f64 (of_nat (digits_val (a @ b)) / 1000))"
proof -
  have "b \<noteq> []" using assms(3) by auto
  then show ?thesis
    unfolding parse_f64_def split_once_digits [OF assms(1)] using assms by simp
qed

text \<open>A time printed with millisecond precision is stored as exactly that many milliseconds.\<close>

lemma request_time_exact:
  assumes "list_all is_ascii_digit a" "list_all is_ascii_digit b" "length b = 3"
    and "digits_val (a @ b) < 2 ^ 50"
  shows "request_time_ms (a @ ''.'' @ b) = Some (of_nat (digits_val (a @ b)))"
proof -
  let ?n = "digits_val (a @ b)"
  have "f64_round (f64_times (to_f64 (of_nat ?n / 1000)) 1000) = Fin (of_nat ?n)"
    by (rule f64_scale_exact) (use assms(4) in simp_all)
  moreover have "(of_nat ?n :: rat) < 2 ^ 64"
    using assms(4) of_nat_less_iff [of ?n "2 ^ 64", where ?'a = rat] by simp
  ultimately show ?thesis
    unfolding request_time_ms_def parse_f64_millis [OF assms(1-3)] by simp
qed

section \<open>Authentication messages\<close>

lemma auth_parse_Some:
  assumes "auth_parse re rfc chrono year input = Inr (Some e)"
  obtains ts service message where
    "pe_timestamp e = ts" "pe_source_name e = ''auth-log''" "pe_raw e = trim input"
    "pe_message e = ''['' @ service @ ''] '' @ message"
    "pe_level e = fst (classify_auth_message re message)"
    "md_client_ip (pe_metadata e) = snd (classify_auth_message re message)"
  using assms
  by (auto simp: auth_parse_def Let_def shape_simps case_prod_beta split: if_splits option.splits)

lemma classify_auth_ip:
  "snd (classify_auth_message re m) = Some ip \<Longrightarrow>
   ssh_failed_re re m \<noteq> None \<or> ssh_accepted_re re m \<noteq> None"
  by (auto simp: classify_auth_message_def split: option.splits if_splits)

lemma classify_auth_security:
  "fst (classify_auth_message re m) = Security \<longleftrightarrow> ssh_failed_re re m \<noteq> None"
  by (auto simp: classify_auth_message_def split: option.splits if_splits)

text \<open>
  Response times are exact. For an accepted access-log line whose request time is printed with
  millisecond precision, as nginx prints it, the stored response time is exactly that number of
  milliseconds, although it goes through a product of floating-point numbers. The bound is far above
  any real time: 2 to the 50 milliseconds.
\<close>

lemma response_times_are_exact:
  assumes "nginx_parse re chrono input = Inr (Some e)" "re (trim input) = Some caps"
    and "nc_request_time caps = Some (a @ ''.'' @ b)"
    and "list_all is_ascii_digit a" "list_all is_ascii_digit b" "length b = 3" "digits_val (a @ b) < 2 ^ 50"
  shows "md_response_time_ms (pe_metadata e) = Some (of_nat (digits_val (a @ b)))"
proof -
  from assms(1) obtain caps' addr n m where "re (trim input) = Some caps'"
    "pe_metadata e = nginx_metadata caps' addr (of_nat n) (of_nat m)"
    by (rule nginx_parse_Some) simp
  with assms(2,3) request_time_exact [OF assms(4-7)] show ?thesis by simp
qed

definition sample_caps :: nginx_caps where
  "sample_caps =
     \<lparr> nc_remote_addr = ''10.0.0.1'', nc_time_local = ''t'', nc_request = ''GET / HTTP/1.1'', nc_status = ''200'',
       nc_body_bytes_sent = ''7'', nc_http_referer = ''-'', nc_http_user_agent = ''-'', nc_host = None,
       nc_request_time = Some ''1.005'' \<rparr>"

lemma response_times_are_exact_witness:
  "map_sum id (map_option (md_response_time_ms \<circ> pe_metadata))
     (nginx_parse (\<lambda>_. Some sample_caps) (\<lambda>_ _. Some 0) ''x'') = Inr (Some (Some 1005))"
proof -
  have t: "trim ''x'' = ''x''" by (rule trim_visible) (simp add: visible_def in_range_def byte_def)
  have ip: "parse_ip ''10.0.0.1'' = Some (V4 10 0 0 1)" by code_simp
  have u: "parse_uint m ''200'' = (if 200 \<le> m then Some 200 else None)"
    "parse_uint m ''7'' = (if 7 \<le> m then Some 7 else None)" for m
    by (simp_all add: parse_uint_def digits_val_def is_ascii_digit_def in_range_def byte_def)
  have "\<exists>e. nginx_parse (\<lambda>_. Some sample_caps) (\<lambda>_ _. Some 0) ''x'' = Inr (Some e)"
    by (simp add: nginx_parse_def t sample_caps_def ip u parse_nginx_timestamp_def Let_def)
  then obtain e where e: "nginx_parse (\<lambda>_. Some sample_caps) (\<lambda>_ _. Some 0) ''x'' = Inr (Some e)" by blast
  have d: "list_all is_ascii_digit ''1''" "list_all is_ascii_digit ''005''" "digits_val (''1'' @ ''005'') = 1005"
    by (simp_all add: digits_val_def is_ascii_digit_def in_range_def byte_def)
  from response_times_are_exact [OF e refl, of "''1''" "''005''"] d
  have "md_response_time_ms (pe_metadata e) = Some 1005" by (simp add: sample_caps_def)
  with e show ?thesis by simp
qed

end
