(* ===== verification/Patterns.thy ===== *)
theory Patterns
  imports LogEntry
begin

text \<open>
  The threat taxonomy of \<open>src/src/log_scanner/classifier/mod.rs\<close> and the pattern table of
  \<open>src/src/log_scanner/classifier/patterns.rs\<close>, one list per category in the order of the table.
  The characters that the notation of a string literal cannot hold are written by their code.
\<close>

datatype threat_category =
    SqlInjection | Xss | PathTraversal | CommandInjection | BruteForce | Scanner
  | SensitiveFile | TlsError | SuspiciousPattern

datatype pattern_scope = Text | Path | TextAndPath | UserAgent | PathPrefix

record pattern_rule =
  pr_category :: threat_category
  pr_scope :: pattern_scope
  pr_pattern :: string

definition rule :: "threat_category \<Rightarrow> pattern_scope \<Rightarrow> string \<Rightarrow> pattern_rule" where
  "rule c sc p = \<lparr> pr_category = c, pr_scope = sc, pr_pattern = p \<rparr>"

section \<open>The table\<close>

definition command_rules :: "pattern_rule list" where
  "command_rules =
     map (rule CommandInjection TextAndPath)
       [ '';cat '',
         '';ls '',
         '';whoami'',
         '';id '',
         '';rm '',
         ''|grep'',
         ''|cat '',
         [CHR 0x60] @ ''whoami'' @ [CHR 0x60],
         [CHR 0x60] @ ''id'' @ [CHR 0x60],
         ''$(wget'',
         ''$(curl'',
         ''$(cat '',
         '';wget '',
         '';curl '',
         '';nc '',
         '';bash '',
         '';sh '',
         '';python '',
         '';perl '',
         '';ruby '',
         '';php '' ]"

definition sql_rules :: "pattern_rule list" where
  "sql_rules =
     map (rule SqlInjection TextAndPath)
       [ [CHR 0x27] @ '' or '' @ [CHR 0x27],
         [CHR 0x27] @ '' or 1'',
         '' or 1=1'',
         '' or '' @ [CHR 0x27] @ ''1'' @ [CHR 0x27] @ ''='' @ [CHR 0x27] @ ''1'',
         ''union select'',
         ''union all select'',
         ''drop table'',
         ''drop database'',
         ''insert into'',
         ''delete from'',
         ''update .* set'',
         ''exec xp_'',
         ''exec sp_'',
         [CHR 0x27] @ '';--'',
         [CHR 0x27] @ ''--'',
         ''admin'' @ [CHR 0x27] @ ''--'',
         ''1; drop'',
         ''1 and 1=1'',
         ''1'' @ [CHR 0x27] @ '' and '' @ [CHR 0x27] @ ''1'' @ [CHR 0x27] @ ''='' @ [CHR 0x27] @ ''1'' ]"

definition xss_rules :: "pattern_rule list" where
  "xss_rules =
     map (rule Xss TextAndPath)
       [ ''<script'',
         ''javascript:'',
         ''onerror='',
         ''onload='',
         ''onclick='',
         ''onmouseover='',
         ''<img src='',
         ''<svg '',
         ''<iframe'',
         ''alert('',
         ''document.cookie'',
         ''eval('' ]"

definition traversal_rules :: "pattern_rule list" where
  "traversal_rules =
     map (rule PathTraversal Path)
       [ ''../'',
         ''..'' @ [CHR 0x5C],
         ''..%2f'',
         ''..%5c'',
         ''%2e%2e/'',
         ''....//'',
         ''/etc/passwd'',
         ''/etc/shadow'',
         ''/proc/self'',
         ''php://filter'',
         ''php://input'',
         ''file://'' ]"

definition brute_force_rules :: "pattern_rule list" where
  "brute_force_rules =
     map (rule BruteForce Text)
       [ ''failed password'',
         ''authentication failure'',
         ''invalid user'',
         ''maximum authentication attempts'',
         ''too many authentication failures'',
         ''access denied'',
         ''login failed'' ]"

definition scanner_rules :: "pattern_rule list" where
  "scanner_rules =
     map (rule Scanner UserAgent)
       [ ''sqlmap'',
         ''nikto'',
         ''nmap'',
         ''masscan'',
         ''hydra'',
         ''medusa'',
         ''burp suite'',
         ''dirbuster'',
         ''gobuster'',
         ''wpscan'',
         ''nuclei'',
         ''ffuf'',
         ''feroxbuster'',
         ''w3af'' ]"

definition sensitive_file_rules :: "pattern_rule list" where
  "sensitive_file_rules =
     map (rule SensitiveFile PathPrefix)
       [ ''/.env'',
         ''/.git'',
         ''/.htaccess'',
         ''/.htpasswd'',
         ''/wp-config.php'',
         ''/config/database.yml'',
         ''/config/database.yaml'',
         ''/config/secrets.yml'',
         ''/.aws/credentials'',
         ''/.ssh/id_rsa'',
         ''/proc/self/environ'',
         ''/boot.ini'',
         ''/web.config'',
         ''/phpinfo.php'',
         ''/server-status'',
         ''/.svn'',
         ''/.ds_store'' ]"

definition tls_rules :: "pattern_rule list" where
  "tls_rules =
     map (rule TlsError Text)
       [ ''ssl_do_handshake'',
         ''ssl_error'',
         ''certificate verify failed'',
         ''tls alert'',
         ''handshake failure'' ]"

definition pattern_rules :: "pattern_rule list" where
  "pattern_rules =
     command_rules @ sql_rules @ xss_rules @ traversal_rules @ brute_force_rules
     @ scanner_rules @ sensitive_file_rules @ tls_rules"

lemmas table_defs =
  pattern_rules_def command_rules_def sql_rules_def xss_rules_def traversal_rules_def
  brute_force_rules_def scanner_rules_def sensitive_file_rules_def tls_rules_def

section \<open>Matching\<close>

definition rule_matches :: "pattern_rule \<Rightarrow> string \<Rightarrow> string \<Rightarrow> string option \<Rightarrow> bool" where
  "rule_matches r text path user_agent =
     (case pr_scope r of
        Text \<Rightarrow> contains text (pr_pattern r)
      | Path \<Rightarrow> contains path (pr_pattern r)
      | TextAndPath \<Rightarrow> contains text (pr_pattern r) \<or> contains path (pr_pattern r)
      | UserAgent \<Rightarrow> (case user_agent of Some ua \<Rightarrow> contains ua (pr_pattern r) | None \<Rightarrow> False)
      | PathPrefix \<Rightarrow> path = pr_pattern r \<or> starts_with path (pr_pattern r))"

lemma rule_sel [simp]:
  "pr_category (rule c sc p) = c" "pr_scope (rule c sc p) = sc" "pr_pattern (rule c sc p) = p"
  by (simp_all add: rule_def)

text \<open>Every pattern is written in characters that lower-casing leaves alone.\<close>

definition lowercase_ascii :: "string \<Rightarrow> bool" where
  "lowercase_ascii s = list_all (\<lambda>c. is_ascii c \<and> \<not> is_ascii_uppercase c) s"

lemma to_lowercase_pattern: "lowercase_ascii s \<Longrightarrow> to_lowercase ulow s = s"
  unfolding lowercase_ascii_def by (rule to_lowercase_fixed)

lemma table_lowercase: "list_all (\<lambda>r. lowercase_ascii (pr_pattern r)) pattern_rules"
  by code_simp

lemma table_nonempty: "list_all (\<lambda>r. pr_pattern r \<noteq> []) pattern_rules"
  by code_simp

text \<open>The scope is a function of the category.\<close>

fun scope_of :: "threat_category \<Rightarrow> pattern_scope" where
  "scope_of CommandInjection = TextAndPath"
| "scope_of SqlInjection = TextAndPath"
| "scope_of Xss = TextAndPath"
| "scope_of PathTraversal = Path"
| "scope_of BruteForce = Text"
| "scope_of Scanner = UserAgent"
| "scope_of SensitiveFile = PathPrefix"
| "scope_of TlsError = Text"
| "scope_of SuspiciousPattern = Path"

lemma table_scopes: "list_all (\<lambda>r. pr_scope r = scope_of (pr_category r)) pattern_rules"
  by code_simp

lemma table_categories: "list_all (\<lambda>r. pr_category r \<noteq> SuspiciousPattern) pattern_rules"
  by code_simp

text \<open>A rule that matches keeps matching when the searched texts grow at the end.\<close>

lemma rule_matches_mono:
  assumes "rule_matches r text path ua"
  shows "rule_matches r (text @ t) (path @ p) (map_option (\<lambda>u. u @ a) ua)"
  using assms
  by (auto simp: rule_matches_def contains_append1 starts_with_iff split: pattern_scope.splits option.splits)

end
