(* ===== verification/Classifier.thy ===== *)
theory Classifier
  imports Patterns Float64
begin

text \<open>
  The threat classifier, \<open>src/src/log_scanner/classifier/mod.rs\<close>: the ordered threat levels, the
  categories found by the pattern table and by two heuristics, the level and the confidence derived
  from them. The confidence is the \<open>f64\<close> the code computes.
\<close>

section \<open>Threat levels\<close>

datatype threat_level = ThreatNone | Low | Medium | High | ThreatCritical

fun level_rank :: "threat_level \<Rightarrow> nat" where
  "level_rank ThreatNone = 0"
| "level_rank Low = 1"
| "level_rank Medium = 2"
| "level_rank High = 3"
| "level_rank ThreatCritical = 4"

lemma level_rank_inject [simp]: "level_rank a = level_rank b \<longleftrightarrow> a = b"
  by (cases a; cases b) simp_all

text \<open>The derived \<open>Ord\<close>: declaration order.\<close>

instantiation threat_level :: linorder
begin

definition less_eq_threat_level :: "threat_level \<Rightarrow> threat_level \<Rightarrow> bool" where
  "less_eq_threat_level a b \<longleftrightarrow> level_rank a \<le> level_rank b"

definition less_threat_level :: "threat_level \<Rightarrow> threat_level \<Rightarrow> bool" where
  "less_threat_level a b \<longleftrightarrow> level_rank a < level_rank b"

instance
  by standard (auto simp: less_eq_threat_level_def less_threat_level_def)

end

instantiation threat_level :: order_bot
begin

definition bot_threat_level :: threat_level where
  "bot_threat_level = ThreatNone"

instance
  by standard (simp add: bot_threat_level_def less_eq_threat_level_def)

end

fun show_threat_level :: "threat_level \<Rightarrow> string" where
  "show_threat_level ThreatNone = ''None''"
| "show_threat_level Low = ''Low''"
| "show_threat_level Medium = ''Medium''"
| "show_threat_level High = ''High''"
| "show_threat_level ThreatCritical = ''Critical''"

fun threat_level_as_str :: "threat_level \<Rightarrow> string" where
  "threat_level_as_str ThreatNone = ''none''"
| "threat_level_as_str Low = ''low''"
| "threat_level_as_str Medium = ''medium''"
| "threat_level_as_str High = ''high''"
| "threat_level_as_str ThreatCritical = ''critical''"

definition threat_level_from_db :: "string \<Rightarrow> threat_level" where
  "threat_level_from_db v =
     (if v = ''low'' then Low
      else if v = ''medium'' then Medium
      else if v = ''high'' then High
      else if v = ''critical'' then ThreatCritical
      else ThreatNone)"

lemma threat_level_roundtrip [simp]: "threat_level_from_db (threat_level_as_str l) = l"
  by (cases l) (simp_all add: threat_level_from_db_def)

section \<open>Categories\<close>

fun show_category :: "threat_category \<Rightarrow> string" where
  "show_category SqlInjection = ''SqlInjection''"
| "show_category Xss = ''Xss''"
| "show_category PathTraversal = ''PathTraversal''"
| "show_category CommandInjection = ''CommandInjection''"
| "show_category BruteForce = ''BruteForce''"
| "show_category Scanner = ''Scanner''"
| "show_category SensitiveFile = ''SensitiveFile''"
| "show_category TlsError = ''TlsError''"
| "show_category SuspiciousPattern = ''SuspiciousPattern''"

fun category_as_str :: "threat_category \<Rightarrow> string" where
  "category_as_str SqlInjection = ''sql-injection''"
| "category_as_str Xss = ''xss''"
| "category_as_str PathTraversal = ''path-traversal''"
| "category_as_str CommandInjection = ''command-injection''"
| "category_as_str BruteForce = ''brute-force''"
| "category_as_str Scanner = ''scanner''"
| "category_as_str SensitiveFile = ''sensitive-file''"
| "category_as_str TlsError = ''tls-error''"
| "category_as_str SuspiciousPattern = ''suspicious-pattern''"

lemma category_as_str_inject [simp]: "category_as_str a = category_as_str b \<longleftrightarrow> a = b"
  by (cases a; cases b) simp_all

fun severity :: "threat_category \<Rightarrow> threat_level" where
  "severity CommandInjection = ThreatCritical"
| "severity SqlInjection = High"
| "severity Xss = High"
| "severity PathTraversal = High"
| "severity Scanner = High"
| "severity BruteForce = Medium"
| "severity SensitiveFile = Medium"
| "severity TlsError = Low"
| "severity SuspiciousPattern = Low"

fun is_strong :: "threat_category \<Rightarrow> bool" where
  "is_strong CommandInjection \<longleftrightarrow> True"
| "is_strong SqlInjection \<longleftrightarrow> True"
| "is_strong Scanner \<longleftrightarrow> True"
| "is_strong _ \<longleftrightarrow> False"

section \<open>The classifier\<close>

record threat_result =
  tr_level :: threat_level
  tr_categories :: "threat_category list"
  tr_confidence :: f64

definition add_category :: "threat_category \<Rightarrow> threat_category list \<Rightarrow> threat_category list" where
  "add_category c cs = (if c \<in> set cs then cs else cs @ [c])"

definition check_brute_force_heuristic ::
  "string \<Rightarrow> parsed_log_entry \<Rightarrow> threat_category list \<Rightarrow> threat_category list" where
  "check_brute_force_heuristic text entry cs =
     (if pe_level entry = Error \<and> contains text ''password'' then add_category BruteForce cs else cs)"

definition suspicious_paths :: "string list" where
  "suspicious_paths =
     [''/admin'', ''/wp-admin'', ''/phpmyadmin'', ''/manager'', ''/console'', ''/config'',
      ''/.env'', ''/backup'']"

definition check_error_responses ::
  "log_metadata \<Rightarrow> string \<Rightarrow> threat_category list \<Rightarrow> threat_category list" where
  "check_error_responses md path cs =
     (case md_status_code md of
        None \<Rightarrow> cs
      | Some status \<Rightarrow>
          if (status = 403 \<or> status = 404) \<and> list_ex (contains path) suspicious_paths
          then add_category SuspiciousPattern cs else cs)"

definition calculate_threat_level :: "threat_category list \<Rightarrow> threat_level" where
  "calculate_threat_level cs =
     (let severities = map severity cs;
          has_critical = List.member severities ThreatCritical;
          has_high = list_ex (\<lambda>l. High \<le> l) severities;
          has_medium = list_ex (\<lambda>l. Medium \<le> l) severities;
          count = length cs
      in if has_critical \<or> (has_high \<and> 2 \<le> count) then ThreatCritical
         else if has_high then High
         else if has_medium \<or> 2 \<le> count then Medium
         else if cs \<noteq> [] then Low
         else ThreatNone)"

text \<open>Addition and \<open>min\<close> of \<open>f64\<close> values; a literal is the nearest value.\<close>

definition f64_plus :: "f64 \<Rightarrow> f64 \<Rightarrow> f64" where
  "f64_plus x y = (case (x, y) of (Fin p, Fin q) \<Rightarrow> to_f64 (p + q) | _ \<Rightarrow> Inf)"

definition f64_min :: "f64 \<Rightarrow> f64 \<Rightarrow> f64" where
  "f64_min x y =
     (case (x, y) of (Fin p, Fin q) \<Rightarrow> Fin (min p q) | (Inf, _) \<Rightarrow> y | (_, Inf) \<Rightarrow> x)"

definition calculate_confidence :: "threat_category list \<Rightarrow> f64" where
  "calculate_confidence cs =
     (let n = length cs;
          base = to_f64 (if n = 1 then 7/10 else if n = 2 then 85/100
                         else if n = 3 \<or> n = 4 then 95/100 else 1)
      in if list_ex is_strong cs then f64_min (f64_plus base (to_f64 (1/10))) (to_f64 1) else base)"

definition classify_text :: "(string \<Rightarrow> string) \<Rightarrow> parsed_log_entry \<Rightarrow> string" where
  "classify_text ulow e = to_lowercase ulow (pe_message e @ '' '' @ pe_raw e)"

definition classify_path :: "(string \<Rightarrow> string) \<Rightarrow> parsed_log_entry \<Rightarrow> string" where
  "classify_path ulow e =
     (case md_request_path (pe_metadata e) of Some p \<Rightarrow> to_lowercase ulow p | None \<Rightarrow> [])"

definition classify_user_agent :: "(string \<Rightarrow> string) \<Rightarrow> parsed_log_entry \<Rightarrow> string option" where
  "classify_user_agent ulow e = map_option (to_lowercase ulow) (md_user_agent (pe_metadata e))"

text \<open>The loop over a rule table.\<close>

definition apply_rules ::
  "pattern_rule list \<Rightarrow> string \<Rightarrow> string \<Rightarrow> string option \<Rightarrow> threat_category list \<Rightarrow> threat_category list"
  where
  "apply_rules rules text path ua =
     fold (\<lambda>r cs. if rule_matches r text path ua then add_category (pr_category r) cs else cs) rules"

definition classify_with ::
  "pattern_rule list \<Rightarrow> (string \<Rightarrow> string) \<Rightarrow> parsed_log_entry \<Rightarrow> threat_result" where
  "classify_with rules ulow e =
     (let text = classify_text ulow e; path = classify_path ulow e;
          ua = classify_user_agent ulow e;
          cs = apply_rules rules text path ua [];
          cs = check_brute_force_heuristic text e cs;
          cs = check_error_responses (pe_metadata e) path cs
      in if cs = [] then \<lparr> tr_level = ThreatNone, tr_categories = [], tr_confidence = Fin 0 \<rparr>
         else \<lparr> tr_level = calculate_threat_level cs, tr_categories = cs,
                tr_confidence = calculate_confidence cs \<rparr>)"

definition classify :: "(string \<Rightarrow> string) \<Rightarrow> parsed_log_entry \<Rightarrow> threat_result" where
  "classify ulow e = classify_with pattern_rules ulow e"

text \<open>\<open>{:.0}\<close> prints the nearest integer, ties to even.\<close>

definition show_threat_result :: "threat_result \<Rightarrow> string" where
  "show_threat_result r =
     show_threat_level (tr_level r) @ '' threat (confidence: ''
     @ (case f64_times (tr_confidence r) 100 of
          Fin q \<Rightarrow> show_int (round_half_even q) | Inf \<Rightarrow> ''inf'')
     @ ''%) - '' @ join '', '' (map show_category (tr_categories r))"

section \<open>Collected categories\<close>

lemma set_add_category [simp]: "set (add_category c cs) = insert c (set cs)"
  by (auto simp: add_category_def)

lemma distinct_add_category [simp]: "distinct cs \<Longrightarrow> distinct (add_category c cs)"
  by (simp add: add_category_def)

lemma set_apply_rules:
  "set (apply_rules rules text path ua cs) =
   set cs \<union> {pr_category r | r. r \<in> set rules \<and> rule_matches r text path ua}"
  by (induction rules arbitrary: cs) (auto simp: apply_rules_def)

lemma distinct_apply_rules: "distinct cs \<Longrightarrow> distinct (apply_rules rules text path ua cs)"
  by (induction rules arbitrary: cs) (auto simp: apply_rules_def)

definition brute_force_hit :: "(string \<Rightarrow> string) \<Rightarrow> parsed_log_entry \<Rightarrow> bool" where
  "brute_force_hit ulow e \<longleftrightarrow> pe_level e = Error \<and> contains (classify_text ulow e) ''password''"

definition admin_probe_hit :: "(string \<Rightarrow> string) \<Rightarrow> parsed_log_entry \<Rightarrow> bool" where
  "admin_probe_hit ulow e \<longleftrightarrow>
     md_status_code (pe_metadata e) \<in> {Some 403, Some 404}
     \<and> (\<exists>sp\<in>set suspicious_paths. contains (classify_path ulow e) sp)"

lemma tr_categories_set:
  "set (tr_categories (classify_with rules ulow e)) =
     {pr_category r | r. r \<in> set rules
        \<and> rule_matches r (classify_text ulow e) (classify_path ulow e) (classify_user_agent ulow e)}
     \<union> (if brute_force_hit ulow e then {BruteForce} else {})
     \<union> (if admin_probe_hit ulow e then {SuspiciousPattern} else {})"
proof -
  let ?a = "apply_rules rules (classify_text ulow e) (classify_path ulow e)
    (classify_user_agent ulow e) []"
  let ?b = "check_brute_force_heuristic (classify_text ulow e) e ?a"
  let ?c = "check_error_responses (pe_metadata e) (classify_path ulow e) ?b"
  have "tr_categories (classify_with rules ulow e) = ?c"
    by (simp add: classify_with_def Let_def)
  moreover have "set ?c = set ?b \<union> (if admin_probe_hit ulow e then {SuspiciousPattern} else {})"
    by (auto simp: check_error_responses_def admin_probe_hit_def list_ex_iff split: option.splits)
  moreover have "set ?b = set ?a \<union> (if brute_force_hit ulow e then {BruteForce} else {})"
    by (auto simp: check_brute_force_heuristic_def brute_force_hit_def)
  ultimately show ?thesis by (simp only: set_apply_rules set_empty2 list.set(1) Un_empty_left)
qed

lemma tr_categories_distinct: "distinct (tr_categories (classify_with rules ulow e))"
  by (auto simp: classify_with_def Let_def check_error_responses_def check_brute_force_heuristic_def
      distinct_apply_rules split: option.splits)

lemma tr_fields:
  "tr_level (classify_with rules ulow e) =
     (if tr_categories (classify_with rules ulow e) = [] then ThreatNone
      else calculate_threat_level (tr_categories (classify_with rules ulow e)))"
  "tr_confidence (classify_with rules ulow e) =
     (if tr_categories (classify_with rules ulow e) = [] then Fin 0
      else calculate_confidence (tr_categories (classify_with rules ulow e)))"
  by (simp_all add: classify_with_def Let_def)

section \<open>The level as a function of the category set\<close>

text \<open>The documented rule: the highest tier present, raised by a second category.\<close>

definition level_spec :: "threat_category set \<Rightarrow> threat_level" where
  "level_spec S =
     (if S = {} then ThreatNone
      else let top = Max (severity ` S)
           in if card S < 2 then top else if High \<le> top then ThreatCritical else Medium)"

lemma severity_pos: "Low \<le> severity c"
  by (cases c) (simp_all add: less_eq_threat_level_def)

lemma level_le_iff:
  "ThreatCritical \<le> l \<longleftrightarrow> l = ThreatCritical"
  "High \<le> l \<longleftrightarrow> l = High \<or> l = ThreatCritical"
  "Medium \<le> l \<longleftrightarrow> l = Medium \<or> l = High \<or> l = ThreatCritical"
  "Low \<le> l \<longleftrightarrow> l \<noteq> ThreatNone"
  by (cases l; simp add: less_eq_threat_level_def)+

lemma calculate_threat_level_spec:
  assumes "distinct cs"
  shows "calculate_threat_level cs = level_spec (set cs)"
proof (cases "cs = []")
  case True
  then show ?thesis by (simp add: calculate_threat_level_def level_spec_def)
next
  case False
  define top where "top = Max (severity ` set cs)"
  have card: "card (set cs) = length cs" using assms by (rule distinct_card)
  have ge: "(\<exists>c\<in>set cs. l \<le> severity c) \<longleftrightarrow> l \<le> top" for l
    using False by (subst top_def, subst Max_ge_iff) auto
  have hc: "List.member (map severity cs) ThreatCritical \<longleftrightarrow> top = ThreatCritical"
    using ge [of ThreatCritical] by (auto simp: level_le_iff image_iff) metis+
  have hh: "list_ex (\<lambda>l. High \<le> l) (map severity cs) \<longleftrightarrow> High \<le> top"
    using ge [of High] by (auto simp: list_ex_iff)
  have hm: "list_ex (\<lambda>l. Medium \<le> l) (map severity cs) \<longleftrightarrow> Medium \<le> top"
    using ge [of Medium] by (auto simp: list_ex_iff)
  obtain c where "c \<in> set cs" using False by (cases cs) auto
  with severity_pos [of c] ge [of Low] have "top \<noteq> ThreatNone" by (auto simp: level_le_iff)
  with False show ?thesis
    unfolding calculate_threat_level_def level_spec_def Let_def hc hh hm card top_def [symmetric]
    by (cases top) (auto simp: level_le_iff)
qed

lemma level_spec_mono:
  assumes "S \<subseteq> T" "finite T"
  shows "level_spec S \<le> level_spec T"
proof (cases "S = {}")
  case True
  then show ?thesis by (cases "level_spec T") (simp_all add: level_spec_def less_eq_threat_level_def)
next
  case False
  define s where "s = Max (severity ` S)"
  define t where "t = Max (severity ` T)"
  have fin: "finite S" using assms finite_subset by blast
  have "s \<le> t" unfolding s_def t_def using assms False by (intro Max_mono) auto
  have "T \<noteq> {}" using assms False by auto
  have card: "card S \<le> card T" using assms card_mono by blast
  have "Low \<le> s" using False fin severity_pos unfolding s_def by (subst Max_ge_iff) auto
  moreover have "s = High \<or> s = ThreatCritical \<or> s = Medium \<or> s = Low"
    using \<open>Low \<le> s\<close> by (cases s) (auto simp: less_eq_threat_level_def)
  ultimately show ?thesis
    using \<open>s \<le> t\<close> card False \<open>T \<noteq> {}\<close>
    unfolding level_spec_def s_def [symmetric] t_def [symmetric] Let_def
    by (cases t) (auto simp: less_eq_threat_level_def)
qed

section \<open>The confidence\<close>

lemma list_ex_strong_replicate:
  "list_ex is_strong (replicate n Xss) = False"
  "list_ex is_strong (replicate n Scanner) = (0 < n)"
  by (induction n) simp_all

lemma calculate_confidence_cases:
  assumes "cs \<noteq> []"
  shows "calculate_confidence cs =
    calculate_confidence (replicate (min 5 (length cs)) (if list_ex is_strong cs then Scanner else Xss))"
  using assms by (auto simp: calculate_confidence_def Let_def list_ex_strong_replicate min_def
      numeral_eq_Suc split: if_splits)

text \<open>Its value only depends on the count, cut off at five, and on a strong category.\<close>

definition confidence_at :: "nat \<Rightarrow> bool \<Rightarrow> f64" where
  "confidence_at n strong = calculate_confidence (replicate n (if strong then Scanner else Xss))"

definition f64_le :: "f64 \<Rightarrow> f64 \<Rightarrow> bool" where
  "f64_le x y = (case (x, y) of (Fin p, Fin q) \<Rightarrow> p \<le> q | (_, Inf) \<Rightarrow> True | (Inf, Fin _) \<Rightarrow> False)"

lemma f64_le_trans: "f64_le x y \<Longrightarrow> f64_le y z \<Longrightarrow> f64_le x z"
  by (auto simp: f64_le_def split: f64.splits)

lemma f64_le_refl [simp]: "f64_le x x"
  by (simp add: f64_le_def split: f64.splits)

text \<open>The literals of the code and the sums it forms from them.\<close>

lemma f64_literals:
  "to_f64 (7/10) = Fin (3152519739159347 / 2 ^ 52)"
  "to_f64 (17/20) = Fin (7656119366529843 / 2 ^ 53)"
  "to_f64 (19/20) = Fin (4278419646001971 / 2 ^ 52)"
  "to_f64 (1/10) = Fin (3602879701896397 / 2 ^ 55)"
  "to_f64 1 = Fin 1"
  using to_f64_eq [of "- 53" "7/10" 6305039478318694]
    to_f64_eq [of "- 53" "17/20" 7656119366529843]
    to_f64_eq [of "- 53" "19/20" 8556839292003942]
    to_f64_eq [of "- 56" "1/10" 7205759403792794]
    to_f64_eq [of "- 52" 1 "2 ^ 52"]
  by (simp_all add: pow2_def)

lemma f64_sums:
  "to_f64 (3152519739159347 / 2 ^ 52 + 3602879701896397 / 2 ^ 55) = Fin (7205759403792793 / 2 ^ 53)"
  "to_f64 (7656119366529843 / 2 ^ 53 + 3602879701896397 / 2 ^ 55) = Fin (8556839292003942 / 2 ^ 53)"
  "to_f64 (4278419646001971 / 2 ^ 52 + 3602879701896397 / 2 ^ 55) = Fin (4728779608739021 / 2 ^ 52)"
  "to_f64 (1 + 3602879701896397 / 2 ^ 55) = Fin (4953959590107546 / 2 ^ 52)"
  using to_f64_eq [of "- 53" "28823037615171173 / 36028797018963968" 7205759403792793]
    to_f64_eq [of "- 53" "34227357168015769 / 36028797018963968" 8556839292003942]
    to_f64_eq [of "- 52" "37830236869912165 / 36028797018963968" 4728779608739021]
    to_f64_eq [of "- 52" "39631676720860365 / 36028797018963968" 4953959590107546]
  by (simp_all add: pow2_def)

lemma confidence_at_values:
  "confidence_at n b =
     (if b \<and> 0 < n then
        (if n = 1 then Fin (7205759403792793 / 2 ^ 53)
         else if n = 2 then Fin (8556839292003942 / 2 ^ 53) else Fin 1)
      else
        (if n = 1 then Fin (3152519739159347 / 2 ^ 52)
         else if n = 2 then Fin (7656119366529843 / 2 ^ 53)
         else if n = 3 \<or> n = 4 then Fin (4278419646001971 / 2 ^ 52) else Fin 1))"
proof -
  have l: "length (replicate n (if b then Scanner else Xss)) = n" by simp
  have b: "list_ex is_strong (replicate n (if b then Scanner else Xss)) = (b \<and> 0 < n)"
    by (cases b) (simp_all add: list_ex_strong_replicate)
  show ?thesis
    unfolding confidence_at_def calculate_confidence_def Let_def l b
    using f64_literals f64_sums by (simp add: f64_plus_def f64_min_def)
qed

lemma confidence_at_steps:
  assumes "1 \<le> n" "n \<le> 5"
  shows "f64_le (Fin (6999 / 10000)) (confidence_at n b)" "f64_le (confidence_at n b) (Fin 1)"
    "f64_le (confidence_at n b) (confidence_at (min 5 (Suc n)) b)"
    "f64_le (confidence_at n False) (confidence_at n b)"
proof -
  have "n = 1 \<or> n = 2 \<or> n = 3 \<or> n = 4 \<or> n = 5" using assms by linarith
  then show "f64_le (Fin (6999 / 10000)) (confidence_at n b)" "f64_le (confidence_at n b) (Fin 1)"
    "f64_le (confidence_at n b) (confidence_at (min 5 (Suc n)) b)"
    "f64_le (confidence_at n False) (confidence_at n b)"
    by (cases b; elim disjE; simp add: confidence_at_values f64_le_def)+
qed

lemma confidence_at_mono_count:
  "1 \<le> m \<Longrightarrow> m \<le> n \<Longrightarrow> n \<le> 5 \<Longrightarrow> f64_le (confidence_at m b) (confidence_at n b)"
proof (induction n)
  case (Suc n)
  show ?case
  proof (cases "m = Suc n")
    case False
    with Suc have "f64_le (confidence_at m b) (confidence_at n b)" by simp
    moreover have "f64_le (confidence_at n b) (confidence_at (Suc n) b)"
      using confidence_at_steps(3) [of n b] Suc.prems False by (simp add: min_absorb2)
    ultimately show ?thesis by (rule f64_le_trans)
  qed simp
qed simp

lemma calculate_confidence_at:
  "cs \<noteq> [] \<Longrightarrow>
   calculate_confidence cs = confidence_at (min 5 (length cs)) (list_ex is_strong cs)"
  unfolding confidence_at_def by (rule calculate_confidence_cases)

lemma min5_pos: "cs \<noteq> [] \<Longrightarrow> 1 \<le> min 5 (length cs)"
  by (cases cs) auto

lemma confidence_bounds:
  assumes "cs \<noteq> []"
  shows "f64_le (Fin (6999 / 10000)) (calculate_confidence cs)"
    "f64_le (calculate_confidence cs) (Fin 1)"
  using confidence_at_steps(1,2) [OF min5_pos [OF assms]]
  by (simp_all add: calculate_confidence_at assms)

lemma confidence_mono:
  assumes "cs \<noteq> []" "distinct cs" "distinct ds" "set cs \<subseteq> set ds"
  shows "f64_le (calculate_confidence cs) (calculate_confidence ds)"
proof -
  let ?m = "min 5 (length cs)" and ?n = "min 5 (length ds)"
  let ?b = "list_ex is_strong cs" and ?d = "list_ex is_strong ds"
  have "length cs \<le> length ds"
    using card_mono [OF _ assms(4)] assms(2,3) by (simp add: distinct_card)
  then have mn: "1 \<le> ?m" "?m \<le> ?n" "?n \<le> 5" using min5_pos [OF assms(1)] by auto
  have "?b \<longrightarrow> ?d" using assms(4) by (auto simp: list_ex_iff)
  then have "f64_le (confidence_at ?m ?b) (confidence_at ?m ?d)"
    using confidence_at_steps(4) [of ?m ?d] mn by (cases ?b; cases ?d) auto
  moreover have "f64_le (confidence_at ?m ?d) (confidence_at ?n ?d)"
    using confidence_at_mono_count mn by blast
  moreover have "ds \<noteq> []" using assms by auto
  ultimately show ?thesis using assms(1) by (simp add: calculate_confidence_at f64_le_trans)
qed

lemma tr_level_spec:
  "tr_level (classify_with rules ulow e) = level_spec (set (tr_categories (classify_with rules ulow e)))"
  by (simp add: tr_fields calculate_threat_level_spec tr_categories_distinct level_spec_def)

text \<open>A second result with more categories is at least as severe and at least as confident.\<close>

lemma classify_with_mono:
  assumes "set (tr_categories (classify_with rules ulow e)) \<subseteq> set (tr_categories (classify_with rules' ulow e'))"
  shows "tr_level (classify_with rules ulow e) \<le> tr_level (classify_with rules' ulow e')"
    "f64_le (tr_confidence (classify_with rules ulow e)) (tr_confidence (classify_with rules' ulow e'))"
proof -
  let ?c = "tr_categories (classify_with rules ulow e)"
  let ?d = "tr_categories (classify_with rules' ulow e')"
  show "tr_level (classify_with rules ulow e) \<le> tr_level (classify_with rules' ulow e')"
    unfolding tr_level_spec by (rule level_spec_mono [OF assms]) simp
  show "f64_le (tr_confidence (classify_with rules ulow e)) (tr_confidence (classify_with rules' ulow e'))"
  proof (cases "?c = []")
    case True
    have "f64_le (Fin 0) (if ?d = [] then Fin 0 else calculate_confidence ?d)"
      using confidence_bounds(1) [of ?d] by (auto simp: f64_le_def split: f64.splits)
    with True show ?thesis by (simp add: tr_fields(2))
  next
    case False
    moreover with assms have "?d \<noteq> []" by auto
    ultimately show ?thesis
      using confidence_mono [OF False tr_categories_distinct tr_categories_distinct assms]
      by (simp add: tr_fields(2))
  qed
qed


end
