(* ===== verification/Sources.thy ===== *)
theory Sources
  imports Text "HOL-Library.List_Lexorder" "HOL-Library.Char_ord"
begin

text \<open>
  Log sources: the file-name conventions of \<open>src/src/log_scanner/source.rs\<close> and the discovery of
  \<open>src/src/log_scanner/source_discovery.rs\<close>. The glob crate is the argument \<open>glob\<close>: a pattern
  compiles to a predicate on file names or fails. A \<open>BTreeSet<String>\<close> is the ascending list of
  its elements in byte order.
\<close>

section \<open>Paths\<close>

type_synonym path = string

fun split_on :: "char \<Rightarrow> string \<Rightarrow> string list" where
  "split_on c [] = [[]]"
| "split_on c (x # xs) =
     (if x = c then [] # split_on c xs
      else (case split_on c xs of [] \<Rightarrow> [[x]] | p # ps \<Rightarrow> (x # p) # ps))"

text \<open>\<open>Path::components\<close>: the root, a leading \<open>.\<close>, and the non-trivial pieces.\<close>

definition components :: "path \<Rightarrow> string list" where
  "components p =
     (let ps = split_on (CHR ''/'') p
      in (if starts_with p ''/'' then [''/'']
          else if hd ps = ''.'' then [''.''] else [])
         @ filter (\<lambda>c. c \<noteq> [] \<and> c \<noteq> ''.'') ps)"

text \<open>\<open>file_name().and_then(to_str)\<close>: \<open>None\<close> also when the name is not UTF-8.\<close>

definition file_name :: "path \<Rightarrow> string option" where
  "file_name p =
     (case rev (components p) of
        [] \<Rightarrow> None
      | c # _ \<Rightarrow> if c = ''/'' \<or> c = ''.'' \<or> c = ''..'' \<or> \<not> utf8_ok c then None else Some c)"

definition path_starts_with :: "path \<Rightarrow> path \<Rightarrow> bool" where
  "path_starts_with p base \<longleftrightarrow>
     take (length (components base)) (components p) = components base"

text \<open>\<open>Path::join\<close> with a relative name.\<close>

definition path_join :: "path \<Rightarrow> string \<Rightarrow> path" where
  "path_join d n = (if d = [] \<or> ends_with d ''/'' then d @ n else d @ ''/'' @ n)"

section \<open>Source names\<close>

datatype source_kind = Vhost | SystemLog

record source =
  src_name :: string
  src_kind :: source_kind

definition vhost :: "string \<Rightarrow> source" where
  "vhost n = \<lparr> src_name = n, src_kind = Vhost \<rparr>"

definition system_log :: "string \<Rightarrow> source" where
  "system_log n = \<lparr> src_name = n, src_kind = SystemLog \<rparr>"

definition vhost_from_file_path :: "path \<Rightarrow> string option" where
  "vhost_from_file_path p =
     (case file_name p of
        None \<Rightarrow> None
      | Some n \<Rightarrow>
          if ends_with n ''-access.log'' then Some (trim_end_matches n ''-access.log'') else None)"

definition is_rotated_log :: "string \<Rightarrow> bool" where
  "is_rotated_log n =
     (case after_last n (CHR ''.'') of
        None \<Rightarrow> False
      | Some suffix \<Rightarrow> suffix \<noteq> [] \<and> list_all is_ascii_digit suffix)"

lemma is_rotated_log_iff:
  "is_rotated_log n \<longleftrightarrow>
     (\<exists>stem ds. n = stem @ ''.'' @ ds \<and> ds \<noteq> [] \<and> list_all is_ascii_digit ds)"
proof
  assume "is_rotated_log n"
  then obtain ds where a: "after_last n (CHR ''.'') = Some ds"
    and "ds \<noteq> []" "list_all is_ascii_digit ds"
    by (auto simp: is_rotated_log_def split: option.splits)
  moreover from a obtain u where "n = u @ CHR ''.'' # ds" by (auto simp: after_last_Some)
  ultimately show "\<exists>stem ds. n = stem @ ''.'' @ ds \<and> ds \<noteq> [] \<and> list_all is_ascii_digit ds"
    by auto
next
  assume "\<exists>stem ds. n = stem @ ''.'' @ ds \<and> ds \<noteq> [] \<and> list_all is_ascii_digit ds"
  then obtain stem ds where n: "n = stem @ ''.'' @ ds" and ds: "ds \<noteq> []" "list_all is_ascii_digit ds"
    by blast
  have "\<not> is_ascii_digit (CHR ''.'')"
    by (simp add: is_ascii_digit_def in_range_def byte_def)
  with ds have "CHR ''.'' \<notin> set ds" by (auto simp: list_all_iff)
  with n have "after_last n (CHR ''.'') = Some ds" by (auto simp: after_last_Some)
  with ds show "is_rotated_log n" by (simp add: is_rotated_log_def)
qed

lemma vhost_log_not_rotated:
  assumes "ends_with n ''-access.log''"
  shows "\<not> is_rotated_log n"
proof -
  obtain u where "n = u @ ''-access.log''" using assms by (auto simp: ends_with_iff)
  then have "after_last n (CHR ''.'') = Some ''log''"
    by (auto simp: after_last_Some intro: exI [where x = "u @ ''-access''"])
  then show ?thesis
    by (simp add: is_rotated_log_def is_ascii_digit_def in_range_def byte_def)
qed

section \<open>Discovery\<close>

record log_directory_config =
  dir_path :: path
  dir_pattern :: string

record log_watching_config =
  lw_directories :: "log_directory_config list"
  lw_files :: "path list"

text \<open>What the scan reads of the file system.\<close>

record dir_view =
  dv_read_dir :: "path \<Rightarrow> path list option"
  dv_is_file :: "path \<Rightarrow> bool"

type_synonym globber = "string \<Rightarrow> (string \<Rightarrow> bool) option"

definition btree_insert :: "string \<Rightarrow> string list \<Rightarrow> string list" where
  "btree_insert x s = insort_insert x s"

text \<open>The body of the loop over one directory's entries.\<close>

definition discover_entry ::
  "dir_view \<Rightarrow> (string \<Rightarrow> bool) \<Rightarrow> path \<Rightarrow> string list \<times> string list \<Rightarrow> string list \<times> string list"
  where
  "discover_entry fs pat p acc =
     (case acc of (vs, ss) \<Rightarrow>
       if \<not> dv_is_file fs p then acc
       else (case file_name p of
               None \<Rightarrow> acc
             | Some n \<Rightarrow>
                 if \<not> pat n \<or> is_rotated_log n then acc
                 else (case vhost_from_file_path p of
                         Some v \<Rightarrow> (btree_insert v vs, ss)
                       | None \<Rightarrow>
                           if n = ''access.log'' then (vs, btree_insert ''access.log'' ss)
                           else acc)))"

definition discover_directory ::
  "dir_view \<Rightarrow> globber \<Rightarrow> log_directory_config \<Rightarrow> string list \<times> string list \<Rightarrow> string list \<times> string list"
  where
  "discover_directory fs glob d acc =
     (case dv_read_dir fs (dir_path d) of
        None \<Rightarrow> acc
      | Some entries \<Rightarrow>
          (case glob (dir_pattern d) of
             None \<Rightarrow> acc
           | Some pat \<Rightarrow> fold (discover_entry fs pat) entries acc))"

definition discover_file :: "dir_view \<Rightarrow> path \<Rightarrow> string list \<Rightarrow> string list" where
  "discover_file fs p ss =
     (if dv_is_file fs p
      then (case file_name p of Some n \<Rightarrow> btree_insert n ss | None \<Rightarrow> ss) else ss)"

definition discover :: "dir_view \<Rightarrow> globber \<Rightarrow> log_watching_config \<Rightarrow> source list" where
  "discover fs glob cfg =
     (let (vs, ss) = fold (discover_directory fs glob) (lw_directories cfg) ([], []);
          ss' = fold (discover_file fs) (lw_files cfg) ss
      in map vhost vs @ map system_log ss')"

text \<open>The intermediate sets are ascending lists without duplicates.\<close>

definition btree_ok :: "string list \<Rightarrow> bool" where
  "btree_ok s \<longleftrightarrow> sorted s \<and> distinct s"

lemma btree_insert_ok [simp]: "btree_ok s \<Longrightarrow> btree_ok (btree_insert x s)"
  by (simp add: btree_ok_def btree_insert_def sorted_insort_insert distinct_insort_insert)

lemma set_btree_insert [simp]: "set (btree_insert x s) = insert x (set s)"
  by (simp add: btree_insert_def set_insort_insert)

lemma btree_ok_Nil [simp]: "btree_ok []"
  by (simp add: btree_ok_def)

lemma discover_entry_ok:
  "btree_ok (fst acc) \<and> btree_ok (snd acc) \<Longrightarrow>
   btree_ok (fst (discover_entry fs pat p acc)) \<and> btree_ok (snd (discover_entry fs pat p acc))"
  by (auto simp: discover_entry_def split: prod.splits option.splits)

lemma fold_invariant: "P a \<Longrightarrow> (\<And>x a. P a \<Longrightarrow> P (f x a)) \<Longrightarrow> P (fold f xs a)"
  by (induction xs arbitrary: a) auto

lemma discover_directory_ok:
  "btree_ok (fst acc) \<and> btree_ok (snd acc) \<Longrightarrow>
   btree_ok (fst (discover_directory fs glob d acc)) \<and> btree_ok (snd (discover_directory fs glob d acc))"
  by (auto simp: discover_directory_def split: option.splits
      intro!: fold_invariant [where P = "\<lambda>acc. btree_ok (fst acc) \<and> btree_ok (snd acc)",
        THEN conjunct1] fold_invariant [where P = "\<lambda>acc. btree_ok (fst acc) \<and> btree_ok (snd acc)",
        THEN conjunct2] discover_entry_ok)

text \<open>Membership: the vhosts and the plain access log a directory contributes.\<close>

definition dir_entry :: "dir_view \<Rightarrow> globber \<Rightarrow> log_directory_config \<Rightarrow> path \<Rightarrow> string \<Rightarrow> bool" where
  "dir_entry fs glob d p n \<longleftrightarrow>
     (\<exists>entries pat. dv_read_dir fs (dir_path d) = Some entries \<and> p \<in> set entries
        \<and> glob (dir_pattern d) = Some pat \<and> dv_is_file fs p \<and> file_name p = Some n
        \<and> pat n \<and> \<not> is_rotated_log n)"

definition entry_hit :: "dir_view \<Rightarrow> (string \<Rightarrow> bool) \<Rightarrow> path \<Rightarrow> string \<Rightarrow> bool" where
  "entry_hit fs pat p n \<longleftrightarrow>
     dv_is_file fs p \<and> file_name p = Some n \<and> pat n \<and> \<not> is_rotated_log n"

lemma vhost_from_file_path_name: "vhost_from_file_path p = Some v \<Longrightarrow> \<exists>n. file_name p = Some n"
  by (auto simp: vhost_from_file_path_def split: option.splits)

lemma access_log_no_vhost: "file_name p = Some ''access.log'' \<Longrightarrow> vhost_from_file_path p = None"
  by (simp add: vhost_from_file_path_def ends_with_def)

lemma discover_entry_fst:
  "set (fst (discover_entry fs pat p acc)) =
   set (fst acc) \<union> {v. vhost_from_file_path p = Some v \<and> (\<exists>n. entry_hit fs pat p n)}"
  by (auto simp: discover_entry_def entry_hit_def split: prod.splits option.splits
      dest!: vhost_from_file_path_name)

lemma discover_entry_snd:
  "set (snd (discover_entry fs pat p acc)) =
   set (snd acc) \<union> {s. s = ''access.log'' \<and> entry_hit fs pat p s}"
  by (auto simp: discover_entry_def entry_hit_def access_log_no_vhost split: prod.splits option.splits)

lemma set_fold_Un:
  assumes "\<And>x a. set (g (f x a)) = set (g a) \<union> h x"
  shows "set (g (fold f xs a)) = set (g a) \<union> (\<Union>x\<in>set xs. h x)"
  by (induction xs arbitrary: a) (auto simp: assms)

lemma discover_directory_fst:
  "set (fst (discover_directory fs glob d acc)) =
   set (fst acc) \<union> {v. \<exists>p n. dir_entry fs glob d p n \<and> vhost_from_file_path p = Some v}"
  by (auto simp: discover_directory_def dir_entry_def entry_hit_def
      set_fold_Un [where g = fst, OF discover_entry_fst] split: option.splits)

lemma discover_directory_snd:
  "set (snd (discover_directory fs glob d acc)) =
   set (snd acc) \<union> {s. s = ''access.log'' \<and> (\<exists>p. dir_entry fs glob d p s)}"
  by (auto simp: discover_directory_def dir_entry_def entry_hit_def
      set_fold_Un [where g = snd, OF discover_entry_snd] split: option.splits)

lemma set_discover_file:
  "set (discover_file fs p ss) = set ss \<union> {n. dv_is_file fs p \<and> file_name p = Some n}"
  by (auto simp: discover_file_def split: option.splits)

lemma discover_file_ok: "btree_ok ss \<Longrightarrow> btree_ok (discover_file fs p ss)"
  by (auto simp: discover_file_def split: option.splits)

text \<open>The groups of the result, as \<open>discover\<close> builds them.\<close>

definition discovered :: "dir_view \<Rightarrow> globber \<Rightarrow> log_watching_config \<Rightarrow> string list \<times> string list" where
  "discovered fs glob cfg =
     (let (vs, ss) = fold (discover_directory fs glob) (lw_directories cfg) ([], [])
      in (vs, fold (discover_file fs) (lw_files cfg) ss))"

lemma discover_eq:
  "discover fs glob cfg =
     map vhost (fst (discovered fs glob cfg)) @ map system_log (snd (discovered fs glob cfg))"
  by (simp add: discover_def discovered_def split: prod.splits)

lemma discovered_fst:
  "fst (discovered fs glob cfg) = fst (fold (discover_directory fs glob) (lw_directories cfg) ([], []))"
  by (simp add: discovered_def case_prod_beta Let_def)

lemma discovered_snd:
  "snd (discovered fs glob cfg) =
     fold (discover_file fs) (lw_files cfg)
       (snd (fold (discover_directory fs glob) (lw_directories cfg) ([], [])))"
  by (simp add: discovered_def case_prod_beta Let_def)

lemma fold_directories_ok:
  "btree_ok (fst (fold (discover_directory fs glob) ds ([], [])))
   \<and> btree_ok (snd (fold (discover_directory fs glob) ds ([], [])))"
  by (rule fold_invariant) (simp, rule discover_directory_ok)

lemma discovered_ok:
  "btree_ok (fst (discovered fs glob cfg))" "btree_ok (snd (discovered fs glob cfg))"
proof -
  show "btree_ok (fst (discovered fs glob cfg))"
    by (simp add: discovered_fst fold_directories_ok)
  show "btree_ok (snd (discovered fs glob cfg))"
    unfolding discovered_snd
    by (rule fold_invariant [where P = btree_ok]) (simp_all add: fold_directories_ok discover_file_ok)
qed

lemma set_discovered_vhosts:
  "set (fst (discovered fs glob cfg)) =
     {v. \<exists>d p n. d \<in> set (lw_directories cfg) \<and> dir_entry fs glob d p n
        \<and> vhost_from_file_path p = Some v}"
  by (auto simp: discovered_fst set_fold_Un [where g = fst, OF discover_directory_fst])

lemma set_discovered_logs:
  "set (snd (discovered fs glob cfg)) =
     {s. s = ''access.log'' \<and> (\<exists>d p. d \<in> set (lw_directories cfg) \<and> dir_entry fs glob d p s)}
     \<union> {n. \<exists>p \<in> set (lw_files cfg). dv_is_file fs p \<and> file_name p = Some n}"
  by (auto simp: discovered_snd set_fold_Un [where g = snd, OF discover_directory_snd]
      set_fold_Un [where g = id, simplified, OF set_discover_file])

text \<open>
  C28: Discovery finds exactly the log sources of the configuration, each once. A virtual host is listed
  when some watched directory has a file, matching the directory's pattern and not rotated, whose name
  gives that host; a system log is listed for a plain access log found there and for every explicit
  file that exists. Both groups are sorted, virtual hosts first.
\<close>

theorem discovery_finds_the_sources:
  "\<exists>vs ss. discover fs glob cfg = map vhost vs @ map system_log ss
     \<and> sorted vs \<and> distinct vs \<and> sorted ss \<and> distinct ss
     \<and> set vs = {v. \<exists>d p n. d \<in> set (lw_directories cfg) \<and> dir_entry fs glob d p n
                        \<and> vhost_from_file_path p = Some v}
     \<and> set ss = {s. s = ''access.log'' \<and> (\<exists>d p. d \<in> set (lw_directories cfg) \<and> dir_entry fs glob d p s)}
                \<union> {n. \<exists>p. p \<in> set (lw_files cfg) \<and> dv_is_file fs p \<and> file_name p = Some n}"
  using discovered_ok [of fs glob cfg] set_discovered_vhosts [of fs glob cfg] set_discovered_logs [of fs glob cfg]
  by (intro exI [where x = "fst (discovered fs glob cfg)"] exI [where x = "snd (discovered fs glob cfg)"])
    (auto simp: discover_eq btree_ok_def)

end
