(* ===== verification/Config.thy ===== *)
theory Config
  imports Sources NetAddr Errors
begin

text \<open>
  \<open>src/src/config.rs\<close>: the sections of the configuration, their defaults, and the hub's guard
  against binding a public address in plaintext. YAML parsing is serde's; \<open>load\<close> takes the file
  contents and the deserialiser as arguments.
\<close>

section \<open>Sections\<close>

record noise_filter_config =
  nf_excluded_ips :: "ip_addr list"
  nf_health_check_paths :: "string list"
  nf_static_asset_extensions :: "string list"
  nf_known_bot_user_agents :: "string list"

record service_override_config =
  so_name :: string
  so_log_paths :: "path list"

record service_tracker_config =
  st_enabled :: bool
  st_discovery_paths :: "string list"
  st_poll_interval_seconds :: "64 word"
  st_services :: "service_override_config list"

record journalctl_config =
  jc_enabled :: bool
  jc_services :: "string list"

record tls_config =
  tls_enabled :: bool
  tls_cert :: path
  tls_key :: path

record hub_config =
  hub_enabled :: bool
  hub_grpc_host :: string
  hub_grpc_port :: "16 word"
  hub_rest_host :: string
  hub_rest_port :: "16 word"
  hub_spa_path :: path
  hub_tls :: tls_config
  hub_allowed_event_types :: "string list"
  hub_retention_days :: "32 word"
  hub_metrics_retention_days :: "32 word"

record agent_config =
  ag_enabled :: bool
  ag_hub_addr :: string
  ag_api_key :: string
  ag_containers :: "string list"
  ag_logs_enabled :: bool
  ag_metrics_interval_secs :: "64 word"
  ag_log_batch_size :: nat
  ag_log_flush_interval_secs :: "64 word"
  ag_log_buffer_max :: nat
  ag_connect_timeout_secs :: "64 word"
  ag_flush_timeout_secs :: "64 word"

record config =
  cf_log_watching :: log_watching_config
  cf_noise_filter :: noise_filter_config
  cf_service_tracker :: service_tracker_config
  cf_journalctl :: journalctl_config
  cf_hub :: hub_config
  cf_agent :: agent_config

section \<open>Defaults\<close>

definition default_log_watching :: log_watching_config where
  "default_log_watching =
     \<lparr> lw_directories = [\<lparr> dir_path = ''/var/log/nginx'', dir_pattern = ''*.log'' \<rparr>],
       lw_files = [''/var/log/auth.log''] \<rparr>"

definition default_noise_filter :: noise_filter_config where
  "default_noise_filter =
     \<lparr> nf_excluded_ips = [V4 127 0 0 1],
       nf_health_check_paths = [''/health'', ''/healthz''],
       nf_static_asset_extensions =
         [''css'', ''js'', ''png'', ''jpg'', ''jpeg'', ''gif'', ''ico'', ''svg'', ''woff'',
          ''woff2'', ''ttf'', ''eot''],
       nf_known_bot_user_agents =
         [''Googlebot'', ''Bingbot'', ''YandexBot'', ''Slurp'', ''DuckDuckBot''] \<rparr>"

definition default_service_tracker :: service_tracker_config where
  "default_service_tracker =
     \<lparr> st_enabled = True,
       st_discovery_paths = [''/etc/systemd/system'', ''/usr/lib/systemd/system''],
       st_poll_interval_seconds = 30, st_services = [] \<rparr>"

definition default_journalctl :: journalctl_config where
  "default_journalctl = \<lparr> jc_enabled = False, jc_services = [] \<rparr>"

definition default_tls :: tls_config where
  "default_tls = \<lparr> tls_enabled = False, tls_cert = [], tls_key = [] \<rparr>"

definition default_hub :: hub_config where
  "default_hub =
     \<lparr> hub_enabled = False, hub_grpc_host = ''127.0.0.1'', hub_grpc_port = 50051,
       hub_rest_host = ''127.0.0.1'', hub_rest_port = 8080, hub_spa_path = ''./web/dist'',
       hub_tls = default_tls, hub_allowed_event_types = [], hub_retention_days = 90,
       hub_metrics_retention_days = 30 \<rparr>"

definition default_agent :: agent_config where
  "default_agent =
     \<lparr> ag_enabled = False, ag_hub_addr = ''127.0.0.1:50051'', ag_api_key = [],
       ag_containers = [''app''], ag_logs_enabled = False, ag_metrics_interval_secs = 30,
       ag_log_batch_size = 100, ag_log_flush_interval_secs = 5, ag_log_buffer_max = 10000,
       ag_connect_timeout_secs = 10, ag_flush_timeout_secs = 5 \<rparr>"

definition default_config :: config where
  "default_config =
     \<lparr> cf_log_watching = default_log_watching, cf_noise_filter = default_noise_filter,
       cf_service_tracker = default_service_tracker, cf_journalctl = default_journalctl,
       cf_hub = default_hub, cf_agent = default_agent \<rparr>"

definition config_load ::
  "(path \<Rightarrow> string + string) \<Rightarrow> (string \<Rightarrow> string + config) \<Rightarrow> path \<Rightarrow> sentinel_error + config" where
  "config_load read_to_string from_yaml path =
     and_then (map_err (\<lambda>e. ConfigError (''failed to read config file '' @ [CHR 0x27] @ path
         @ [CHR 0x27] @ '': '' @ e)) (read_to_string path)) (\<lambda>content.
       map_err (\<lambda>e. ConfigError (''failed to parse config file '' @ [CHR 0x27] @ path
         @ [CHR 0x27] @ '': '' @ e)) (from_yaml content))"

section \<open>The bind guard\<close>

definition parse_host :: "string \<Rightarrow> ip_addr option" where
  "parse_host host = (if host = ''localhost'' then Some (V4 127 0 0 1) else parse_ip host)"

definition is_tailscale :: "ip_addr \<Rightarrow> bool" where
  "is_tailscale a =
     (case a of V4 o1 o2 _ _ \<Rightarrow> o1 = 100 \<and> 64 \<le> o2 \<and> o2 \<le> 127 | V6 _ \<Rightarrow> False)"

definition not_ip_error :: "string \<Rightarrow> string \<Rightarrow> sentinel_error" where
  "not_ip_error name host = ConfigError (''hub '' @ name @ '' '' @ [CHR 0x27] @ host @ [CHR 0x27]
     @ '' is not an IP or '' @ [CHR 0x27] @ ''localhost'' @ [CHR 0x27]
     @ ''; refusing to bind without TLS (set hub.tls.enabled or use 127.0.0.1)'')"

definition public_error :: "string \<Rightarrow> string \<Rightarrow> sentinel_error" where
  "public_error name host = ConfigError (''hub '' @ name @ '' '' @ [CHR 0x27] @ host @ [CHR 0x27]
     @ '' is a public address but hub.tls.enabled is false; keys and payloads would travel in plaintext'')"

text \<open>The loop over the two hosts; the result carries \<open>warned\<close>.\<close>

fun check_hosts :: "(string \<times> string) list \<Rightarrow> bool \<Rightarrow> sentinel_error + bool" where
  "check_hosts [] warned = Inr warned"
| "check_hosts ((name, host) # hs) warned =
     (case parse_host host of
        None \<Rightarrow>
          if host \<noteq> ''localhost'' then Inl (not_ip_error name host) else check_hosts hs warned
      | Some ip \<Rightarrow>
          if is_loopback ip then check_hosts hs warned
          else if is_tailscale ip then check_hosts hs True
          else Inl (public_error name host))"

definition bind_hosts :: "hub_config \<Rightarrow> (string \<times> string) list" where
  "bind_hosts c = [(''grpc_host'', hub_grpc_host c), (''rest_host'', hub_rest_host c)]"

definition validate_bind_security :: "hub_config \<Rightarrow> sentinel_error + unit" where
  "validate_bind_security c =
     (if tls_enabled (hub_tls c) then Inr ()
      else map_sum id (\<lambda>_. ()) (check_hosts (bind_hosts c) False))"

text \<open>A host is private when it names a loopback or a Tailscale address.\<close>

definition private_host :: "string \<Rightarrow> bool" where
  "private_host host \<longleftrightarrow>
     (case parse_host host of None \<Rightarrow> False | Some ip \<Rightarrow> is_loopback ip \<or> is_tailscale ip)"

lemma parse_host_localhost: "parse_host host = None \<Longrightarrow> host \<noteq> ''localhost''"
  by (auto simp: parse_host_def)

lemma check_hosts_ok:
  "is_ok (check_hosts hs w) \<longleftrightarrow> (\<forall>(name, host)\<in>set hs. private_host host)"
proof (induction hs arbitrary: w)
  case (Cons h hs)
  obtain name host where h: "h = (name, host)" by force
  show ?case
  proof (cases "parse_host host")
    case None
    with parse_host_localhost have "host \<noteq> ''localhost''" by blast
    with None show ?thesis by (simp add: h private_host_def)
  next
    case (Some ip)
    with Cons show ?thesis by (simp add: h private_host_def)
  qed
qed simp

lemma check_hosts_Inl:
  "check_hosts hs w = Inl e \<Longrightarrow>
   \<exists>(name, host)\<in>set hs. \<not> private_host host \<and> (e = not_ip_error name host \<or> e = public_error name host)"
proof (induction hs arbitrary: w)
  case (Cons h hs)
  obtain name host where h: "h = (name, host)" by force
  from Cons.prems show ?case
    by (auto simp: h private_host_def split: option.splits if_splits dest!: Cons.IH)
qed simp

lemma validate_bind_ok:
  "is_ok (validate_bind_security c) \<longleftrightarrow>
     tls_enabled (hub_tls c) \<or> (private_host (hub_grpc_host c) \<and> private_host (hub_rest_host c))"
proof -
  have "is_ok (map_sum id (\<lambda>_. ()) r) = is_ok r" for r :: "sentinel_error + bool"
    by (cases r) simp_all
  then show ?thesis
    by (simp add: validate_bind_security_def check_hosts_ok bind_hosts_def del: check_hosts.simps)
qed

text \<open>
  C26: The bind guard admits exactly the private hosts. Without \<open>tls.enabled\<close> a configuration passes if
  and only if both hosts parse as addresses in 127.0.0.0/8, as \<open>::1\<close> or in the Tailscale range
  100.64.0.0/10 (\<open>localhost\<close> counting as 127.0.0.1).
\<close>

theorem bind_guard_admits_private_hosts:
  "is_ok (validate_bind_security c) \<longleftrightarrow>
     tls_enabled (hub_tls c)
     \<or> list_all (\<lambda>h. case parse_host h of
           None \<Rightarrow> False
         | Some (V4 a b _ _) \<Rightarrow> a = 127 \<or> a = 100 \<and> 64 \<le> b \<and> b \<le> 127
         | Some (V6 gs) \<Rightarrow> gs = [0, 0, 0, 0, 0, 0, 0, 1]) [hub_grpc_host c, hub_rest_host c]"
  by (auto simp: validate_bind_ok private_host_def is_loopback_def is_tailscale_def
      split: option.splits ip_addr.splits)

end
