(* ===== verification/Noise.thy ===== *)
theory Noise
  imports Config LogEntry
begin

text \<open>
  The noise filter, \<open>src/src/log_scanner/filter.rs\<close>. The regexes it compiles are built from escaped
  literals, so a compiled pattern is one of three shapes: a set of literals to find anywhere, a set
  of literals to find at the end of the text (\<open>(?:a|b)$\<close>), and \<open>$^\<close>, which matches the empty text.
\<close>

datatype noise_pattern = Anywhere "string list" | AtEnd "string list" | EmptyText

fun is_match :: "noise_pattern \<Rightarrow> string \<Rightarrow> bool" where
  "is_match (Anywhere ls) s \<longleftrightarrow> list_ex (contains s) ls"
| "is_match (AtEnd ls) s \<longleftrightarrow> list_ex (ends_with s) ls"
| "is_match EmptyText s \<longleftrightarrow> s = []"

record noise_filter =
  nz_excluded_ips :: "ip_addr list"
  nz_health_check_paths :: "string list"
  nz_static_asset_pattern :: noise_pattern
  nz_bot_user_agents :: "noise_pattern list"
  nz_scanner_paths :: noise_pattern

definition extension_literal :: "string \<Rightarrow> string" where
  "extension_literal ext = (if CHR ''.'' \<in> set ext then ext else CHR ''.'' # ext)"

definition scanner_path_literals :: "string list" where
  "scanner_path_literals =
     [''/wp-admin'', ''/wp-login'', ''/phpmyadmin'', ''/.env'', ''/.git'', ''/admin.php'',
      ''/xmlrpc.php'']"

definition noise_from_config :: "noise_filter_config \<Rightarrow> noise_filter" where
  "noise_from_config c =
     \<lparr> nz_excluded_ips = nf_excluded_ips c,
       nz_health_check_paths = nf_health_check_paths c,
       nz_static_asset_pattern =
         (if nf_static_asset_extensions c = [] then EmptyText
          else AtEnd (map extension_literal (nf_static_asset_extensions c))),
       nz_bot_user_agents = map (\<lambda>ua. Anywhere [ua]) (nf_known_bot_user_agents c),
       nz_scanner_paths = Anywhere scanner_path_literals \<rparr>"

definition noise_new :: noise_filter where
  "noise_new = noise_from_config default_noise_filter"

definition with_excluded_ips :: "noise_filter \<Rightarrow> ip_addr list \<Rightarrow> noise_filter" where
  "with_excluded_ips f ips = f \<lparr> nz_excluded_ips := ips \<rparr>"

datatype filter_result = Keep | Exclude string | Aggregate string | FlagSecurity string

definition should_store :: "filter_result \<Rightarrow> bool" where
  "should_store r = (case r of Exclude _ \<Rightarrow> False | _ \<Rightarrow> True)"

definition is_security_flag :: "filter_result \<Rightarrow> bool" where
  "is_security_flag r = (case r of FlagSecurity _ \<Rightarrow> True | _ \<Rightarrow> False)"

definition opt_holds :: "('a \<Rightarrow> bool) \<Rightarrow> 'a option \<Rightarrow> bool" where
  "opt_holds P x = (case x of None \<Rightarrow> False | Some a \<Rightarrow> P a)"

definition evaluate :: "noise_filter \<Rightarrow> parsed_log_entry \<Rightarrow> filter_result" where
  "evaluate f e =
     (let md = pe_metadata e; path = md_request_path md
      in if opt_holds (\<lambda>ip. ip \<in> set (nz_excluded_ips f)) (md_client_ip md) then Exclude ''excluded IP''
         else if opt_holds (\<lambda>p. p \<in> set (nz_health_check_paths f)) path then Aggregate ''health check''
         else if opt_holds (is_match (nz_scanner_paths f)) path
           then FlagSecurity (''scanner path: '' @ the path)
         else if opt_holds (is_match (nz_static_asset_pattern f)) path then Aggregate ''static asset''
         else if opt_holds (\<lambda>ua. list_ex (\<lambda>p. is_match p ua) (nz_bot_user_agents f)) (md_user_agent md)
           then Aggregate (''bot: '' @ the (md_user_agent md))
         else Keep)"

section \<open>Decisions\<close>

lemma opt_holds_Some [simp]: "opt_holds P (Some a) = P a" "opt_holds P None = False"
  by (simp_all add: opt_holds_def)

lemma opt_holds_iff: "opt_holds P x \<longleftrightarrow> (\<exists>a. x = Some a \<and> P a)"
  by (cases x) simp_all

lemma noise_from_config_sel [simp]:
  "nz_excluded_ips (noise_from_config c) = nf_excluded_ips c"
  "nz_health_check_paths (noise_from_config c) = nf_health_check_paths c"
  "nz_scanner_paths (noise_from_config c) = Anywhere scanner_path_literals"
  "nz_bot_user_agents (noise_from_config c) = map (\<lambda>ua. Anywhere [ua]) (nf_known_bot_user_agents c)"
  by (simp_all add: noise_from_config_def)

text \<open>Only a listed client address is excluded, and it is excluded whatever else the line says.\<close>

lemma evaluate_exclude:
  "(\<exists>r. evaluate f e = Exclude r) \<longleftrightarrow>
     (\<exists>ip. md_client_ip (pe_metadata e) = Some ip \<and> ip \<in> set (nz_excluded_ips f))"
  by (auto simp: evaluate_def Let_def opt_holds_iff)

lemma evaluate_flag:
  "evaluate f e = FlagSecurity r \<longleftrightarrow>
     \<not> opt_holds (\<lambda>ip. ip \<in> set (nz_excluded_ips f)) (md_client_ip (pe_metadata e))
     \<and> (\<exists>p. md_request_path (pe_metadata e) = Some p \<and> p \<notin> set (nz_health_check_paths f)
          \<and> is_match (nz_scanner_paths f) p \<and> r = ''scanner path: '' @ p)"
  by (auto simp: evaluate_def Let_def opt_holds_iff)

lemma evaluate_reason_lengths:
  assumes "evaluate f e = Aggregate r"
  shows "r = ''health check'' \<or> r = ''static asset''
    \<or> (\<exists>ua. md_user_agent (pe_metadata e) = Some ua \<and> r = ''bot: '' @ ua)"
  using assms by (auto simp: evaluate_def Let_def opt_holds_iff split: if_splits)

lemma static_asset_match:
  assumes "nf_static_asset_extensions c \<noteq> []"
  shows "is_match (nz_static_asset_pattern (noise_from_config c)) p \<longleftrightarrow>
    (\<exists>ext\<in>set (nf_static_asset_extensions c). ends_with p (extension_literal ext))"
  using assms by (auto simp: noise_from_config_def list_ex_iff)

text \<open>Without extensions the pattern is \<open>$^\<close>, and that pattern does match the empty path.\<close>

lemma static_asset_empty:
  assumes "nf_static_asset_extensions c = []"
  shows "is_match (nz_static_asset_pattern (noise_from_config c)) p \<longleftrightarrow> p = []"
  using assms by (simp add: noise_from_config_def)

end
