(* ===== verification/Pipeline.thy ===== *)
theory Pipeline
  imports Parsers Classifier Noise ServiceRepo
begin

text \<open>
  The per-line pipeline, \<open>src/src/log_scanner/pipeline.rs\<close>: parser selection, parse, filter,
  classify, service resolution, and the row that is stored. Service resolution is an interface with
  laws (locale \<open>service_resolver\<close>); the database-backed and the in-memory resolver interpret it
  here, the agent's resolver where it is modelled.
\<close>

section \<open>Service resolution\<close>

definition unit_type_nginx_vhost :: string where "unit_type_nginx_vhost = ''nginx-vhost''"
definition unit_type_system_log :: string where "unit_type_system_log = ''system-log''"

type_synonym 's resolver = "'s \<Rightarrow> string \<Rightarrow> string \<Rightarrow> string option \<Rightarrow> uuid option \<times> 's"

text \<open>A resolution request: name, unit type, virtual host.\<close>

type_synonym resolve_request = "string \<times> string \<times> string option"

fun resolve_all :: "'s resolver \<Rightarrow> 's \<Rightarrow> resolve_request list \<Rightarrow> uuid option list \<times> 's" where
  "resolve_all resolve s [] = ([], s)"
| "resolve_all resolve s ((n, ut, vh) # rs) =
     (case resolve s n ut vh of (i, s') \<Rightarrow>
        (case resolve_all resolve s' rs of (ids, s'') \<Rightarrow> (i # ids, s'')))"

lemma resolve_all_Cons:
  "fst (resolve_all resolve s ((n, ut, vh) # rs)) =
     fst (resolve s n ut vh) # fst (resolve_all resolve (snd (resolve s n ut vh)) rs)"
  "snd (resolve_all resolve s ((n, ut, vh) # rs)) =
     snd (resolve_all resolve (snd (resolve s n ut vh)) rs)"
  by (simp_all add: case_prod_beta)

text \<open>
  The contract: an id that has been returned for a name is known from then on, a known id is what
  resolution returns, and resolving one name leaves the others alone.
\<close>

locale service_resolver =
  fixes resolve :: "'s \<Rightarrow> string \<Rightarrow> string \<Rightarrow> string option \<Rightarrow> uuid option \<times> 's"
    and known :: "'s \<Rightarrow> string \<Rightarrow> uuid option"
  assumes resolve_hit: "known s n = Some u \<Longrightarrow> fst (resolve s n ut vh) = Some u"
    and resolve_learn: "fst (resolve s n ut vh) = Some u \<Longrightarrow> known (snd (resolve s n ut vh)) n = Some u"
    and resolve_frame: "m \<noteq> n \<Longrightarrow> known (snd (resolve s n ut vh)) m = known s m"
begin

lemma known_mono: "known s m = Some u \<Longrightarrow> known (snd (resolve s n ut vh)) m = Some u"
  using resolve_hit resolve_learn resolve_frame by (metis (no_types))

lemma resolve_all_known: "known s m = Some u \<Longrightarrow> known (snd (resolve_all resolve s rs)) m = Some u"
proof (induction rs arbitrary: s)
  case (Cons r rs)
  obtain n ut vh where r: "r = (n, ut, vh)" by (cases r)
  from Cons.prems have "known (snd (resolve s n ut vh)) m = Some u" by (rule known_mono)
  then show ?case unfolding r resolve_all_Cons by (rule Cons.IH)
qed simp

lemma resolve_all_hit:
  assumes "known s n = Some u" "(n, ut, vh) = rs ! i" "i < length rs"
  shows "fst (resolve_all resolve s rs) ! i = Some u"
  using assms
proof (induction rs arbitrary: s i)
  case (Cons r rs)
  obtain n' ut' vh' where r: "r = (n', ut', vh')" by (cases r)
  show ?case
  proof (cases i)
    case 0
    with Cons.prems r show ?thesis
      using resolve_hit [of s n u ut vh] by (simp add: resolve_all_Cons del: resolve_all.simps)
  next
    case (Suc j)
    have "known (snd (resolve s n' ut' vh')) n = Some u" using Cons.prems(1) by (rule known_mono)
    with Cons.IH [of "snd (resolve s n' ut' vh')" j] Cons.prems Suc r
    show ?thesis by (simp add: resolve_all_Cons del: resolve_all.simps)
  qed
qed simp

lemma length_resolve_all: "length (fst (resolve_all resolve s rs)) = length rs"
proof (induction rs arbitrary: s)
  case (Cons r rs)
  then show ?case by (cases r) (simp add: resolve_all_Cons del: resolve_all.simps)
qed simp

text \<open>Once a name has got an id, every later request for it gets the same id.\<close>

lemma resolve_stable:
  assumes "i < j" "j < length rs" "fst (rs ! i) = fst (rs ! j)"
    and "fst (resolve_all resolve s rs) ! i = Some u"
  shows "fst (resolve_all resolve s rs) ! j = Some u"
  using assms
proof (induction rs arbitrary: s i j)
  case (Cons r rs)
  obtain n ut vh where r: "r = (n, ut, vh)" by (cases r)
  let ?s = "snd (resolve s n ut vh)"
  have all: "fst (resolve_all resolve s (r # rs)) =
    fst (resolve s n ut vh) # fst (resolve_all resolve ?s rs)"
    unfolding r by (rule resolve_all_Cons)
  obtain j' where j: "j = Suc j'" "j' < length rs" using Cons.prems(1,2) by (cases j) auto
  show ?case
  proof (cases i)
    case 0
    with Cons.prems(4) all have "known ?s n = Some u" by (simp add: resolve_learn)
    moreover obtain ut' vh' where "rs ! j' = (n, ut', vh')"
      using Cons.prems(3) j 0 r by (cases "rs ! j'") auto
    ultimately have "fst (resolve_all resolve ?s rs) ! j' = Some u"
      using j by (intro resolve_all_hit [where ut = ut' and vh = vh']) simp_all
    with all j show ?thesis by simp
  next
    case (Suc i')
    with Cons.IH [of i' j' ?s] Cons.prems all j show ?thesis by simp
  qed
qed simp

lemma resolve_all_learns:
  assumes "i < length rs" "fst (resolve_all resolve s rs) ! i = Some u"
  shows "known (snd (resolve_all resolve s rs)) (fst (rs ! i)) = Some u"
  using assms
proof (induction rs arbitrary: s i)
  case (Cons r rs)
  obtain n ut vh where r: "r = (n, ut, vh)" by (cases r)
  let ?s = "snd (resolve s n ut vh)"
  have all: "fst (resolve_all resolve s (r # rs)) = fst (resolve s n ut vh) # fst (resolve_all resolve ?s rs)"
    "snd (resolve_all resolve s (r # rs)) = snd (resolve_all resolve ?s rs)"
    unfolding r by (rule resolve_all_Cons)+
  show ?case
  proof (cases i)
    case 0
    with Cons.prems all have "known ?s n = Some u" by (simp add: resolve_learn)
    with 0 r all show ?thesis by (simp add: resolve_all_known)
  next
    case (Suc j)
    with Cons.IH [of j ?s] Cons.prems all show ?thesis by simp
  qed
qed simp

end

text \<open>A resolver that always answers.\<close>

locale total_resolver = service_resolver +
  assumes resolve_total: "fst (resolve s n ut vh) \<noteq> None"
begin

lemma resolve_all_total:
  "None \<notin> set (fst (resolve_all resolve s rs))"
proof (induction rs arbitrary: s)
  case (Cons r rs)
  obtain n ut vh where r: "r = (n, ut, vh)" by (cases r)
  have "fst (resolve_all resolve s (r # rs)) =
    fst (resolve s n ut vh) # fst (resolve_all resolve (snd (resolve s n ut vh)) rs)"
    unfolding r by (rule resolve_all_Cons)
  then show ?case using Cons.IH resolve_total [of s n ut vh] by auto
qed simp

lemma same_name_same_id:
  assumes "i < length rs" "j < length rs" "fst (rs ! i) = fst (rs ! j)"
  shows "fst (resolve_all resolve s rs) ! i = fst (resolve_all resolve s rs) ! j"
proof -
  let ?a = "fst (resolve_all resolve s rs)"
  have some: "\<exists>u. ?a ! k = Some u" if "k < length rs" for k
    using resolve_all_total [of s rs] that length_resolve_all [of s rs]
    by (metis not_None_eq nth_mem)
  consider "i < j" | "j < i" | "i = j" by linarith
  then show ?thesis
    using some [OF assms(1)] some [OF assms(2)] resolve_stable assms by cases metis+
qed

end

subsection \<open>The database-backed resolver\<close>

record db_resolver =
  dr_cache :: "string \<Rightarrow> uuid option"
  dr_db :: services_db

definition db_resolver_new :: "services_db \<Rightarrow> db_resolver" where
  "db_resolver_new db = \<lparr> dr_cache = Map.empty, dr_db = db \<rparr>"

definition db_resolve :: "db_resolver resolver" where
  "db_resolve s name unit_type virtual_host =
     (case dr_cache s name of
        Some u \<Rightarrow> (Some u, s)
      | None \<Rightarrow>
          (case service_get_or_create
                  \<lparr> is_name = name, is_unit_type = unit_type, is_log_paths = None,
                    is_virtual_host = virtual_host \<rparr> (dr_db s) of
             (Inr u, db') \<Rightarrow> (Some u, \<lparr> dr_cache = (dr_cache s)(name \<mapsto> u), dr_db = db' \<rparr>)
           | (Inl _, db') \<Rightarrow> (None, s \<lparr> dr_db := db' \<rparr>)))"

interpretation db_res: service_resolver db_resolve dr_cache
  by unfold_locales (auto simp: db_resolve_def split: option.splits prod.splits sum.splits)

text \<open>Every cached id is the id of the table's row with that name.\<close>

definition db_resolver_ok :: "db_resolver \<Rightarrow> bool" where
  "db_resolver_ok s \<longleftrightarrow>
     services_ok (dr_db s)
     \<and> (\<forall>n u. dr_cache s n = Some u \<longrightarrow> (\<exists>r\<in>set (sv_rows (dr_db s)). sv_name r = n \<and> sv_id r = u))"

lemma db_resolver_new_ok: "services_ok db \<Longrightarrow> db_resolver_ok (db_resolver_new db)"
  by (simp add: db_resolver_ok_def db_resolver_new_def)

lemma db_resolve_ok:
  assumes "db_resolver_ok s"
  shows "db_resolver_ok (snd (db_resolve s n ut vh))"
proof (cases "dr_cache s n")
  case (Some u)
  with assms show ?thesis by (simp add: db_resolve_def)
next
  case None
  let ?q = "\<lparr> is_name = n, is_unit_type = ut, is_log_paths = None, is_virtual_host = vh \<rparr>"
  obtain r db' where q: "service_get_or_create ?q (dr_db s) = (r, db')" by force
  have ok: "services_ok db'"
    using service_get_or_create_ok [of "dr_db s" ?q] q assms by (simp add: db_resolver_ok_def)
  have mono: "set (sv_rows (dr_db s)) \<subseteq> set (sv_rows db')"
    using service_get_or_create_mono [of "dr_db s" ?q] q by simp
  show ?thesis
  proof (cases r)
    case (Inl e)
    with None q ok mono assms show ?thesis
      by (fastforce simp: db_resolve_def db_resolver_ok_def)
  next
    case (Inr u)
    have "\<exists>r\<in>set (sv_rows db'). sv_name r = n \<and> sv_id r = u"
      using service_get_or_create_row [of ?q "dr_db s" u db'] q Inr by simp
    with None q ok mono assms Inr show ?thesis
      by (fastforce simp: db_resolve_def db_resolver_ok_def)
  qed
qed

subsection \<open>The in-memory resolver\<close>

text \<open>\<open>Uuid::new_v4\<close> draws the next id of a supply.\<close>

record mem_resolver =
  mr_services :: "string \<Rightarrow> uuid option"
  mr_supply :: "nat \<Rightarrow> uuid"
  mr_next :: nat

definition mem_id_of :: "mem_resolver \<Rightarrow> string \<Rightarrow> uuid option" where
  "mem_id_of s n = mr_services s n"

definition mem_resolve :: "mem_resolver resolver" where
  "mem_resolve s name unit_type virtual_host =
     (case mr_services s name of
        Some u \<Rightarrow> (Some u, s)
      | None \<Rightarrow>
          (let u = mr_supply s (mr_next s)
           in (Some u, s \<lparr> mr_services := (mr_services s)(name \<mapsto> u), mr_next := Suc (mr_next s) \<rparr>)))"

interpretation mem_res: total_resolver mem_resolve mem_id_of
  by unfold_locales (auto simp: mem_resolve_def mem_id_of_def Let_def split: option.splits)

section \<open>Parser selection\<close>

record log_parser =
  lp_name :: string
  lp_parse :: "string \<Rightarrow> parse_error + parsed_log_entry option"

record parser_match =
  pm_names :: "string list"
  pm_parser :: log_parser

definition parser_matches :: "parser_match \<Rightarrow> string \<Rightarrow> bool" where
  "parser_matches m name = list_ex (\<lambda>n. n = ''*'' \<or> n = name) (pm_names m)"

text \<open>The libraries and the clock that the parsers call.\<close>

record parse_env =
  env_nginx_re :: nginx_re
  env_auth_res :: auth_res
  env_chrono :: time_parser
  env_rfc3339 :: "string \<Rightarrow> datetime option"
  env_year :: int
  env_lower :: "string \<Rightarrow> string"
  env_lossy :: "string \<Rightarrow> string"

definition auth_parser :: "parse_env \<Rightarrow> log_parser" where
  "auth_parser env =
     \<lparr> lp_name = ''syslog'',
       lp_parse = auth_parse (env_auth_res env) (env_rfc3339 env) (env_chrono env) (env_year env) \<rparr>"

definition nginx_parser :: "parse_env \<Rightarrow> log_parser" where
  "nginx_parser env =
     \<lparr> lp_name = ''nginx_combined'', lp_parse = nginx_parse (env_nginx_re env) (env_chrono env) \<rparr>"

definition default_registry :: "parse_env \<Rightarrow> parser_match list" where
  "default_registry env =
     [\<lparr> pm_names = [''auth.log''], pm_parser = auth_parser env \<rparr>,
      \<lparr> pm_names = [''*''], pm_parser = nginx_parser env \<rparr>]"

text \<open>\<open>None\<close> is the panic of an empty registry.\<close>

definition for_path :: "parser_match list \<Rightarrow> path \<Rightarrow> log_parser option" where
  "for_path ms p =
     (let n = unwrap_or [] (file_name p)
      in case find (\<lambda>m. parser_matches m n) ms of
           Some m \<Rightarrow> Some (pm_parser m)
         | None \<Rightarrow> if ms = [] then None else Some (pm_parser (last ms)))"

lemma for_path_default:
  "for_path (default_registry env) p =
     Some (if file_name p = Some ''auth.log'' then auth_parser env else nginx_parser env)"
  by (cases "file_name p") (auto simp: for_path_def default_registry_def parser_matches_def unwrap_or_def)

section \<open>One line\<close>

definition classify_level :: "log_level \<Rightarrow> threat_result \<Rightarrow> log_level" where
  "classify_level base threat = (if High \<le> tr_level threat then Security else base)"

definition display_path :: "parse_env \<Rightarrow> path \<Rightarrow> string" where
  "display_path env p = (if utf8_ok p then p else env_lossy env p)"

definition line_parse_error :: "parse_env \<Rightarrow> log_parser \<Rightarrow> path \<Rightarrow> parse_error \<Rightarrow> sentinel_error" where
  "line_parse_error env parser p e =
     ParseError (lp_name parser @ '' ['' @ display_path env p @ '']: '' @ display_parse_error e)"

definition is_noise_result :: "filter_result \<Rightarrow> bool" where
  "is_noise_result r = (case r of Exclude _ \<Rightarrow> True | Aggregate _ \<Rightarrow> True | _ \<Rightarrow> False)"

definition noise_reason_of :: "filter_result \<Rightarrow> string option" where
  "noise_reason_of r = (case r of Exclude s \<Rightarrow> Some s | Aggregate s \<Rightarrow> Some s | _ \<Rightarrow> None)"

definition entry_virtual_host :: "path \<Rightarrow> parsed_log_entry \<Rightarrow> string option" where
  "entry_virtual_host p e =
     (case vhost_from_file_path p of Some v \<Rightarrow> Some v | None \<Rightarrow> md_virtual_host (pe_metadata e))"

text \<open>The request the pipeline makes to the resolver.\<close>

definition service_request :: "path \<Rightarrow> parsed_log_entry \<Rightarrow> resolve_request" where
  "service_request p e =
     (case entry_virtual_host p e of
        Some v \<Rightarrow> (v, unit_type_nginx_vhost, Some v)
      | None \<Rightarrow> (unwrap_or ''unknown-log'' (file_name p), unit_type_system_log, None))"

definition build_entry ::
  "uuid option \<Rightarrow> parsed_log_entry \<Rightarrow> filter_result \<Rightarrow> threat_result \<Rightarrow> insert_log_entry" where
  "build_entry sid e fr threat =
     (let level = (if is_security_flag fr then Security else classify_level (pe_level e) threat);
          md = pe_metadata e
      in \<lparr> le_service_id = sid, le_timestamp = pe_timestamp e, le_level = level_as_str level,
           le_message = pe_message e,
           le_raw_line = (if is_noise_result fr then None else Some (pe_raw e)),
           le_client_ip = map_option show_ip (md_client_ip md),
           le_request_path = md_request_path md, le_status_code = md_status_code md,
           le_response_time_ms = md_response_time_ms md,
           le_is_noise = is_noise_result fr, le_noise_reason = noise_reason_of fr,
           le_threat_level = threat_level_as_str (tr_level threat),
           le_threat_categories = map category_as_str (tr_categories threat),
           le_source_host = None \<rparr>)"

definition process_with ::
  "parse_env \<Rightarrow> log_parser \<Rightarrow> noise_filter \<Rightarrow> 's resolver \<Rightarrow> tail_line \<Rightarrow> 's \<Rightarrow>
   (sentinel_error + insert_log_entry option) \<times> 's" where
  "process_with env parser f resolve line s =
     (case lp_parse parser (tl_line line) of
        Inl e \<Rightarrow> (Inl (line_parse_error env parser (tl_file_path line) e), s)
      | Inr None \<Rightarrow> (Inr None, s)
      | Inr (Some e) \<Rightarrow>
          (case service_request (tl_file_path line) e of (n, ut, vh) \<Rightarrow>
            (case resolve s n ut vh of (sid, s') \<Rightarrow>
              (Inr (Some (build_entry sid e (evaluate f e) (classify (env_lower env) e))), s'))))"

definition process_line ::
  "parse_env \<Rightarrow> parser_match list \<Rightarrow> noise_filter \<Rightarrow> 's resolver \<Rightarrow> tail_line \<Rightarrow> 's \<Rightarrow>
   ((sentinel_error + insert_log_entry option) \<times> 's) option" where
  "process_line env registry f resolve line s =
     map_option (\<lambda>parser. process_with env parser f resolve line s)
       (for_path registry (tl_file_path line))"

text \<open>The parser the default registry picks, and a run over several lines.\<close>

definition default_parser :: "parse_env \<Rightarrow> path \<Rightarrow> log_parser" where
  "default_parser env p =
     (if file_name p = Some ''auth.log'' then auth_parser env else nginx_parser env)"

lemma default_parser_ip_ok:
  "lp_parse (default_parser env p) line = Inr (Some e) \<Longrightarrow> entry_ip_ok e"
  by (auto simp: default_parser_def auth_parser_def nginx_parser_def nginx_parse_ip_ok auth_parse_ip_ok
      split: if_splits)

fun process_lines ::
  "parse_env \<Rightarrow> noise_filter \<Rightarrow> 's resolver \<Rightarrow> tail_line list \<Rightarrow> 's \<Rightarrow>
   (sentinel_error + insert_log_entry option) list \<times> 's" where
  "process_lines env f resolve [] s = ([], s)"
| "process_lines env f resolve (l # ls) s =
     (case process_with env (default_parser env (tl_file_path l)) f resolve l s of
        (r, s') \<Rightarrow> (case process_lines env f resolve ls s' of (rs, s'') \<Rightarrow> (r # rs, s'')))"

lemma process_line_default:
  "process_line env (default_registry env) f resolve line s =
     Some (process_with env (default_parser env (tl_file_path line)) f resolve line s)"
  by (simp add: process_line_def for_path_default default_parser_def)

section \<open>Rows\<close>

lemma build_entry_sel [simp]:
  "le_service_id (build_entry sid e fr threat) = sid"
  "le_timestamp (build_entry sid e fr threat) = pe_timestamp e"
  "le_message (build_entry sid e fr threat) = pe_message e"
  "le_raw_line (build_entry sid e fr threat) = (if is_noise_result fr then None else Some (pe_raw e))"
  "le_client_ip (build_entry sid e fr threat) = map_option show_ip (md_client_ip (pe_metadata e))"
  "le_request_path (build_entry sid e fr threat) = md_request_path (pe_metadata e)"
  "le_status_code (build_entry sid e fr threat) = md_status_code (pe_metadata e)"
  "le_response_time_ms (build_entry sid e fr threat) = md_response_time_ms (pe_metadata e)"
  "le_is_noise (build_entry sid e fr threat) = is_noise_result fr"
  "le_noise_reason (build_entry sid e fr threat) = noise_reason_of fr"
  "le_threat_level (build_entry sid e fr threat) = threat_level_as_str (tr_level threat)"
  "le_threat_categories (build_entry sid e fr threat) = map category_as_str (tr_categories threat)"
  "le_source_host (build_entry sid e fr threat) = None"
  by (simp_all add: build_entry_def Let_def)

text \<open>A row up to the id of its service.\<close>

definition without_id :: "insert_log_entry \<Rightarrow> insert_log_entry" where
  "without_id r = r \<lparr> le_service_id := None \<rparr>"

lemma without_id_build: "without_id (build_entry sid e fr threat) = build_entry None e fr threat"
  by (simp add: without_id_def build_entry_def Let_def)

lemma process_with_Some:
  assumes "process_with env parser f resolve line s = (Inr (Some row), s')"
  obtains e where "lp_parse parser (tl_line line) = Inr (Some e)"
    "row = build_entry (fst (resolve s (fst (service_request (tl_file_path line) e))
        (fst (snd (service_request (tl_file_path line) e)))
        (snd (snd (service_request (tl_file_path line) e))))) e (evaluate f e) (classify (env_lower env) e)"
  using assms by (auto simp: process_with_def case_prod_beta split: sum.splits option.splits)

text \<open>A stored row is \<open>security\<close> exactly for the three reasons the code gives.\<close>

lemma build_entry_security:
  "level_from_db (le_level (build_entry sid e fr threat)) = Security \<longleftrightarrow>
     is_security_flag fr \<or> High \<le> tr_level threat \<or> pe_level e = Security"
  by (simp add: build_entry_def Let_def classify_level_def)

lemma build_entry_noise:
  "le_is_noise (build_entry sid e fr threat) \<longleftrightarrow> le_raw_line (build_entry sid e fr threat) = None"
  "le_is_noise (build_entry sid e fr threat) \<longleftrightarrow> le_noise_reason (build_entry sid e fr threat) \<noteq> None"
  by (cases fr; simp add: is_noise_result_def noise_reason_of_def)+

section \<open>A run of lines and the resolver\<close>

text \<open>The requests that a run makes: one per line that parses to an entry.\<close>

definition line_request :: "parse_env \<Rightarrow> tail_line \<Rightarrow> resolve_request option" where
  "line_request env l =
     (case lp_parse (default_parser env (tl_file_path l)) (tl_line l) of
        Inr (Some e) \<Rightarrow> Some (service_request (tl_file_path l) e)
      | _ \<Rightarrow> None)"

definition row_of :: "sentinel_error + insert_log_entry option \<Rightarrow> insert_log_entry option" where
  "row_of r = (case r of Inr (Some x) \<Rightarrow> Some x | _ \<Rightarrow> None)"

lemma process_with_request:
  "fst (process_with env (default_parser env (tl_file_path l)) f resolve l s) = r \<Longrightarrow>
   map_option le_service_id (row_of r) =
     map_option (\<lambda>(n, ut, vh). fst (resolve s n ut vh)) (line_request env l)"
  "snd (process_with env (default_parser env (tl_file_path l)) f resolve l s) =
     (case line_request env l of None \<Rightarrow> s | Some (n, ut, vh) \<Rightarrow> snd (resolve s n ut vh))"
  by (auto simp: process_with_def line_request_def row_of_def case_prod_beta
      split: sum.splits option.splits)

lemma process_lines_Cons:
  "fst (process_lines env f resolve (l # ls) s) =
     fst (process_with env (default_parser env (tl_file_path l)) f resolve l s)
     # fst (process_lines env f resolve ls
         (snd (process_with env (default_parser env (tl_file_path l)) f resolve l s)))"
  by (simp add: case_prod_beta)

lemma process_lines_ids:
  "map le_service_id (List.map_filter row_of (fst (process_lines env f resolve ls s))) =
     fst (resolve_all resolve s (List.map_filter (line_request env) ls))"
proof (induction ls arbitrary: s)
  case (Cons l ls)
  let ?p = "process_with env (default_parser env (tl_file_path l)) f resolve l s"
  note rq = process_with_request(1) [of env l f resolve s "fst ?p", OF refl]
  note st = process_with_request(2) [of env l f resolve s]
  show ?case
  proof (cases "line_request env l")
    case None
    with rq st have "row_of (fst ?p) = None" "snd ?p = s" by simp_all
    with None Cons.IH [of s] show ?thesis
      by (simp add: process_lines_Cons del: process_lines.simps)
  next
    case (Some q)
    obtain n ut vh where q: "q = (n, ut, vh)" by (cases q)
    obtain row where row: "row_of (fst ?p) = Some row" "le_service_id row = fst (resolve s n ut vh)"
      using rq Some q by auto
    have "snd ?p = snd (resolve s n ut vh)" using st Some q by simp
    with row Some q Cons.IH [of "snd (resolve s n ut vh)"] show ?thesis
      by (simp add: process_lines_Cons resolve_all_Cons del: process_lines.simps resolve_all.simps)
  qed
qed (simp add: map_filter_def)

text \<open>Libraries under which every line of a log is a syslog message.\<close>

definition sample_parse_env :: parse_env where
  "sample_parse_env =
     \<lparr> env_nginx_re = (\<lambda>_. None),
       env_auth_res = \<lparr> iso_syslog_re = (\<lambda>l. Some (''2025-01-01T00:00:00Z'', ''sshd'', l)),
         syslog_timestamp_re = (\<lambda>_. None), ssh_failed_re = (\<lambda>_. None), ssh_accepted_re = (\<lambda>_. None) \<rparr>,
       env_chrono = (\<lambda>_ _. None), env_rfc3339 = (\<lambda>_. Some 0), env_year = 2025, env_lower = (\<lambda>s. s),
       env_lossy = (\<lambda>s. s) \<rparr>"

lemma sample_parse:
  assumes "file_name p = Some ''auth.log''" "visible c"
  shows "\<exists>e. lp_parse (default_parser sample_parse_env p) [c] = Inr (Some e) \<and> pe_message e = ''[sshd] '' @ [c]"
proof -
  have "trim [c] = [c]" using assms(2) by (intro trim_visible) simp
  with assms(1) show ?thesis
    by (simp add: default_parser_def auth_parser_def auth_parse_def sample_parse_env_def Let_def
        classify_auth_message_def)
qed

lemma db_resolve_all_ok:
  "db_resolver_ok s \<Longrightarrow> db_resolver_ok (snd (resolve_all db_resolve s rs))"
proof (induction rs arbitrary: s)
  case (Cons r rs)
  obtain n ut vh where r: "r = (n, ut, vh)" by (cases r)
  from Cons.IH [OF db_resolve_ok [OF Cons.prems, of n ut vh]] show ?case
    unfolding r by (simp only: resolve_all_Cons)
qed simp

lemma process_lines_state:
  "snd (process_lines env f resolve ls s) = snd (resolve_all resolve s (List.map_filter (line_request env) ls))"
proof (induction ls arbitrary: s)
  case (Cons l ls)
  let ?p = "process_with env (default_parser env (tl_file_path l)) f resolve l s"
  have "snd (process_lines env f resolve (l # ls) s) = snd (process_lines env f resolve ls (snd ?p))"
    by (simp add: case_prod_beta)
  with Cons.IH [of "snd ?p"] process_with_request(2) [of env l f resolve s] show ?case
    by (cases "line_request env l") (auto simp: map_filter_simps case_prod_beta)
qed (simp add: map_filter_def)

text \<open>
  C23: Lines of one service share one id, which is that of the service's row. In a run over any lines
  with the database-backed resolver, when a row has got an id, every later row whose line belongs to the
  same service (virtual host, or file) gets that id, and the table has a row of that name with that id,
  ids and names being unique.
\<close>

theorem rows_of_one_service_share_its_id:
  assumes "services_ok db"
    and "process_lines env f db_resolve ls (db_resolver_new db) = (rs, s)"
    and "rows = List.map_filter row_of rs" "requests = List.map_filter (line_request env) ls"
    and "i < j" "j < length requests" "fst (requests ! i) = fst (requests ! j)"
    and "le_service_id (rows ! i) = Some u"
  shows "le_service_id (rows ! j) = Some u
    \<and> (\<exists>!r. r \<in> set (sv_rows (dr_db s)) \<and> sv_id r = u) \<and> (\<exists>r\<in>set (sv_rows (dr_db s)). sv_id r = u \<and> sv_name r = fst (requests ! i))"
proof -
  let ?s = "db_resolver_new db"
  have ids: "map le_service_id rows = fst (resolve_all db_resolve ?s requests)"
    using process_lines_ids [of env f db_resolve ls ?s] assms(2-4) by simp
  have "length rows = length requests"
    using arg_cong [OF ids, of length] by (simp add: db_res.length_resolve_all)
  with assms(5,6) have at: "le_service_id (rows ! k) = fst (resolve_all db_resolve ?s requests) ! k" if "k \<le> j" for k
    using ids that by (metis nth_map order.strict_trans1)
  have s: "s = snd (resolve_all db_resolve ?s requests)"
    using process_lines_state [of env f db_resolve ls ?s] assms(2,4) by simp
  have ok: "db_resolver_ok s"
    unfolding s by (rule db_resolve_all_ok) (rule db_resolver_new_ok [OF assms(1)])
  have u: "fst (resolve_all db_resolve ?s requests) ! i = Some u" using at [of i] assms(5,8) by simp
  have "dr_cache s (fst (requests ! i)) = Some u"
    unfolding s by (rule db_res.resolve_all_learns [OF _ u]) (use assms(5,6) in simp)
  with ok obtain r where r: "r \<in> set (sv_rows (dr_db s))" "sv_name r = fst (requests ! i)" "sv_id r = u"
    by (auto simp: db_resolver_ok_def)
  have "distinct (map sv_id (sv_rows (dr_db s)))" using ok by (simp add: db_resolver_ok_def services_ok_def)
  then have "\<exists>!r. r \<in> set (sv_rows (dr_db s)) \<and> sv_id r = u"
    using r by (auto simp: distinct_map inj_on_def)
  moreover have "le_service_id (rows ! j) = Some u"
    using db_res.resolve_stable [OF assms(5,6,7) u] at [of j] by simp
  ultimately show ?thesis using r by blast
qed

lemma sample_auth_request:
  assumes "file_name p = Some ''auth.log''" "visible c" "lp_parse (default_parser sample_parse_env p) [c] = Inr (Some e)"
  shows "service_request p e = (''auth.log'', ''system-log'', None)"
proof -
  have "trim [c] = [c]" using assms(2) by (intro trim_visible) simp
  with assms have "md_virtual_host (pe_metadata e) = None"
    by (auto simp: default_parser_def auth_parser_def auth_parse_def sample_parse_env_def Let_def
        case_prod_beta default_metadata_def)
  moreover have "vhost_from_file_path p = None"
    using assms(1) by (simp add: vhost_from_file_path_def ends_with_def)
  ultimately show ?thesis
    using assms(1) by (simp add: service_request_def entry_virtual_host_def unwrap_or_def unit_type_system_log_def)
qed

theorem rows_of_one_service_share_its_id_witness:
  "\<exists>rs s u. process_lines sample_parse_env noise_new db_resolve
       [\<lparr> tl_file_path = ''/v/auth.log'', tl_line = ''a'', tl_byte_offset = 0 \<rparr>,
        \<lparr> tl_file_path = ''/v/auth.log'', tl_line = ''b'', tl_byte_offset = 2 \<rparr>]
       (db_resolver_new sample_services_db) = (rs, s)
     \<and> map le_service_id (List.map_filter row_of rs) = [Some u, Some u]"
proof -
  let ?ls = "[\<lparr> tl_file_path = ''/v/auth.log'', tl_line = ''a'', tl_byte_offset = 0 \<rparr>,
    \<lparr> tl_file_path = ''/v/auth.log'', tl_line = ''b'', tl_byte_offset = 2 \<rparr>]"
  let ?q = "(''auth.log'', ''system-log'', None) :: resolve_request"
  obtain rs s where run: "process_lines sample_parse_env noise_new db_resolve ?ls (db_resolver_new sample_services_db) = (rs, s)"
    by (metis surj_pair)
  let ?rows = "List.map_filter row_of rs"
  have f: "file_name ''/v/auth.log'' = Some ''auth.log''" by code_simp
  have "line_request sample_parse_env \<lparr> tl_file_path = ''/v/auth.log'', tl_line = [c], tl_byte_offset = n \<rparr> = Some ?q"
    if "visible c" for c n
    using sample_parse [OF f that] sample_auth_request [OF f that] by (auto simp: line_request_def)
  then have rq: "[?q, ?q] = List.map_filter (line_request sample_parse_env) ?ls"
    by (simp add: map_filter_simps visible_def in_range_def byte_def)
  have ok: "services_ok sample_services_db" by (simp add: services_ok_def sample_services_db_def)
  have "fst (db_resolve (db_resolver_new sample_services_db) ''auth.log'' ''system-log'' None) = Some 1"
    by (simp add: db_resolve_def db_resolver_new_def service_get_or_create_def service_find_by_name_def
        service_create_def run_query_def sample_services_db_def tick_def)
  then have "fst (resolve_all db_resolve (db_resolver_new sample_services_db) [?q, ?q]) ! 0 = Some 1"
    by (simp add: resolve_all_Cons del: resolve_all.simps)
  moreover have ids: "map le_service_id ?rows
      = fst (resolve_all db_resolve (db_resolver_new sample_services_db) [?q, ?q])"
    using process_lines_ids [of sample_parse_env noise_new db_resolve ?ls "db_resolver_new sample_services_db"] run rq
    by simp
  moreover have "length ?rows = 2"
    using arg_cong [OF ids, of length] by (simp add: db_res.length_resolve_all del: resolve_all.simps)
  ultimately have rows: "length ?rows = 2" "le_service_id (?rows ! 0) = Some 1" by (metis nth_map zero_less_numeral)+
  from rows_of_one_service_share_its_id [OF ok run refl rq, of 0 1 1] rows(2)
  have "le_service_id (?rows ! 1) = Some 1" by simp
  moreover obtain a b where "?rows = [a, b]"
    using rows(1) by (auto simp: numeral_2_eq_2 length_Suc_conv)
  ultimately show ?thesis using run rows(2) by simp
qed

end
