(* ===== verification/Ingest.thy ===== *)
theory Ingest
  imports KeyAuth Validate HubRepos Pipeline
begin

text \<open>
  The gRPC ingestion service, \<open>src/src/hub/grpc.rs\<close>, with the messages of \<open>src/proto\<close>. The identity of
  the caller comes from the authenticated key; messages carry none. \<open>ms_ok\<close> says which millisecond
  counts chrono can represent; a handler reads the clock several times, so the readings are arguments.
\<close>

section \<open>Messages\<close>

record metric_point =
  mp_timestamp_ms :: int
  mp_cpu_percent :: double
  mp_mem_used_bytes :: "64 word"
  mp_mem_total_bytes :: "64 word"
  mp_disk_used_bytes :: "64 word"
  mp_disk_total_bytes :: "64 word"
  mp_load_1m :: double
  mp_load_5m :: double
  mp_net_rx_bytes_total :: "64 word"
  mp_net_tx_bytes_total :: "64 word"

record log_line =
  ll_timestamp_ms :: int
  ll_container :: string
  ll_stream :: string
  ll_message :: string

record proto_entry =
  pl_timestamp_ms :: int
  pl_level :: string
  pl_message :: string
  pl_raw_line :: "string option"
  pl_client_ip :: "string option"
  pl_request_path :: "string option"
  pl_status_code :: "32 word option"
  pl_response_time_ms :: "64 word option"
  pl_is_noise :: bool
  pl_noise_reason :: "string option"
  pl_threat_level :: string
  pl_threat_categories :: "string list"
  pl_service_name :: string
  pl_service_unit_type :: string
  pl_virtual_host :: "string option"

record logs_request =
  lq_lines :: "log_line list"
  lq_parsed_lines :: "proto_entry list"

record ack =
  ack_accepted :: bool
  ack_count :: "32 word"

datatype grpc_code =
  Unauthenticated | ResourceExhausted | InternalError | PermissionDenied | InvalidArgument

type_synonym grpc_status = "grpc_code \<times> string"

text \<open>A request: the \<open>x-api-key\<close> metadata if it is readable text, the peer address, the message.\<close>

record 'm grpc_request =
  gr_api_key :: "string option"
  gr_remote :: "string option"
  gr_message :: 'm

section \<open>The service\<close>

record 'l hub =
  hb_auth :: "'l auth_service"
  hb_agents :: agents_db
  hb_metrics :: metrics_db
  hb_logs :: log_db
  hb_services :: services_db

text \<open>The libraries a request meets: argon2, the rate limiter, the monotonic clock.\<close>

record ('h, 'l) hub_env =
  he_argon2 :: "'h argon2"
  he_limiter :: "'l \<Rightarrow> string \<Rightarrow> bool \<times> 'l"
  he_instant :: instant
  he_ms_ok :: "int \<Rightarrow> bool"

fun auth_status :: "auth_error \<Rightarrow> grpc_status" where
  "auth_status Malformed = (Unauthenticated, display_auth_error Malformed)"
| "auth_status UnknownKey = (Unauthenticated, display_auth_error UnknownKey)"
| "auth_status BadSignature = (Unauthenticated, display_auth_error BadSignature)"
| "auth_status RateLimited = (ResourceExhausted, display_auth_error RateLimited)"
| "auth_status (Storage m) = (InternalError, ''authentication storage failure: '' @ m)"

definition authorize ::
  "('h, 'l) hub_env \<Rightarrow> 'm grpc_request \<Rightarrow> 'l hub \<Rightarrow> (grpc_status + principal) \<times> 'l hub" where
  "authorize env rq s =
     (case gr_api_key rq of
        None \<Rightarrow> (Inl (Unauthenticated, ''missing x-api-key metadata''), s)
      | Some raw \<Rightarrow>
          (case check_ip_budget (he_limiter env) (unwrap_or ''unknown'' (gr_remote rq)) (hb_auth s) of
             (Inl e, a) \<Rightarrow> (Inl (auth_status e), s \<lparr> hb_auth := a \<rparr>)
           | (Inr _, a) \<Rightarrow>
               (case authenticate (he_argon2 env) (he_instant env) raw a of
                  (Inl e, a') \<Rightarrow> (Inl (auth_status e), s \<lparr> hb_auth := a' \<rparr>)
                | (Inr p, a') \<Rightarrow> (Inr p, s \<lparr> hb_auth := a' \<rparr>))))"

section \<open>Validation of messages\<close>

definition ts_from_ms :: "(int \<Rightarrow> bool) \<Rightarrow> datetime \<Rightarrow> int \<Rightarrow> datetime" where
  "ts_from_ms ms_ok now ms = (if ms_ok ms then ms * ns_per_ms else now)"

definition finite_metric :: "double \<Rightarrow> string \<Rightarrow> string + double" where
  "finite_metric v name =
     (case v of
        Finite q \<Rightarrow> if 0 \<le> q then Inr v else Inl (name @ '' must be a finite non-negative number'')
      | _ \<Rightarrow> Inl (name @ '' must be a finite non-negative number''))"

definition i64_max :: "64 word" where "i64_max = 0x7FFFFFFFFFFFFFFF"

definition clamp_i64 :: "64 word \<Rightarrow> 64 word" where
  "clamp_i64 w = min w i64_max"

definition validate_point ::
  "(int \<Rightarrow> bool) \<Rightarrow> datetime \<Rightarrow> datetime \<Rightarrow> metric_point \<Rightarrow> string \<Rightarrow> string + system_metric" where
  "validate_point ms_ok now now' p hostname =
     (let ts = ts_from_ms ms_ok now (mp_timestamp_ms p)
      in and_then (timestamp ts now') (\<lambda>_.
         and_then (finite_metric (mp_cpu_percent p) ''cpu_percent'') (\<lambda>cpu.
         and_then (finite_metric (mp_load_1m p) ''load_1m'') (\<lambda>l1.
         and_then (finite_metric (mp_load_5m p) ''load_5m'') (\<lambda>l5.
           Inr \<lparr> sm_host = Some hostname, sm_timestamp = ts, sm_cpu_usage_percent = cpu,
             sm_memory_used_bytes = clamp_i64 (mp_mem_used_bytes p),
             sm_memory_total_bytes = clamp_i64 (mp_mem_total_bytes p),
             sm_disk_used_bytes = clamp_i64 (mp_disk_used_bytes p),
             sm_disk_total_bytes = clamp_i64 (mp_disk_total_bytes p),
             sm_load_avg_1m = l1, sm_load_avg_5m = l5,
             sm_network_rx_bytes = clamp_i64 (mp_net_rx_bytes_total p),
             sm_network_tx_bytes = clamp_i64 (mp_net_tx_bytes_total p) \<rparr>)))))"

definition validate_log_line ::
  "(int \<Rightarrow> bool) \<Rightarrow> datetime \<Rightarrow> datetime \<Rightarrow> log_line \<Rightarrow> string \<Rightarrow> string + insert_log_entry" where
  "validate_log_line ms_ok now now' l hostname =
     and_then (container (ll_container l)) (\<lambda>_.
     and_then (stream (ll_stream l)) (\<lambda>_.
       let ts = ts_from_ms ms_ok now (ll_timestamp_ms l)
       in and_then (timestamp ts now') (\<lambda>_.
          let message = sanitize_message (ll_message l)
          in Inr \<lparr> le_service_id = None, le_timestamp = ts,
               le_level = (if ll_stream l = ''stderr'' then ''error'' else ''info''),
               le_message = message, le_raw_line = Some message, le_client_ip = None,
               le_request_path = None, le_status_code = None, le_response_time_ms = None,
               le_is_noise = False, le_noise_reason = None, le_threat_level = ''none'',
               le_threat_categories = [], le_source_host = Some hostname \<rparr>)))"

text \<open>\<open>if let Some(x) = opt { f(x)? }\<close>\<close>

definition when_some :: "'a option \<Rightarrow> ('a \<Rightarrow> 'e + unit) \<Rightarrow> 'e + unit" where
  "when_some x f = (case x of None \<Rightarrow> Inr () | Some a \<Rightarrow> f a)"

record parsed_ingest =
  pi_entry :: insert_log_entry
  pi_service_name :: string
  pi_service_unit_type :: string
  pi_virtual_host :: "string option"

definition parsed_to_ingest :: "datetime \<Rightarrow> proto_entry \<Rightarrow> string \<Rightarrow> parsed_ingest" where
  "parsed_to_ingest ts p hostname =
     (let status = unwrap_or 0 (pl_status_code p)
      in \<lparr> pi_entry =
             \<lparr> le_service_id = None, le_timestamp = ts, le_level = pl_level p,
               le_message = sanitize_message (pl_message p),
               le_raw_line = map_option sanitize_message (pl_raw_line p),
               le_client_ip = pl_client_ip p, le_request_path = pl_request_path p,
               le_status_code = (if status = 0 then None else Some (ucast status)),
               le_response_time_ms = pl_response_time_ms p, le_is_noise = pl_is_noise p,
               le_noise_reason = pl_noise_reason p, le_threat_level = pl_threat_level p,
               le_threat_categories = pl_threat_categories p, le_source_host = Some hostname \<rparr>,
           pi_service_name = pl_service_name p, pi_service_unit_type = pl_service_unit_type p,
           pi_virtual_host = pl_virtual_host p \<rparr>)"

definition validate_parsed_entry ::
  "(int \<Rightarrow> bool) \<Rightarrow> datetime \<Rightarrow> datetime \<Rightarrow> proto_entry \<Rightarrow> string \<Rightarrow> string + parsed_ingest" where
  "validate_parsed_entry ms_ok now now' p hostname =
     (let ts = ts_from_ms ms_ok now (pl_timestamp_ms p);
          status = unwrap_or 0 (pl_status_code p)
      in and_then (timestamp ts now') (\<lambda>_.
         and_then (level (pl_level p)) (\<lambda>_.
         and_then (threat_level (pl_threat_level p)) (\<lambda>_.
         and_then (threat_categories (pl_threat_categories p)) (\<lambda>_.
         and_then (when_some (pl_client_ip p) client_ip) (\<lambda>_.
         and_then (when_some (pl_request_path p) request_path) (\<lambda>_.
         and_then (when_some (pl_noise_reason p) (\<lambda>r. short_text r ''noise_reason'')) (\<lambda>_.
         and_then (check (0 \<le> sint status \<and> sint status \<le> 599)
           (''status_code '' @ show_int (sint status) @ '' out of range'')) (\<lambda>_.
         and_then (check (case pl_response_time_ms p of Some ms \<Rightarrow> 0 \<le> sint ms | None \<Rightarrow> True)
           ''response_time_ms must be non-negative'') (\<lambda>_.
         and_then (check (pl_service_name p \<noteq> [] \<and> pl_service_unit_type p \<noteq> [])
           ''parsed entries must carry a service identity'') (\<lambda>_.
         and_then (service_name (pl_service_name p)) (\<lambda>_.
         and_then (unit_type (pl_service_unit_type p)) (\<lambda>_.
         and_then (when_some (pl_virtual_host p) service_name) (\<lambda>_.
           Inr (parsed_to_ingest ts p hostname)))))))))))))))"

section \<open>Handlers\<close>

definition agent_identity :: "principal \<Rightarrow> grpc_status + string \<times> string" where
  "agent_identity p =
     (case (pp_agent_id p, pp_hostname p) of
        (Some a, Some h) \<Rightarrow> Inr (a, h)
      | _ \<Rightarrow> Inl (PermissionDenied,
           ''this key is not bound to an agent; agent keys are required for ingestion''))"

definition require_agent :: "permission \<Rightarrow> string \<Rightarrow> principal \<Rightarrow> grpc_status + string \<times> string" where
  "require_agent perm msg p =
     (if perm \<in> pp_permissions p then agent_identity p else Inl (PermissionDenied, msg))"

definition send_metrics ::
  "('h, 'l) hub_env \<Rightarrow> datetime \<Rightarrow> datetime \<Rightarrow> metric_point option grpc_request \<Rightarrow> 'l hub \<Rightarrow>
   (grpc_status + ack) \<times> 'l hub" where
  "send_metrics env now now' rq s =
     (case authorize env rq s of
        (Inl e, s) \<Rightarrow> (Inl e, s)
      | (Inr p, s) \<Rightarrow>
          (case require_agent IngestMetrics ''key lacks ingest:metrics'' p of
             Inl e \<Rightarrow> (Inl e, s)
           | Inr (agent_id, hostname) \<Rightarrow>
               (case gr_message rq of
                  None \<Rightarrow> (Inl (InvalidArgument, ''missing metric point''), s)
                | Some point \<Rightarrow>
                    (case validate_point (he_ms_ok env) now now' point hostname of
                       Inl reason \<Rightarrow> (Inl (InvalidArgument, reason), s)
                     | Inr metric \<Rightarrow>
                         (case upsert_seen agent_id hostname (hb_agents s) of
                            (Inl e, ag) \<Rightarrow> (Inl (InternalError, display_error e), s \<lparr> hb_agents := ag \<rparr>)
                          | (Inr _, ag) \<Rightarrow>
                              (case metric_insert metric (hb_metrics s) of
                                 (Inl e, m) \<Rightarrow>
                                   (Inl (InternalError, display_error e),
                                    s \<lparr> hb_agents := ag, hb_metrics := m \<rparr>)
                               | (Inr _, m) \<Rightarrow>
                                   (Inr \<lparr> ack_accepted = True, ack_count = 1 \<rparr>,
                                    s \<lparr> hb_agents := ag, hb_metrics := m \<rparr>)))))))"

type_synonym service_cache = "string \<times> string \<Rightarrow> uuid option option"

text \<open>The per-request service cache; a failed resolution is cached as \<open>None\<close> too.\<close>

definition resolve_service ::
  "string \<times> string \<Rightarrow> string option \<Rightarrow> service_cache \<Rightarrow> services_db \<Rightarrow>
   uuid option \<times> service_cache \<times> services_db" where
  "resolve_service key vh cache db =
     (case cache key of
        Some cached \<Rightarrow> (cached, cache, db)
      | None \<Rightarrow>
          (case service_get_or_create
                  \<lparr> is_name = snd key, is_unit_type = fst key, is_log_paths = None,
                    is_virtual_host = vh \<rparr> db of
             (r, db') \<Rightarrow>
               (let created = (case r of Inr u \<Rightarrow> Some u | Inl _ \<Rightarrow> None)
                in (created, cache(key \<mapsto> created), db'))))"

record ingest_state =
  is_cache :: service_cache
  is_services :: services_db
  is_entries :: "insert_log_entry list"
  is_rejected :: nat

definition ingest_one ::
  "string + insert_log_entry \<times> (string \<times> string) \<times> string option \<Rightarrow> ingest_state \<Rightarrow> ingest_state" where
  "ingest_one r st =
     (case r of
        Inl _ \<Rightarrow> st \<lparr> is_rejected := is_rejected st + 1 \<rparr>
      | Inr (entry, key, vh) \<Rightarrow>
          (case resolve_service key vh (is_cache st) (is_services st) of
             (sid, cache, db) \<Rightarrow>
               st \<lparr> is_cache := cache, is_services := db,
                    is_entries := is_entries st @ [entry \<lparr> le_service_id := sid \<rparr>] \<rparr>))"

text \<open>The readings of the clock while line \<open>i\<close> is validated.\<close>

type_synonym clock_readings = "nat \<Rightarrow> datetime \<times> datetime"

definition checked_line ::
  "(int \<Rightarrow> bool) \<Rightarrow> datetime \<times> datetime \<Rightarrow> string \<Rightarrow> log_line \<Rightarrow>
   string + insert_log_entry \<times> (string \<times> string) \<times> string option" where
  "checked_line ms_ok t hostname l =
     map_sum id (\<lambda>e. (e, (''docker-container'', ll_container l), None))
       (validate_log_line ms_ok (fst t) (snd t) l hostname)"

definition checked_parsed ::
  "(int \<Rightarrow> bool) \<Rightarrow> datetime \<times> datetime \<Rightarrow> string \<Rightarrow> proto_entry \<Rightarrow>
   string + insert_log_entry \<times> (string \<times> string) \<times> string option" where
  "checked_parsed ms_ok t hostname p =
     map_sum id (\<lambda>i. (pi_entry i, (pi_service_unit_type i, pi_service_name i), pi_virtual_host i))
       (validate_parsed_entry ms_ok (fst t) (snd t) p hostname)"

definition check_request ::
  "(int \<Rightarrow> bool) \<Rightarrow> clock_readings \<Rightarrow> string \<Rightarrow> logs_request \<Rightarrow>
   (string + insert_log_entry \<times> (string \<times> string) \<times> string option) list" where
  "check_request ms_ok clk hostname rq =
     map (\<lambda>(i, l). checked_line ms_ok (clk i) hostname l) (zip [0..<length (lq_lines rq)] (lq_lines rq))
     @ map (\<lambda>(i, p). checked_parsed ms_ok (clk (length (lq_lines rq) + i)) hostname p)
         (zip [0..<length (lq_parsed_lines rq)] (lq_parsed_lines rq))"

definition ingest_all ::
  "(string + insert_log_entry \<times> (string \<times> string) \<times> string option) list \<Rightarrow> services_db \<Rightarrow> ingest_state"
  where
  "ingest_all rs db =
     fold ingest_one rs
       \<lparr> is_cache = Map.empty, is_services = db, is_entries = [], is_rejected = 0 \<rparr>"

definition store_logs ::
  "(int \<Rightarrow> bool) \<Rightarrow> clock_readings \<Rightarrow> string \<Rightarrow> logs_request \<Rightarrow> 'l hub \<Rightarrow> (grpc_status + ack) \<times> 'l hub" where
  "store_logs ms_ok clk hostname rq s =
     (if max_lines_per_request < length (lq_lines rq) + length (lq_parsed_lines rq)
      then (Inl (InvalidArgument, ''batch exceeds 1000 lines''), s)
      else
        let st = ingest_all (check_request ms_ok clk hostname rq) (hb_services s);
            entries = is_entries st;
            s = s \<lparr> hb_services := is_services st \<rparr>
        in (case (if entries = [] then (Inr 0, hb_logs s) else insert_batch (hb_logs s) entries) of
              (Inl e, lg) \<Rightarrow> (Inl (InternalError, display_error e), s \<lparr> hb_logs := lg \<rparr>)
            | (Inr _, lg) \<Rightarrow>
                (Inr \<lparr> ack_accepted = True, ack_count = of_nat (min (length entries) (2 ^ 32 - 1)) \<rparr>,
                 s \<lparr> hb_logs := lg \<rparr>)))"

definition send_logs ::
  "('h, 'l) hub_env \<Rightarrow> clock_readings \<Rightarrow> logs_request grpc_request \<Rightarrow> 'l hub \<Rightarrow> (grpc_status + ack) \<times> 'l hub"
  where
  "send_logs env clk rq s =
     (case authorize env rq s of
        (Inl e, s) \<Rightarrow> (Inl e, s)
      | (Inr p, s) \<Rightarrow>
          (case require_agent IngestLogs ''key lacks ingest:logs'' p of
             Inl e \<Rightarrow> (Inl e, s)
           | Inr (_, hostname) \<Rightarrow> store_logs (he_ms_ok env) clk hostname (gr_message rq) s))"

section \<open>Authorisation\<close>

text \<open>Only the authentication state changes while a request is authorised.\<close>

lemma authorize_frame:
  "authorize env rq s = (r, s') \<Longrightarrow>
   hb_agents s' = hb_agents s \<and> hb_metrics s' = hb_metrics s \<and> hb_logs s' = hb_logs s
   \<and> hb_services s' = hb_services s"
  by (auto simp: authorize_def split: option.splits prod.splits sum.splits)

lemma authorize_Inr:
  "authorize env rq s = (Inr p, s') \<Longrightarrow>
   \<exists>raw a. gr_api_key rq = Some raw
     \<and> check_ip_budget (he_limiter env) (unwrap_or ''unknown'' (gr_remote rq)) (hb_auth s) = (Inr (), a)
     \<and> authenticate (he_argon2 env) (he_instant env) raw a = (Inr p, hb_auth s')"
  by (auto simp: authorize_def split: option.splits prod.splits sum.splits)

lemma require_agent_Inr:
  "require_agent perm msg p = Inr (a, h) \<longleftrightarrow>
     perm \<in> pp_permissions p \<and> pp_agent_id p = Some a \<and> pp_hostname p = Some h"
  by (auto simp: require_agent_def agent_identity_def split: option.splits)

section \<open>Validated rows\<close>

lemma when_some_ok: "is_ok (when_some x f) \<longleftrightarrow> (\<forall>a. x = Some a \<longrightarrow> is_ok (f a))"
  by (auto simp: when_some_def is_ok_def split: option.splits sum.splits)

lemma Inr_unit_ok: "r = Inr u \<longleftrightarrow> is_ok r" for r :: "'e + unit"
  by (cases r) simp_all

lemma clamp_i64_nonneg: "0 \<le> sint (clamp_i64 w)"
proof -
  have "clamp_i64 w \<le> i64_max" by (simp add: clamp_i64_def)
  then have "uint (clamp_i64 w) \<le> 0x7FFFFFFFFFFFFFFF"
    unfolding word_le_def by (simp add: i64_max_def)
  moreover have "(0::int) \<le> uint (clamp_i64 w)" by simp
  ultimately have "- 9223372036854775808 \<le> uint (clamp_i64 w) \<and> uint (clamp_i64 w) < 9223372036854775808"
    by linarith
  then have "signed_take_bit 63 (uint (clamp_i64 w)) = uint (clamp_i64 w)"
    by (simp add: signed_take_bit_int_eq_self_iff)
  then have "sint (clamp_i64 w) = uint (clamp_i64 w)"
    by (simp only: sint_uint) simp
  then show ?thesis by simp
qed

text \<open>The exact acceptance conditions of a parsed entry.\<close>

definition entry_acceptable :: "datetime \<Rightarrow> datetime \<Rightarrow> proto_entry \<Rightarrow> bool" where
  "entry_acceptable ts now p \<longleftrightarrow>
     now - 2592001 * ns_per_s < ts \<and> ts < now + 301 * ns_per_s
     \<and> pl_level p \<in> set levels \<and> pl_threat_level p \<in> set threat_levels
     \<and> length (pl_threat_categories p) \<le> 16
     \<and> list_all (sized_token unit_char 64) (pl_threat_categories p)
     \<and> (\<forall>ip. pl_client_ip p = Some ip \<longrightarrow> parse_ip ip \<noteq> None)
     \<and> (\<forall>q. pl_request_path p = Some q \<longrightarrow> length q \<le> 2048 \<and> \<not> has_control q)
     \<and> (\<forall>q. pl_noise_reason p = Some q \<longrightarrow> length q \<le> 128 \<and> \<not> has_control q)
     \<and> (\<forall>w. pl_status_code p = Some w \<longrightarrow> 0 \<le> sint w \<and> sint w \<le> 599)
     \<and> (\<forall>w. pl_response_time_ms p = Some w \<longrightarrow> 0 \<le> sint w)
     \<and> sized_token container_char 64 (pl_service_name p)
     \<and> sized_token unit_char 64 (pl_service_unit_type p)
     \<and> (\<forall>v. pl_virtual_host p = Some v \<longrightarrow> sized_token container_char 64 v)"

lemma sized_token_nonempty: "sized_token P n v \<Longrightarrow> v \<noteq> []"
  by (auto simp: sized_token_def)

lemma opt_checks:
  "(case x of Some w \<Rightarrow> P w | None \<Rightarrow> True) \<longleftrightarrow> (\<forall>w. x = Some w \<longrightarrow> P w)"
  "0 \<le> sint (unwrap_or 0 y) \<and> sint (unwrap_or 0 y) \<le> 599 \<longleftrightarrow>
     (\<forall>w. y = Some w \<longrightarrow> 0 \<le> sint w \<and> sint w \<le> 599)" for y :: "32 word option"
  by (cases x; simp) (cases y; simp add: unwrap_or_def)

lemma validate_parsed_entry_Inr:
  "validate_parsed_entry ms_ok now now' p hostname = Inr i \<longleftrightarrow>
     entry_acceptable (ts_from_ms ms_ok now (pl_timestamp_ms p)) now' p
     \<and> i = parsed_to_ingest (ts_from_ms ms_ok now (pl_timestamp_ms p)) p hostname"
proof -
  let ?t = "ts_from_ms ms_ok now (pl_timestamp_ms p)"
  have ne: "sized_token container_char 64 (pl_service_name p) \<Longrightarrow> pl_service_name p \<noteq> []"
    "sized_token unit_char 64 (pl_service_unit_type p) \<Longrightarrow> pl_service_unit_type p \<noteq> []"
    by (rule sized_token_nonempty, assumption)+
  show ?thesis
    unfolding validate_parsed_entry_def Let_def and_then_Inr_conv Inr_unit_ok is_ok_check when_some_ok
      opt_checks timestamp_ok token_ok text_ok threat_categories_ok entry_acceptable_def sum.inject
    using ne by blast
qed

lemma validate_log_line_Inr:
  "validate_log_line ms_ok now now' l hostname = Inr e \<Longrightarrow>
   sized_token container_char 64 (ll_container l) \<and> (ll_stream l = ''stdout'' \<or> ll_stream l = ''stderr'')
   \<and> le_source_host e = Some hostname \<and> le_message e = sanitize_message (ll_message l)
   \<and> le_raw_line e = Some (sanitize_message (ll_message l))
   \<and> le_level e = (if ll_stream l = ''stderr'' then ''error'' else ''info'')"
  by (auto simp: validate_log_line_def Let_def and_then_Inr_conv Inr_unit_ok token_ok)

text \<open>Whatever is accepted carries the hostname of the key.\<close>

lemma checked_host:
  "r \<in> set (check_request ms_ok clk hostname rq) \<Longrightarrow> r = Inr (e, k, v) \<Longrightarrow> le_source_host e = Some hostname"
  by (auto simp: check_request_def checked_line_def checked_parsed_def map_sum_def
      validate_parsed_entry_Inr parsed_to_ingest_def Let_def
      split: sum.splits dest: validate_log_line_Inr)

section \<open>What a request stores\<close>

definition accepted_entries ::
  "(string + insert_log_entry \<times> (string \<times> string) \<times> string option) list \<Rightarrow> insert_log_entry list" where
  "accepted_entries rs = List.map_filter (\<lambda>r. case r of Inr (e, _) \<Rightarrow> Some e | Inl _ \<Rightarrow> None) rs"

lemma ingest_one_sel:
  "map (\<lambda>e. e \<lparr> le_service_id := None \<rparr>) (is_entries (ingest_one r st)) =
     map (\<lambda>e. e \<lparr> le_service_id := None \<rparr>) (is_entries st @ accepted_entries [r])"
  "is_rejected (ingest_one r st) = is_rejected st + (if is_ok r then 0 else 1)"
  "length (is_entries (ingest_one r st)) = length (is_entries st) + (if is_ok r then 1 else 0)"
  by (auto simp: ingest_one_def accepted_entries_def map_filter_simps split: sum.splits prod.splits)

lemma fold_ingest:
  "map (\<lambda>e. e \<lparr> le_service_id := None \<rparr>) (is_entries (fold ingest_one rs st)) =
     map (\<lambda>e. e \<lparr> le_service_id := None \<rparr>) (is_entries st @ accepted_entries rs)"
  "is_rejected (fold ingest_one rs st) + length (is_entries (fold ingest_one rs st)) =
     is_rejected st + length (is_entries st) + length rs"
proof (induction rs arbitrary: st)
  case (Cons r rs)
  {
    case 1
    have "accepted_entries (r # rs) = accepted_entries [r] @ accepted_entries rs"
      by (simp add: accepted_entries_def map_filter_simps split: option.split)
    then show ?case
      using Cons.IH(1) [of "ingest_one r st"] ingest_one_sel(1) [of r st] by simp
  next
    case 2
    then show ?case
      using Cons.IH(2) [of "ingest_one r st"] ingest_one_sel(2,3) [of r st] by simp
  }
qed (simp_all add: accepted_entries_def map_filter_simps)

lemma ingest_all_entries:
  "map (\<lambda>e. e \<lparr> le_service_id := None \<rparr>) (is_entries (ingest_all rs db)) =
     map (\<lambda>e. e \<lparr> le_service_id := None \<rparr>) (accepted_entries rs)"
  "is_rejected (ingest_all rs db) + length (is_entries (ingest_all rs db)) = length rs"
  using fold_ingest [where rs = rs and st =
      "\<lparr> is_cache = Map.empty, is_services = db, is_entries = [], is_rejected = 0 \<rparr>"]
  by (simp_all add: ingest_all_def)

lemma store_logs_too_many:
  "max_lines_per_request < length (lq_lines rq) + length (lq_parsed_lines rq) \<Longrightarrow>
   store_logs ms_ok clk hostname rq s = (Inl (InvalidArgument, ''batch exceeds 1000 lines''), s)"
  by (simp add: store_logs_def)

lemma store_logs_Inr:
  assumes "store_logs ms_ok clk hostname rq s = (Inr a, s')"
  shows "stored_entries (hb_logs s') =
      stored_entries (hb_logs s)
      @ is_entries (ingest_all (check_request ms_ok clk hostname rq) (hb_services s))"
    "ack_accepted a"
    "length (lq_lines rq) + length (lq_parsed_lines rq) \<le> 1000"
    "unat (ack_count a) = length (is_entries (ingest_all (check_request ms_ok clk hostname rq) (hb_services s)))"
proof -
  let ?st = "ingest_all (check_request ms_ok clk hostname rq) (hb_services s)"
  from assms show le: "length (lq_lines rq) + length (lq_parsed_lines rq) \<le> 1000"
    by (auto simp: store_logs_def max_lines_per_request_def split: if_splits)
  then have n: "length (is_entries ?st) \<le> 1000"
    using ingest_all_entries(2) [of "check_request ms_ok clk hostname rq" "hb_services s"]
    by (simp add: check_request_def)
  have eq: "store_logs ms_ok clk hostname rq s =
      (case (if is_entries ?st = [] then (Inr 0, hb_logs s) else insert_batch (hb_logs s) (is_entries ?st)) of
         (Inl e, lg) \<Rightarrow> (Inl (InternalError, display_error e), s \<lparr> hb_services := is_services ?st, hb_logs := lg \<rparr>)
       | (Inr _, lg) \<Rightarrow>
           (Inr \<lparr> ack_accepted = True, ack_count = of_nat (min (length (is_entries ?st)) (2 ^ 32 - 1)) \<rparr>,
            s \<lparr> hb_services := is_services ?st, hb_logs := lg \<rparr>))"
    using le by (simp add: store_logs_def Let_def max_lines_per_request_def)
  obtain k lg where ins: "(if is_entries ?st = [] then (Inr 0, hb_logs s)
      else insert_batch (hb_logs s) (is_entries ?st)) = (Inr k, lg)"
    and a: "a = \<lparr> ack_accepted = True, ack_count = of_nat (min (length (is_entries ?st)) (2 ^ 32 - 1)) \<rparr>"
    and s': "s' = s \<lparr> hb_services := is_services ?st, hb_logs := lg \<rparr>"
    using assms unfolding eq by (auto split: prod.splits sum.splits)
  have "stored_entries lg = stored_entries (hb_logs s) @ is_entries ?st"
  proof (cases "is_entries ?st = []")
    case True
    with ins show ?thesis by simp
  next
    case False
    with ins show ?thesis using insert_batch_Inr [of "hb_logs s" "is_entries ?st" k lg] by simp
  qed
  then show "stored_entries (hb_logs s') = stored_entries (hb_logs s) @ is_entries ?st"
    by (simp add: s')
  show "ack_accepted a" by (simp add: a)
  have "min (length (is_entries ?st)) (2 ^ 32 - 1) = length (is_entries ?st)" using n by simp
  moreover have "length (is_entries ?st) < 2 ^ 32" using n by simp
  ultimately show "unat (ack_count a) = length (is_entries ?st)"
    by (simp add: a unat_of_nat take_bit_nat_eq_self)
qed

definition sample_agent_key :: string where
  "sample_agent_key = ''snt_0123abcd_aaaaaaaaaaaaaaaaaaaaaaaaaaaaaaaaaaaaaaaaaaa''"

lemma sample_agent_key_id: "parse_key_id sample_agent_key = Some ''0123abcd''"
  by code_simp

definition sample_agent_principal :: principal where
  "sample_agent_principal =
     \<lparr> pp_key_id = ''0123abcd'', pp_permissions = {IngestMetrics, IngestLogs}, pp_agent_id = Some ''web1'',
       pp_hostname = Some ''web1'', pp_app_name = None \<rparr>"

definition sample_agent_row :: api_key_row where
  "sample_agent_row =
     \<lparr> ak_id = 0, ak_name = ''web1'', ak_hash = sample_agent_key,
       ak_permissions = [''ingest:metrics'', ''ingest:logs''], ak_key_id = ''0123abcd'',
       ak_agent_id = Some ''web1'', ak_hostname = Some ''web1'', ak_app_name = None, ak_created_at = 0,
       ak_last_used_at = None, ak_revoked_at = None \<rparr>"

lemma sample_agent_row_principal: "principal_from_row sample_agent_row = sample_agent_principal"
  by (simp add: principal_from_row_def sample_agent_row_def sample_agent_principal_def permission_parse_def
      map_filter_simps)

definition sample_hub :: "unit hub" where
  "sample_hub =
     \<lparr> hb_auth = \<lparr> as_db = \<lparr> pg_up = (\<lambda>_. True), pg_error = (\<lambda>_. []), pg_uuid = of_nat, pg_now = int,
           pg_clock = 0, kd_rows = [sample_agent_row] \<rparr>,
         as_cache = \<lparr> vc_map = [''0123abcd'' \<mapsto> \<lparr> ce_principal = sample_agent_principal, ce_inserted_at = 0 \<rparr>],
           vc_order = [''0123abcd''] \<rparr>,
         as_limiter = (), as_touches = [] \<rparr>,
       hb_agents = \<lparr> pg_up = (\<lambda>_. True), pg_error = (\<lambda>_. []), pg_uuid = of_nat, pg_now = int, pg_clock = 0,
         gd_rows = [] \<rparr>,
       hb_metrics = \<lparr> pg_up = (\<lambda>_. True), pg_error = (\<lambda>_. []), pg_uuid = of_nat, pg_now = int, pg_clock = 0,
         md_rows = [] \<rparr>,
       hb_logs = sample_log_db, hb_services = sample_services_db \<rparr>"

definition sample_hub_env :: "(string, unit) hub_env" where
  "sample_hub_env =
     \<lparr> he_argon2 = \<lparr> ar_parse = Inr, ar_verify = (\<lambda>h raw. h = raw) \<rparr>, he_limiter = (\<lambda>l _. (True, l)),
       he_instant = 0, he_ms_ok = (\<lambda>_. True) \<rparr>"


lemma store_logs_Inl:
  "store_logs ms_ok clk hostname rq s = (Inl e, s') \<Longrightarrow>
   stored_entries (hb_logs s') = stored_entries (hb_logs s)"
  by (auto simp: store_logs_def Let_def stored_entries_def dest: insert_batch_Inl
      split: if_splits prod.splits sum.splits)

text \<open>
  C12: A request for logs stores the valid lines of an authorised agent, all or none. Whatever the hub
  answers with an error leaves the stored entries as they were. A positive answer was given to a key
  with the permission \<open>ingest:logs\<close> and a host name; exactly the entries that validation accepts were
  appended, in the order of the request, each under the host name of the key and never under one the
  request chose, and their number is the count in the answer, whatever was rejected.
\<close>

theorem logs_request_stores_valid_entries:
  assumes "send_logs env clk rq s = (r, s')"
  shows "case r of
      Inl _ \<Rightarrow> stored_entries (hb_logs s') = stored_entries (hb_logs s)
    | Inr a \<Rightarrow> \<exists>p host es. fst (authorize env rq s) = Inr p \<and> IngestLogs \<in> pp_permissions p
        \<and> pp_hostname p = Some host
        \<and> stored_entries (hb_logs s') = stored_entries (hb_logs s) @ es
        \<and> map (\<lambda>e. e \<lparr> le_service_id := None \<rparr>) es = map (\<lambda>e. e \<lparr> le_service_id := None \<rparr>)
            (accepted_entries (check_request (he_ms_ok env) clk host (gr_message rq)))
        \<and> (\<forall>e\<in>set es. le_source_host e = Some host) \<and> unat (ack_count a) = length es"
proof -
  obtain x s1 where au: "authorize env rq s = (x, s1)" by force
  have logs: "hb_logs s1 = hb_logs s" using authorize_frame [OF au] by blast
  show ?thesis
  proof (cases x)
    case (Inl e)
    with au assms logs show ?thesis by (auto simp: send_logs_def)
  next
    case (Inr p)
    show ?thesis
    proof (cases "require_agent IngestLogs ''key lacks ingest:logs'' p")
      case (Inl e)
      with au Inr assms logs show ?thesis by (auto simp: send_logs_def)
    next
      case ra: (Inr ah)
      obtain ag host where ah: "ah = (ag, host)" by (cases ah)
      let ?c = "check_request (he_ms_ok env) clk host (gr_message rq)"
      from au Inr ra ah assms have st: "store_logs (he_ms_ok env) clk host (gr_message rq) s1 = (r, s')"
        by (simp add: send_logs_def)
      show ?thesis
      proof (cases r)
        case (Inl e)
        with st store_logs_Inl logs show ?thesis by fastforce
      next
        case (Inr a)
        let ?es = "is_entries (ingest_all ?c (hb_services s1))"
        note stored = store_logs_Inr [OF st [unfolded Inr]]
        have "\<forall>e\<in>set (accepted_entries ?c). le_source_host e = Some host"
          using checked_host by (fastforce simp: accepted_entries_def map_filter_def split: sum.splits)
        moreover have "map le_source_host ?es = map le_source_host (accepted_entries ?c)"
          using arg_cong [OF ingest_all_entries(1) [of ?c "hb_services s1"], of "map le_source_host"]
          by (simp add: comp_def)
        ultimately have "\<forall>e\<in>set ?es. le_source_host e = Some host"
          by (metis (no_types, lifting) in_set_conv_nth length_map nth_map)
        with Inr stored logs au \<open>x = Inr p\<close> ra [unfolded ah require_agent_Inr] ingest_all_entries(1) [of ?c "hb_services s1"]
        show ?thesis by (auto intro!: exI [where x = ?es])
      qed
    qed
  qed
qed


definition sample_container_line :: log_line where
  "sample_container_line = \<lparr> ll_timestamp_ms = 0, ll_container = ''web'', ll_stream = ''stdout'', ll_message = ''hi'' \<rparr>"

definition sample_logs_request :: "logs_request grpc_request" where
  "sample_logs_request =
     \<lparr> gr_api_key = Some sample_agent_key, gr_remote = None,
       gr_message = \<lparr> lq_lines = [sample_container_line], lq_parsed_lines = [] \<rparr> \<rparr>"

lemma sample_container_line_valid:
  "\<exists>e. validate_log_line (\<lambda>_. True) 0 0 sample_container_line ''web1'' = Inr e"
proof -
  have "is_ok (container ''web'')" "is_ok (stream ''stdout'')" "is_ok (timestamp 0 0)"
    unfolding token_ok timestamp_ok
    by (simp_all add: sized_token_def container_char_def is_ascii_lowercase_def in_range_def byte_def ns_per_s_def)
  then show ?thesis
    by (auto simp: validate_log_line_def sample_container_line_def ts_from_ms_def Let_def is_ok_def split: sum.splits)
qed

definition sample_hub_with :: "keys_db \<Rightarrow> unit hub" where
  "sample_hub_with db = sample_hub \<lparr> hb_auth := (hb_auth sample_hub) \<lparr> as_db := db \<rparr> \<rparr>"

lemma sample_hub_own: "sample_hub_with (as_db (hb_auth sample_hub)) = sample_hub"
  by (simp add: sample_hub_with_def)

lemma sample_logs_answered:
  "authorize sample_hub_env sample_logs_request (sample_hub_with db) = (Inr sample_agent_principal, sample_hub_with db)"
  "\<exists>e. check_request (\<lambda>_. True) (\<lambda>_. (0, 0)) ''web1'' (gr_message sample_logs_request)
     = [Inr (e, (''docker-container'', ''web''), None)]"
  "fst (send_logs sample_hub_env (\<lambda>_. (0, 0)) sample_logs_request (sample_hub_with db))
     = Inr \<lparr> ack_accepted = True, ack_count = 1 \<rparr>"
proof -
  obtain e where v: "validate_log_line (\<lambda>_. True) 0 0 sample_container_line ''web1'' = Inr e"
    using sample_container_line_valid by blast
  show auth: "authorize sample_hub_env sample_logs_request (sample_hub_with db) = (Inr sample_agent_principal, sample_hub_with db)"
    by (simp add: authorize_def sample_hub_env_def sample_hub_with_def sample_hub_def check_ip_budget_def sample_logs_request_def
        authenticate_hit [OF sample_agent_key_id] cache_get_def entry_fresh_def)
  have c: "check_request (\<lambda>_. True) (\<lambda>_. (0, 0)) ''web1'' (gr_message sample_logs_request)
      = [Inr (e, (''docker-container'', ''web''), None)]"
    by (simp add: check_request_def checked_line_def sample_logs_request_def v) (simp add: sample_container_line_def)
  then show "\<exists>e. check_request (\<lambda>_. True) (\<lambda>_. (0, 0)) ''web1'' (gr_message sample_logs_request)
      = [Inr (e, (''docker-container'', ''web''), None)]" by blast
  show "fst (send_logs sample_hub_env (\<lambda>_. (0, 0)) sample_logs_request (sample_hub_with db))
      = Inr \<lparr> ack_accepted = True, ack_count = 1 \<rparr>"
    by (simp add: send_logs_def auth require_agent_def agent_identity_def sample_agent_principal_def)
      (simp add: store_logs_def max_lines_per_request_def sample_hub_env_def Let_def c ingest_all_def ingest_one_def
        resolve_service_def case_prod_beta insert_batch_def run_query_def new_rows_def batch_binds_def
        insert_columns_def,
       simp add: sample_logs_request_def sample_hub_with_def sample_hub_def sample_log_db_def)
qed

theorem logs_request_stores_valid_entries_witness:
  "\<exists>a s' es. send_logs sample_hub_env (\<lambda>_. (0, 0)) sample_logs_request sample_hub = (Inr a, s')
     \<and> stored_entries (hb_logs s') = es \<and> length es = 1 \<and> (\<forall>e\<in>set es. le_source_host e = Some ''web1'')"
proof -
  let ?r = "send_logs sample_hub_env (\<lambda>_. (0, 0)) sample_logs_request sample_hub"
  note answered = sample_logs_answered(1,3) [of "as_db (hb_auth sample_hub)", unfolded sample_hub_own]
  obtain a s' where r: "?r = (Inr a, s')" using answered(2) by (metis prod.collapse)
  from logs_request_stores_valid_entries [OF r] answered(1) sample_logs_answered(2) r show ?thesis
    by (auto simp: sample_agent_principal_def sample_hub_env_def accepted_entries_def map_filter_simps
        sample_hub_def sample_log_db_def stored_entries_def)
qed

end
