(* ===== verification/HubSystem.thy ===== *)
theory HubSystem
  imports Rest Ingest KeysCli
begin

text \<open>
  The running hub as one system (\<open>src/src/hub/run_hub.rs\<close>): the gRPC service and the REST application
  work on the same tables, each with its own authentication service, while the retention loop and the
  key management command change those tables too. A call is a request or a task together with what it
  meets (clocks, libraries), so every statement below holds whatever they answer; calls are interleaved
  in any order, each handler as one step. The tables are those of the hub: rows that a daemon on the
  same database writes are not counted.
\<close>

section \<open>The system\<close>

record ('j, 'l, 'm) hub_world =
  hw_keys :: keys_db
  hw_agents :: agents_db
  hw_metrics :: metrics_db
  hw_logs :: log_db
  hw_services :: services_db
  hw_events :: "'j events_db"
  hw_grpc_auth :: "'l auth_service"
  hw_rest_auth :: "'l auth_service"
  hw_limiters :: "nat \<Rightarrow> 'm"

text \<open>What each server sees: the shared tables and its own authentication service.\<close>

definition grpc_side :: "('j, 'l, 'm) hub_world \<Rightarrow> 'l hub" where
  "grpc_side w =
     \<lparr> hb_auth = (hw_grpc_auth w) \<lparr> as_db := hw_keys w \<rparr>, hb_agents = hw_agents w,
       hb_metrics = hw_metrics w, hb_logs = hw_logs w, hb_services = hw_services w \<rparr>"

definition with_grpc :: "'l hub \<Rightarrow> ('j, 'l, 'm) hub_world \<Rightarrow> ('j, 'l, 'm) hub_world" where
  "with_grpc h w = w
     \<lparr> hw_keys := as_db (hb_auth h), hw_agents := hb_agents h, hw_metrics := hb_metrics h,
       hw_logs := hb_logs h, hw_services := hb_services h, hw_grpc_auth := hb_auth h \<rparr>"

definition rest_side :: "('j, 'l, 'm) hub_world \<Rightarrow> ('j, 'l, 'm) rest_state" where
  "rest_side w =
     \<lparr> rt_auth = (hw_rest_auth w) \<lparr> as_db := hw_keys w \<rparr>, rt_events = hw_events w,
       rt_metrics = hw_metrics w, rt_agents = hw_agents w, rt_limiters = hw_limiters w \<rparr>"

definition with_rest :: "('j, 'l, 'm) rest_state \<Rightarrow> ('j, 'l, 'm) hub_world \<Rightarrow> ('j, 'l, 'm) hub_world" where
  "with_rest s w = w
     \<lparr> hw_keys := as_db (rt_auth s), hw_agents := rt_agents s, hw_metrics := rt_metrics s,
       hw_events := rt_events s, hw_rest_auth := rt_auth s, hw_limiters := rt_limiters s \<rparr>"

datatype ('h, 'l, 'm, 'j) hub_call =
    SendMetrics "('h, 'l) hub_env" datetime datetime "metric_point option grpc_request"
  | SendLogs "('h, 'l) hub_env" clock_readings "logs_request grpc_request"
  | Http "('h, 'l, 'm, 'j) rest_env" spa_files nat "'j http_request"
  | StampGrpc
  | StampRest
  | Prune "32 word" "32 word"
  | KeyCommand key_env hub_key_action
  | Restart 'l 'l "nat \<Rightarrow> 'm"

datatype 'j hub_reply =
    GrpcReply "grpc_status + ack"
  | HttpReply "'j http_response"
  | PruneReply "sentinel_error + unit"
  | KeyReply "sentinel_error + string list"
  | NoReply

definition fresh_auth :: "keys_db \<Rightarrow> 'l \<Rightarrow> 'l auth_service" where
  "fresh_auth db l = \<lparr> as_db = db, as_cache = cache_new, as_limiter = l, as_touches = [] \<rparr>"

fun hub_serve ::
  "('h, 'l, 'm, 'j) hub_call \<Rightarrow> ('j, 'l, 'm) hub_world \<Rightarrow> 'j hub_reply \<times> ('j, 'l, 'm) hub_world" where
  "hub_serve (SendMetrics env now now' rq) w =
     (case send_metrics env now now' rq (grpc_side w) of (r, h) \<Rightarrow> (GrpcReply r, with_grpc h w))"
| "hub_serve (SendLogs env clk rq) w =
     (case send_logs env clk rq (grpc_side w) of (r, h) \<Rightarrow> (GrpcReply r, with_grpc h w))"
| "hub_serve (Http env spa worker rq) w =
     (case configure_app env spa worker rq (rest_side w) of (r, s) \<Rightarrow> (HttpReply r, with_rest s w))"
| "hub_serve StampGrpc w =
     (let a = run_touch (hb_auth (grpc_side w)) in (NoReply, w \<lparr> hw_keys := as_db a, hw_grpc_auth := a \<rparr>))"
| "hub_serve StampRest w =
     (let a = run_touch (rt_auth (rest_side w)) in (NoReply, w \<lparr> hw_keys := as_db a, hw_rest_auth := a \<rparr>))"
| "hub_serve (Prune rd md) w =
     (case prune_all rd md \<lparr> ht_events = hw_events w, ht_logs = hw_logs w, ht_metrics = hw_metrics w \<rparr> of
        (r, t) \<Rightarrow> (PruneReply r,
          w \<lparr> hw_events := ht_events t, hw_logs := ht_logs t, hw_metrics := ht_metrics t \<rparr>))"
| "hub_serve (KeyCommand env action) w =
     (case hub_key_run (\<lambda>_. Inr (hw_keys w)) env action [] of
        (r, db) \<Rightarrow> (KeyReply r, w \<lparr> hw_keys := unwrap_or (hw_keys w) db \<rparr>))"
| "hub_serve (Restart l l' m) w =
     (NoReply, w \<lparr> hw_grpc_auth := fresh_auth (hw_keys w) l, hw_rest_auth := fresh_auth (hw_keys w) l',
        hw_limiters := m \<rparr>)"

text \<open>
  The two servers share no authentication state but the key table: an address has an attempt budget at
  each of them, and a verified key is cached by each of them.
\<close>

lemma budgets_apart:
  "hw_rest_auth (snd (hub_serve (SendMetrics env now now' rq) w)) = hw_rest_auth w"
  "hw_rest_auth (snd (hub_serve (SendLogs env clk rq') w)) = hw_rest_auth w"
  "hw_grpc_auth (snd (hub_serve (Http renv spa worker hrq) w)) = hw_grpc_auth w"
  by (simp_all add: with_grpc_def with_rest_def case_prod_beta)

section \<open>Sessions\<close>

fun session :: "('c \<Rightarrow> 'w \<Rightarrow> 'r \<times> 'w) \<Rightarrow> 'c list \<Rightarrow> 'w \<Rightarrow> 'r list \<times> 'w" where
  "session serve [] w = ([], w)"
| "session serve (c # cs) w =
     (case serve c w of (r, w') \<Rightarrow> (case session serve cs w' of (rs, w'') \<Rightarrow> (r # rs, w'')))"

fun acked_total :: "('c \<Rightarrow> 'r \<Rightarrow> nat) \<Rightarrow> 'c list \<Rightarrow> 'r list \<Rightarrow> nat" where
  "acked_total f (c # cs) (r # rs) = f c r + acked_total f cs rs"
| "acked_total f _ _ = 0"

text \<open>A server whose calls all keep what is good.\<close>

locale safe_server =
  fixes serve :: "'c \<Rightarrow> 'w \<Rightarrow> 'r \<times> 'w"
    and good :: "'w \<Rightarrow> bool"
  assumes keeps: "good w \<Longrightarrow> good (snd (serve c w))"
begin

lemma session_good: "good w \<Longrightarrow> good (snd (session serve cs w))"
proof (induction cs arbitrary: w)
  case (Cons c cs)
  from Cons.IH [OF keeps [OF Cons.prems, of c]] show ?case by (simp add: case_prod_beta)
qed simp

end

text \<open>
  A server that keeps an account: what it acknowledges is what its stock grows by, except in calls
  that may also remove from the stock.
\<close>

locale accounting_server =
  fixes serve :: "'c \<Rightarrow> 'w \<Rightarrow> 'r \<times> 'w"
    and stock :: "'w \<Rightarrow> nat"
    and acked :: "'c \<Rightarrow> 'r \<Rightarrow> nat"
    and removes :: "'c \<Rightarrow> bool"
  assumes at_most: "stock (snd (serve c w)) \<le> stock w + acked c (fst (serve c w))"
    and exactly: "\<not> removes c \<Longrightarrow> stock (snd (serve c w)) = stock w + acked c (fst (serve c w))"
begin

lemma session_at_most:
  "stock (snd (session serve cs w)) \<le> stock w + acked_total acked cs (fst (session serve cs w))"
proof (induction cs arbitrary: w)
  case (Cons c cs)
  have "stock (snd (session serve cs (snd (serve c w))))
      \<le> stock (snd (serve c w)) + acked_total acked cs (fst (session serve cs (snd (serve c w))))"
    by (rule Cons.IH)
  with at_most [of c w] show ?case by (simp add: case_prod_beta)
qed simp

lemma session_exactly:
  "list_all (\<lambda>c. \<not> removes c) cs \<Longrightarrow>
   stock (snd (session serve cs w)) = stock w + acked_total acked cs (fst (session serve cs w))"
proof (induction cs arbitrary: w)
  case (Cons c cs)
  then have "stock (snd (session serve cs (snd (serve c w))))
      = stock (snd (serve c w)) + acked_total acked cs (fst (session serve cs (snd (serve c w))))"
    by simp
  with exactly [of c w] Cons.prems show ?case by (simp add: case_prod_beta)
qed simp

end

section \<open>Accounts\<close>

definition log_count :: "('j, 'l, 'm) hub_world \<Rightarrow> nat" where
  "log_count w = length (ld_rows (hw_logs w))"

definition metric_count :: "('j, 'l, 'm) hub_world \<Rightarrow> nat" where
  "metric_count w = length (md_rows (hw_metrics w))"

definition event_count :: "('j, 'l, 'm) hub_world \<Rightarrow> nat" where
  "event_count w = length (vd_rows (hw_events w))"

text \<open>What an answer acknowledges, by the kind of call.\<close>

definition acked_count :: "grpc_status + ack \<Rightarrow> nat" where
  "acked_count r = (case r of Inr a \<Rightarrow> if ack_accepted a then unat (ack_count a) else 0 | Inl _ \<Rightarrow> 0)"

fun logs_acked :: "('h, 'l, 'm, 'j) hub_call \<Rightarrow> 'j hub_reply \<Rightarrow> nat" where
  "logs_acked (SendLogs _ _ _) (GrpcReply r) = acked_count r"
| "logs_acked _ _ = 0"

fun metrics_acked :: "('h, 'l, 'm, 'j) hub_call \<Rightarrow> 'j hub_reply \<Rightarrow> nat" where
  "metrics_acked (SendMetrics _ _ _ _) (GrpcReply r) = acked_count r"
| "metrics_acked _ _ = 0"

definition reported :: "'j http_response \<Rightarrow> nat" where
  "reported r = (if rp_status r = 202 then case rp_body r of ReportBody n _ \<Rightarrow> n | _ \<Rightarrow> 0 else 0)"

fun events_acked :: "('h, 'l, 'm, 'j) hub_call \<Rightarrow> 'j hub_reply \<Rightarrow> nat" where
  "events_acked (Http _ _ _ _) (HttpReply r) = reported r"
| "events_acked _ _ = 0"

fun is_prune :: "('h, 'l, 'm, 'j) hub_call \<Rightarrow> bool" where
  "is_prune (Prune _ _) = True"
| "is_prune _ = False"

text \<open>What each handler does to the tables it can reach.\<close>

lemma send_logs_count:
  assumes "send_logs env clk rq h = (r, h')"
  shows "length (ld_rows (hb_logs h')) = length (ld_rows (hb_logs h)) + acked_count r"
    "md_rows (hb_metrics h') = md_rows (hb_metrics h)"
proof -
  obtain x g where a: "authorize env rq h = (x, g)" by force
  note frame = authorize_frame [OF a]
  have len: "length (stored_entries db) = length (ld_rows db)" for db by (simp add: stored_entries_def)
  show "length (ld_rows (hb_logs h')) = length (ld_rows (hb_logs h)) + acked_count r"
  proof (cases "\<exists>p aid host. x = Inr p \<and> require_agent IngestLogs ''key lacks ingest:logs'' p = Inr (aid, host)")
    case False
    with assms a frame show ?thesis
      by (auto simp: send_logs_def acked_count_def split: sum.splits prod.splits)
  next
    case True
    then obtain host where s: "store_logs (he_ms_ok env) clk host (gr_message rq) g = (r, h')"
      using assms a by (auto simp: send_logs_def)
    show ?thesis
    proof (cases r)
      case (Inl e)
      with store_logs_Inl [of "he_ms_ok env" clk host "gr_message rq" g e h'] s frame show ?thesis
        by (simp add: acked_count_def flip: len)
    next
      case (Inr k)
      note st = store_logs_Inr [of "he_ms_ok env" clk host "gr_message rq" g k h']
      from s Inr st(1,2,4) frame show ?thesis
        by (simp add: acked_count_def flip: len)
    qed
  qed
  show "md_rows (hb_metrics h') = md_rows (hb_metrics h)"
    using assms a frame
    by (auto simp: send_logs_def store_logs_def Let_def split: sum.splits prod.splits if_splits)
qed

lemma metric_insert_rows:
  "md_rows (snd (metric_insert m db)) = md_rows db @ (case fst (metric_insert m db) of
     Inl _ \<Rightarrow> [] | Inr _ \<Rightarrow> [(pg_uuid db (pg_clock db), m)])"
  by (simp add: metric_insert_def run_query_def Let_def)

lemma send_metrics_count:
  assumes "send_metrics env now now' rq h = (r, h')"
  shows "length (md_rows (hb_metrics h')) = length (md_rows (hb_metrics h)) + acked_count r"
    "ld_rows (hb_logs h') = ld_rows (hb_logs h)"
proof -
  obtain x g where a: "authorize env rq h = (x, g)" by force
  note frame = authorize_frame [OF a]
  have ins: "metric_insert m db = (y, db') \<Longrightarrow>
      length (md_rows db') = length (md_rows db) + (case y of Inl _ \<Rightarrow> 0 | Inr _ \<Rightarrow> 1)" for m db y db'
    using metric_insert_rows [of m db] by (cases y) simp_all
  show "length (md_rows (hb_metrics h')) = length (md_rows (hb_metrics h)) + acked_count r"
    "ld_rows (hb_logs h') = ld_rows (hb_logs h)"
    using assms a frame
    by (auto simp: send_metrics_def acked_count_def dest!: ins split: sum.splits prod.splits option.splits)
qed

lemma post_events_count:
  "length (vd_rows (rt_events (snd (post_events env w p rq s))))
     = length (vd_rows (rt_events s)) + reported (fst (post_events env w p rq s))"
proof (cases "rp_status (fst (post_events env w p rq s)) = 202")
  case True
  from post_events_202 [OF surjective_pairing True] obtain es errs where
    rows: "map snd (vd_rows (rt_events (snd (post_events env w p rq s)))) = map snd (vd_rows (rt_events s)) @ es"
    and body: "rp_body (fst (post_events env w p rq s)) = ReportBody (length es) errs" by blast
  from arg_cong [OF rows, of length] body True show ?thesis by (simp add: reported_def)
next
  case False
  then have "vd_rows (rt_events (snd (post_events env w p rq s))) = vd_rows (rt_events s)"
    using post_events_change by blast
  with False show ?thesis by (simp add: reported_def)
qed

lemma scope_api_status: "rp_status (fst (scope_api env rq s)) \<noteq> 202"
proof -
  have "rp_status (fst (get_metrics env p rq s)) \<noteq> 202" for p
    by (auto simp: get_metrics_def require_dashboard_def bad_request_def internal_error_def reject_forbidden_def
        case_prod_beta split: sum.split option.split)
  moreover have "rp_status (fst (get_app_events env p rq s)) \<noteq> 202" for p
    by (auto simp: get_app_events_def require_dashboard_def bad_request_def internal_error_def reject_forbidden_def
        case_prod_beta split: sum.split option.split)
  moreover have "rp_status (fst (get_servers env p rq s)) \<noteq> 202" for p
    by (auto simp: get_servers_def require_dashboard_def bad_request_def internal_error_def reject_forbidden_def
        case_prod_beta split: sum.split option.split)
  moreover have "rp_status (fst (get_summary env p rq s)) \<noteq> 202" for p
    by (auto simp: get_summary_def require_dashboard_def bad_request_def internal_error_def reject_forbidden_def
        case_prod_beta Let_def split: sum.split option.split)
  ultimately show ?thesis
    by (simp add: scope_api_def not_found_def with_principal_def split: option.split)
qed

lemma key_auth_stop_status:
  assumes "\<nexists>p. authenticated env rq s p"
  shows "rp_status (fst (key_auth env inner rq s)) \<notin> {200, 202}"
proof -
  have "auth_error_status e \<notin> {200, 202}" for e by (cases e) simp_all
  with assms show ?thesis
    by (auto simp: authenticated_def key_auth_def reject_def split: prod.splits sum.splits option.splits)
qed

lemma headers_keep:
  "rp_status (fst (with_security_headers svc rq s)) = rp_status (fst (svc rq s))"
  "rp_body (fst (with_security_headers svc rq s)) = rp_body (fst (svc rq s))"
  "snd (with_security_headers svc rq s) = snd (svc rq s)"
  by (simp_all add: with_security_headers_def case_prod_beta)

lemma reported_headers: "reported (fst (with_security_headers svc rq s)) = reported (fst (svc rq s))"
  by (simp add: reported_def headers_keep)

lemma reported_respond: "n \<noteq> 202 \<Longrightarrow> reported (respond n b) = 0"
  by (simp add: reported_def)

text \<open>A request either leaves the stored data alone or is an authenticated \<open>POST /v1/events\<close>.\<close>

lemma configure_cases:
  obtains (still) "stored_data (snd (configure_app env spa w rq s)) = stored_data s"
      "reported (fst (configure_app env spa w rq s)) = 0"
  | (post) p a where "authenticated env rq s p"
      "snd (configure_app env spa w rq s)
         = snd (post_events env w p (rq \<lparr> rq_principal := Some p \<rparr>) (s \<lparr> rt_auth := a \<rparr>))"
      "reported (fst (configure_app env spa w rq s))
         = reported (fst (post_events env w p (rq \<lparr> rq_principal := Some p \<rparr>) (s \<lparr> rt_auth := a \<rparr>)))"
proof (cases "guarded_path rq \<and> (\<exists>p. authenticated env rq s p)")
  case False
  have "stored_data (snd (configure_app env spa w rq s)) = stored_data s
      \<and> rp_status (fst (configure_app env spa w rq s)) \<noteq> 202"
  proof (cases "guarded_path rq")
    case True
    with False key_auth_stop(2) key_auth_stop_status show ?thesis
      unfolding configure_guarded [OF True] by (metis insertCI)
  next
    case g: False
    then show ?thesis
      using configure_unguarded_data [OF g, of env spa w s]
      by (auto simp: configure_app_def guarded_path_def health_def wrap_all_def headers_keep
          spa_service_def serve_index_def split: option.splits if_splits)
  qed
  then show ?thesis by (intro still) (simp_all add: reported_def)
next
  case True
  then obtain p where g: "guarded_path rq" and p: "authenticated env rq s p" by blast
  from configure_pass [OF g p] obtain a where k: "configure_app env spa w rq s = with_security_headers
      (if in_scope ''/v1'' (rq_path rq) then scope_v1 env w else scope_api env)
      (rq \<lparr> rq_principal := Some p \<rparr>) (s \<lparr> rt_auth := a \<rparr>)" .
  show ?thesis
  proof (cases "in_scope ''/v1'' (rq_path rq) \<and> rq_path rq = ''/v1/events'' \<and> rq_method rq = POST")
    case True
    show ?thesis
      by (rule post [OF p, of a])
        (use True sample_guarded(2) in \<open>simp_all add: k headers_keep(3) reported_headers scope_v1_def with_principal_def\<close>)
  next
    case False
    show ?thesis
      by (rule still)
        (use False in \<open>auto simp: k headers_keep(3) reported_headers scope_v1_def not_found_def reported_respond
           scope_api_rows\<close>, simp_all add: reported_def scope_api_status)
  qed
qed

lemma configure_count:
  "length (vd_rows (rt_events (snd (configure_app env spa w rq s))))
     = length (vd_rows (rt_events s)) + reported (fst (configure_app env spa w rq s))"
  by (rule configure_cases [of env spa w rq s]) (simp_all add: stored_data_def post_events_count)

lemma configure_keeps:
  "md_rows (rt_metrics (snd (configure_app env spa w rq s))) = md_rows (rt_metrics s)"
  "gd_rows (rt_agents (snd (configure_app env spa w rq s))) = gd_rows (rt_agents s)"
  by (rule configure_cases [of env spa w rq s]; simp add: stored_data_def post_events_apart)+

lemma prune_all_counts:
  "length (ld_rows (ht_logs (snd (prune_all rd md t)))) \<le> length (ld_rows (ht_logs t))"
  "length (md_rows (ht_metrics (snd (prune_all rd md t)))) \<le> length (md_rows (ht_metrics t))"
  "length (vd_rows (ht_events (snd (prune_all rd md t)))) \<le> length (vd_rows (ht_events t))"
proof -
  have l: "length (ld_rows (snd (prune_log_entries id k db))) \<le> length (ld_rows db)" for k db
    by (simp add: prune_log_entries_def run_query_def Let_def)
  have m: "length (md_rows (snd (metric_prune id k db))) \<le> length (md_rows db)" for k db
    by (simp add: metric_prune_def run_query_def Let_def)
  have v: "length (vd_rows (snd (events_prune id k db))) \<le> length (vd_rows db)" for k and db :: "'a events_db"
    by (simp add: events_prune_def run_query_def Let_def)
  show "length (ld_rows (ht_logs (snd (prune_all rd md t)))) \<le> length (ld_rows (ht_logs t))"
    "length (md_rows (ht_metrics (snd (prune_all rd md t)))) \<le> length (md_rows (ht_metrics t))"
    "length (vd_rows (ht_events (snd (prune_all rd md t)))) \<le> length (vd_rows (ht_events t))"
    using l m v by (auto simp: prune_all_def case_prod_beta split: sum.split)
qed

lemmas side_defs = grpc_side_def with_grpc_def rest_side_def with_rest_def

lemmas send_logs_grows = send_logs_count [OF surjective_pairing]

lemmas send_metrics_grows = send_metrics_count [OF surjective_pairing]

lemmas prune_counts = prune_all_counts [of rd md "\<lparr> ht_events = e, ht_logs = l, ht_metrics = m \<rparr>" for rd md e l m,
  simplified]

lemma serve_logs:
  shows "log_count (snd (hub_serve c w)) \<le> log_count w + logs_acked c (fst (hub_serve c w))"
    and "\<not> is_prune c \<Longrightarrow> log_count (snd (hub_serve c w)) = log_count w + logs_acked c (fst (hub_serve c w))"
  by (cases c; simp add: log_count_def side_defs Let_def case_prod_beta prune_counts
      send_logs_grows(1) send_metrics_grows(2))+

lemma serve_metrics:
  shows "metric_count (snd (hub_serve c w)) \<le> metric_count w + metrics_acked c (fst (hub_serve c w))"
    and "\<not> is_prune c \<Longrightarrow>
      metric_count (snd (hub_serve c w)) = metric_count w + metrics_acked c (fst (hub_serve c w))"
  by (cases c; simp add: metric_count_def side_defs Let_def case_prod_beta prune_counts configure_keeps
      send_logs_grows(2) send_metrics_grows(1))+

lemma serve_events:
  shows "event_count (snd (hub_serve c w)) \<le> event_count w + events_acked c (fst (hub_serve c w))"
    and "\<not> is_prune c \<Longrightarrow>
      event_count (snd (hub_serve c w)) = event_count w + events_acked c (fst (hub_serve c w))"
  by (cases c; simp add: event_count_def side_defs Let_def case_prod_beta prune_counts
      configure_count)+

interpretation log_account: accounting_server hub_serve log_count logs_acked is_prune
  using serve_logs by unfold_locales

interpretation metric_account: accounting_server hub_serve metric_count metrics_acked is_prune
  using serve_metrics by unfold_locales

interpretation event_account: accounting_server hub_serve event_count events_acked is_prune
  using serve_events by unfold_locales

section \<open>Attribution\<close>

text \<open>The principals that the keys of the table stand for, whether a key has been revoked or not.\<close>

definition issued :: "api_key_row list \<Rightarrow> principal set" where
  "issued ks = principal_from_row ` set ks"

definition agent_of :: "permission \<Rightarrow> principal set \<Rightarrow> string \<Rightarrow> string \<Rightarrow> bool" where
  "agent_of perm P a h \<longleftrightarrow>
     (\<exists>p\<in>P. perm \<in> pp_permissions p \<and> pp_agent_id p = Some a \<and> pp_hostname p = Some h)"

definition nonnegative :: "double \<Rightarrow> bool" where
  "nonnegative x = (case x of Finite q \<Rightarrow> 0 \<le> q | _ \<Rightarrow> False)"

definition metric_sound :: "principal set \<Rightarrow> system_metric \<Rightarrow> bool" where
  "metric_sound P m \<longleftrightarrow>
     (\<exists>a h. sm_host m = Some h \<and> agent_of IngestMetrics P a h)
     \<and> nonnegative (sm_cpu_usage_percent m) \<and> nonnegative (sm_load_avg_1m m) \<and> nonnegative (sm_load_avg_5m m)
     \<and> list_all (\<lambda>n. 0 \<le> sint n)
         [sm_memory_used_bytes m, sm_memory_total_bytes m, sm_disk_used_bytes m, sm_disk_total_bytes m,
          sm_network_rx_bytes m, sm_network_tx_bytes m]"

definition log_sound :: "principal set \<Rightarrow> insert_log_entry \<Rightarrow> bool" where
  "log_sound P e \<longleftrightarrow>
     (\<exists>a h. le_source_host e = Some h \<and> agent_of IngestLogs P a h)
     \<and> le_level e \<in> set levels \<and> le_threat_level e \<in> set threat_levels
     \<and> (\<exists>m. le_message e = sanitize_message m)
     \<and> (\<forall>ip. le_client_ip e = Some ip \<longrightarrow> parse_ip ip \<noteq> None)
     \<and> (\<forall>q. le_request_path e = Some q \<longrightarrow> length q \<le> 2048 \<and> \<not> has_control q)
     \<and> (\<forall>n. le_response_time_ms e = Some n \<longrightarrow> 0 \<le> sint n)
     \<and> length (le_threat_categories e) \<le> 16"

definition event_sound :: "principal set \<Rightarrow> 'j app_event \<Rightarrow> bool" where
  "event_sound P e \<longleftrightarrow>
     (\<exists>p\<in>P. IngestEvents \<in> pp_permissions p \<and> pp_app_name p = Some (ae_app_name e))
     \<and> event_checks char_count e"

definition agent_sound :: "principal set \<Rightarrow> agent_row \<Rightarrow> bool" where
  "agent_sound P r \<longleftrightarrow> agent_of IngestMetrics P (aw_agent_id r) (aw_hostname r)"

text \<open>An authentication service that only knows principals of the table.\<close>

definition auth_sound :: "principal set \<Rightarrow> 'l auth_service \<Rightarrow> bool" where
  "auth_sound P s \<longleftrightarrow> auth_ok s \<and> (\<forall>k e. vc_map (as_cache s) k = Some e \<longrightarrow> ce_principal e \<in> P)"

text \<open>The tables, with distinct ids and sound rows only.\<close>

definition agents_sound :: "principal set \<Rightarrow> agents_db \<Rightarrow> bool" where
  "agents_sound P db \<longleftrightarrow> distinct (map aw_agent_id (gd_rows db)) \<and> (\<forall>r\<in>set (gd_rows db). agent_sound P r)"

definition metrics_sound :: "principal set \<Rightarrow> metrics_db \<Rightarrow> bool" where
  "metrics_sound P db \<longleftrightarrow> distinct (map fst (md_rows db)) \<and> (\<forall>r\<in>set (md_rows db). metric_sound P (snd r))"

definition logs_sound :: "principal set \<Rightarrow> log_db \<Rightarrow> bool" where
  "logs_sound P db \<longleftrightarrow> distinct (map lr_id (ld_rows db)) \<and> (\<forall>r\<in>set (ld_rows db). log_sound P (lr_entry r))"

definition events_sound :: "principal set \<Rightarrow> 'j events_db \<Rightarrow> bool" where
  "events_sound P db \<longleftrightarrow> distinct (map fst (vd_rows db)) \<and> (\<forall>r\<in>set (vd_rows db). event_sound P (snd r))"

definition world_sound :: "('j, 'l, 'm) hub_world \<Rightarrow> bool" where
  "world_sound w \<longleftrightarrow>
     (let P = issued (kd_rows (hw_keys w))
      in keys_ok (hw_keys w) \<and> services_ok (hw_services w)
         \<and> auth_sound P (hw_grpc_auth w) \<and> auth_sound P (hw_rest_auth w)
         \<and> agents_sound P (hw_agents w) \<and> metrics_sound P (hw_metrics w)
         \<and> logs_sound P (hw_logs w) \<and> events_sound P (hw_events w))"

lemmas sound_defs = agents_sound_def metrics_sound_def logs_sound_def events_sound_def auth_sound_def
  agent_sound_def metric_sound_def log_sound_def event_sound_def agent_of_def

text \<open>More keys never make a row unsound.\<close>

lemma sound_mono:
  assumes "P \<subseteq> Q"
  shows "agents_sound P g \<Longrightarrow> agents_sound Q g" "metrics_sound P m \<Longrightarrow> metrics_sound Q m"
    "logs_sound P l \<Longrightarrow> logs_sound Q l" "events_sound P v \<Longrightarrow> events_sound Q v"
    "auth_sound P s \<Longrightarrow> auth_sound Q s"
proof -
  have ag: "agent_of perm P a h \<Longrightarrow> agent_of perm Q a h" for perm a h
    using assms by (auto simp: agent_of_def)
  show "agents_sound P g \<Longrightarrow> agents_sound Q g"
    using ag by (auto simp: agents_sound_def agent_sound_def)
  show "metrics_sound P m \<Longrightarrow> metrics_sound Q m"
    using ag by (force simp: metrics_sound_def metric_sound_def)
  show "logs_sound P l \<Longrightarrow> logs_sound Q l"
    using ag by (simp add: logs_sound_def log_sound_def) blast
  show "events_sound P v \<Longrightarrow> events_sound Q v"
    using assms by (fastforce simp: events_sound_def event_sound_def)
  show "auth_sound P s \<Longrightarrow> auth_sound Q s"
    using assms by (auto simp: auth_sound_def)
qed

text \<open>Soundness only looks at the rows.\<close>

lemma sound_rows:
  "gd_rows g = gd_rows g' \<Longrightarrow> agents_sound P g = agents_sound P g'"
  "md_rows m = md_rows m' \<Longrightarrow> metrics_sound P m = metrics_sound P m'"
  "ld_rows l = ld_rows l' \<Longrightarrow> logs_sound P l = logs_sound P l'"
  "vd_rows v = vd_rows v' \<Longrightarrow> events_sound P v = events_sound P v'"
  "as_cache s = as_cache s' \<Longrightarrow> auth_sound P s = auth_sound P s'"
  "kd_rows k = kd_rows k' \<Longrightarrow> keys_ok k = keys_ok k'"
  by (simp_all add: agents_sound_def metrics_sound_def logs_sound_def events_sound_def auth_sound_def auth_ok_def
      issued_def keys_ok_def)

section \<open>Authentication\<close>

lemma authenticate_rows: "kd_rows (as_db (snd (authenticate ar now raw s))) = kd_rows (as_db s)"
proof -
  have "kd_rows db = kd_rows (as_db s)" if "find_active_by_key_id kid (as_db s) = (x, db)" for kid x db
    using that by (metis find_active_sel snd_conv tick_keys(1))
  then show ?thesis
    by (auto simp: authenticate_def Let_def split: option.splits sum.splits prod.splits)
qed

lemma authenticate_sound:
  assumes "auth_sound (issued (kd_rows (as_db s))) s"
  shows "auth_sound (issued (kd_rows (as_db s))) (snd (authenticate ar now raw s))"
    "fst (authenticate ar now raw s) = Inr p \<Longrightarrow> p \<in> issued (kd_rows (as_db s))"
proof -
  let ?s = "snd (authenticate ar now raw s)"
  have ok: "auth_ok s" "cache_ok (as_cache s)" using assms by (simp_all add: auth_sound_def auth_ok_def)
  have known: "ce_principal e \<in> issued (kd_rows (as_db s))" if "vc_map (as_cache s) k = Some e" for k e
    using assms that by (simp add: auth_sound_def)
  have both: "(\<forall>k e. vc_map (as_cache ?s) k = Some e \<longrightarrow> ce_principal e \<in> issued (kd_rows (as_db s)))
      \<and> (\<forall>p. fst (authenticate ar now raw s) = Inr p \<longrightarrow> p \<in> issued (kd_rows (as_db s)))"
  proof (cases "fst (authenticate ar now raw s)")
    case (Inl e)
    with authenticate_Inl_cache [OF Inl] known show ?thesis by auto
  next
    case (Inr q)
    then have a: "authenticate ar now raw s = (Inr q, ?s)" by (metis prod.collapse)
    then obtain kid where kid: "parse_key_id raw = Some kid" by (auto simp: authenticate_def split: option.splits)
    show ?thesis
    proof (cases "cache_get now (as_cache s) kid")
      case (Some x)
      then have "x \<in> issued (kd_rows (as_db s))" using known by (auto simp: cache_get_def split: option.splits if_splits)
      with Some known show ?thesis by (auto simp: authenticate_hit [OF kid Some])
    next
      case None
      from a kid None obtain row where row: "row \<in> set (kd_rows (as_db s))" "q = principal_from_row row"
        and c: "as_cache ?s = cache_insert now kid q (as_cache s)" by (rule authenticate_miss)
      then have q: "q \<in> issued (kd_rows (as_db s))" by (simp add: issued_def)
      have "ce_principal e \<in> issued (kd_rows (as_db s))" if "vc_map (cache_insert now kid q (as_cache s)) k = Some e" for k e
        using cache_insert_get [OF ok(2), of now kid q] cache_insert_other [OF ok(2) _ that] that q known
        by (cases "k = kid") auto
      with Inr q c show ?thesis by simp
    qed
  qed
  with authenticate_ok [OF ok(1)] show "auth_sound (issued (kd_rows (as_db s))) ?s" by (simp add: auth_sound_def)
  show "fst (authenticate ar now raw s) = Inr p \<Longrightarrow> p \<in> issued (kd_rows (as_db s))" using both by blast
qed

lemma scopes_auth:
  "rt_auth (snd (scope_api env rq s)) = rt_auth s"
  "rt_auth (snd (scope_v1 env w rq s)) = rt_auth s"
proof -
  have "rt_auth (snd (get_metrics env p rq s)) = rt_auth s" for p
    by (auto simp: get_metrics_def case_prod_beta split: sum.split option.split)
  moreover have "rt_auth (snd (get_app_events env p rq s)) = rt_auth s" for p
    by (auto simp: get_app_events_def case_prod_beta split: sum.split option.split)
  moreover have "rt_auth (snd (get_servers env p rq s)) = rt_auth s" for p
    by (auto simp: get_servers_def case_prod_beta split: sum.split option.split)
  moreover have "rt_auth (snd (get_summary env p rq s)) = rt_auth s" for p
    by (auto simp: get_summary_def summary_queries_def case_prod_beta Let_def split: sum.split option.split)
  ultimately show "rt_auth (snd (scope_api env rq s)) = rt_auth s"
    by (simp add: scope_api_def not_found_def with_principal_def split: option.split)
  have "rt_auth (snd (post_events env w p rq s)) = rt_auth s" for p
    by (auto simp: post_events_def Let_def case_prod_beta split: sum.split option.split)
  then show "rt_auth (snd (scope_v1 env w rq s)) = rt_auth s"
    by (simp add: scope_v1_def not_found_def with_principal_def split: option.split)
qed

text \<open>
  What the servers need to know of authentication: the attempt budget and the check of a key keep what
  is good of the service, and a principal that is returned is one of \<open>who\<close>. Then every handler keeps it
  and only acts for such principals.
\<close>

locale auth_contract =
  fixes good :: "'l auth_service \<Rightarrow> bool"
    and who :: "principal \<Rightarrow> bool"
    and ar :: "'h argon2"
  assumes checked: "good a \<Longrightarrow> good (snd (authenticate ar now raw a))"
    and returned: "good a \<Longrightarrow> fst (authenticate ar now raw a) = Inr p \<Longrightarrow> who p"
    and limiter_apart: "good (a \<lparr> as_limiter := l \<rparr>) = good a"
begin

lemma budget: "check_ip_budget limiter ip a = (r, a') \<Longrightarrow> good a' = good a"
  using limiter_apart by (auto simp: check_ip_budget_def split: prod.splits)

lemma authorize:
  assumes ar: "he_argon2 env = ar" and "good (hb_auth h)"
  shows "good (hb_auth (snd (authorize env rq h)))" "fst (authorize env rq h) = Inr p \<Longrightarrow> who p"
proof -
  have "good (hb_auth (snd (authorize env rq h))) \<and> (\<forall>p. fst (authorize env rq h) = Inr p \<longrightarrow> who p)"
  proof (cases "gr_api_key rq")
    case None
    with assms show ?thesis by (simp add: authorize_def)
  next
    case (Some raw)
    obtain x a where b: "check_ip_budget (he_limiter env) (unwrap_or ''unknown'' (gr_remote rq)) (hb_auth h) = (x, a)"
      by force
    have a: "good a" using budget [OF b] assms(2) by simp
    obtain y a' where y: "authenticate ar (he_instant env) raw a = (y, a')" by force
    from checked [OF a, of "he_instant env" raw] returned [OF a, of "he_instant env" raw] a ar Some b y
    show ?thesis by (cases x; cases y) (simp_all add: authorize_def)
  qed
  then show "good (hb_auth (snd (authorize env rq h)))" "fst (authorize env rq h) = Inr p \<Longrightarrow> who p" by blast+
qed

lemma authenticated_who:
  assumes ar: "re_argon2 env = ar" and "good (rt_auth s)" "authenticated env rq s p"
  shows "who p"
proof -
  from assms(3) obtain a raw a' where b: "check_ip_budget (re_ip_limiter env) (request_ip rq) (rt_auth s) = (Inr (), a)"
    and a: "authenticate (re_argon2 env) (re_instant env) raw a = (Inr p, a')" by (auto simp: authenticated_def)
  have "good a" using budget [OF b] assms(2) by simp
  from returned [OF this, of "re_instant env" raw] a ar show ?thesis by simp
qed

lemma key_auth:
  assumes ar: "re_argon2 env = ar" and "good (rt_auth s)" "\<And>rq s. rt_auth (snd (inner rq s)) = rt_auth s"
  shows "good (rt_auth (snd (key_auth env inner rq s)))"
proof -
  obtain x a where b: "check_ip_budget (re_ip_limiter env) (request_ip rq) (rt_auth s) = (x, a)" by force
  have "good a" using budget [OF b] assms(2) by simp
  with b ar assms(3) checked show ?thesis
    by (auto simp: key_auth_def case_prod_beta split: sum.split option.split)
qed

lemma configure:
  assumes ar: "re_argon2 env = ar" and "good (rt_auth s)"
  shows "good (rt_auth (snd (configure_app env spa w rq s)))"
proof (cases "guarded_path rq")
  case True
  show ?thesis
    unfolding configure_guarded [OF True]
    by (rule key_auth [OF ar assms(2)]) (simp add: headers_keep(3) scopes_auth)
next
  case False
  then have "rt_auth (snd (configure_app env spa w rq s)) = rt_auth s"
    by (auto simp: configure_app_def guarded_path_def health_def wrap_all_def headers_keep spa_service_def)
  with assms(2) show ?thesis by simp
qed

end

definition knows_only :: "api_key_row list \<Rightarrow> 'l auth_service \<Rightarrow> bool" where
  "knows_only ks a \<longleftrightarrow> kd_rows (as_db a) = ks \<and> auth_sound (issued ks) a"

interpretation issuer: auth_contract "knows_only ks" "\<lambda>p. p \<in> issued ks" ar for ks ar
proof
  show "knows_only ks (snd (authenticate ar now raw a))" if "knows_only ks a" for a now raw
    using that authenticate_rows [of ar now raw a] authenticate_sound(1) [of a ar now raw]
    by (auto simp: knows_only_def)
  show "p \<in> issued ks" if "knows_only ks a" "fst (authenticate ar now raw a) = Inr p" for a now raw p
    using that authenticate_sound(2) [of a ar now raw p] by (auto simp: knows_only_def)
  show "knows_only ks (a \<lparr> as_limiter := l \<rparr>) = knows_only ks a" for a l
    by (simp add: knows_only_def auth_sound_def auth_ok_def)
qed

section \<open>The gRPC service keeps the tables sound\<close>

definition hub_sound :: "api_key_row list \<Rightarrow> 'l hub \<Rightarrow> bool" where
  "hub_sound ks h \<longleftrightarrow>
     kd_rows (as_db (hb_auth h)) = ks \<and> auth_sound (issued ks) (hb_auth h)
     \<and> agents_sound (issued ks) (hb_agents h) \<and> metrics_sound (issued ks) (hb_metrics h)
     \<and> logs_sound (issued ks) (hb_logs h)
     \<and> services_ok (hb_services h)"

lemma authorize_sound:
  assumes "hub_sound ks h" "authorize env rq h = (r, h')"
  shows "hub_sound ks h'" "r = Inr p \<Longrightarrow> p \<in> issued ks"
proof -
  have k: "knows_only ks (hb_auth h)" using assms(1) by (simp add: hub_sound_def knows_only_def)
  show "hub_sound ks h'"
    using assms(1) authorize_frame [OF assms(2)] issuer.authorize(1) [OF refl k, of env rq] assms(2)
    by (simp add: hub_sound_def knows_only_def)
  show "r = Inr p \<Longrightarrow> p \<in> issued ks"
    using issuer.authorize(2) [OF refl k, of env rq p] assms(2) by simp
qed

lemma upsert_rows:
  "r \<in> set (gd_rows (snd (upsert_seen a h db))) \<Longrightarrow>
   r \<in> set (gd_rows db) \<or> aw_agent_id r = a \<and> aw_hostname r = h"
  by (auto simp: upsert_seen_def run_query_def Let_def tick_def split: if_splits)

lemma upsert_sound:
  assumes "agents_sound P db" "agent_of IngestMetrics P a h"
  shows "agents_sound P (snd (upsert_seen a h db))"
proof -
  have "distinct (map aw_agent_id (gd_rows (snd (upsert_seen a h db))))"
  proof (cases "fst (upsert_seen a h db)")
    case (Inl e)
    then have "gd_rows (snd (upsert_seen a h db)) = gd_rows db"
      by (auto simp: upsert_seen_def run_query_def Let_def tick_def split: if_splits)
    with assms(1) show ?thesis by (simp add: agents_sound_def)
  next
    case (Inr u)
    then have "upsert_seen a h db = (Inr (), snd (upsert_seen a h db))" by (metis prod.collapse old.unit.exhaust)
    from upsert_identity(1) [OF this] assms(1) show ?thesis by (simp add: agents_sound_def)
  qed
  with assms upsert_rows [of _ a h db] show ?thesis by (auto simp: agents_sound_def agent_sound_def)
qed

lemma metric_insert_sound:
  assumes "metrics_sound P db" "metric_sound P m"
  shows "metrics_sound P (snd (metric_insert m db))"
proof -
  have "distinct (map fst (md_rows (snd (metric_insert m db))))"
    using assms(1) by (auto simp: metrics_sound_def metric_insert_def run_query_def Let_def)
  with assms show ?thesis
    by (auto simp: metrics_sound_def metric_insert_rows split: sum.splits)
qed

lemma validate_point_sound:
  assumes "validate_point ms_ok now now' p h = Inr m" "agent_of IngestMetrics P a h"
  shows "metric_sound P m"
proof -
  have fin: "finite_metric v n = Inr x \<Longrightarrow> nonnegative x" for v n x
    by (auto simp: finite_metric_def nonnegative_def split: double.splits if_splits)
  show ?thesis
    using assms clamp_i64_nonneg
    by (auto simp: validate_point_def Let_def and_then_Inr_conv metric_sound_def dest!: fin)
qed

lemma send_metrics_sound:
  assumes "hub_sound ks h"
  shows "hub_sound ks (snd (send_metrics env now now' rq h))"
proof -
  obtain x g where a: "authorize env rq h = (x, g)" by force
  have g: "hub_sound ks g" and p: "x = Inr p \<Longrightarrow> p \<in> issued ks" for p using authorize_sound [OF assms a] by blast+
  show ?thesis
  proof (cases "\<exists>p aid host pt m. x = Inr p \<and> require_agent IngestMetrics ''key lacks ingest:metrics'' p = Inr (aid, host)
      \<and> gr_message rq = Some pt \<and> validate_point (he_ms_ok env) now now' pt host = Inr m")
    case False
    with a g show ?thesis by (auto simp: send_metrics_def split: sum.splits option.splits)
  next
    case True
    then obtain p aid host pt m where t: "x = Inr p"
      "require_agent IngestMetrics ''key lacks ingest:metrics'' p = Inr (aid, host)" "gr_message rq = Some pt"
      "validate_point (he_ms_ok env) now now' pt host = Inr m" by blast
    then have who: "agent_of IngestMetrics (issued ks) aid host" using p by (auto simp: require_agent_Inr agent_of_def)
    have "agents_sound (issued ks) (snd (upsert_seen aid host (hb_agents g)))"
      using g who by (intro upsert_sound) (simp_all add: hub_sound_def)
    moreover have "metrics_sound (issued ks) (snd (metric_insert m (hb_metrics g)))"
      using g validate_point_sound [OF t(4) who] by (intro metric_insert_sound) (simp_all add: hub_sound_def)
    ultimately show ?thesis
      using a t g by (simp add: send_metrics_def hub_sound_def case_prod_beta split: sum.split)
  qed
qed

lemma checked_sound:
  assumes "r \<in> set (check_request ms_ok clk host rq)" "r = Inr (e, k, v)" "agent_of IngestLogs P a host"
  shows "log_sound P e"
proof -
  have voc: "''error'' \<in> set levels" "''info'' \<in> set levels" "''none'' \<in> set threat_levels"
    by (simp_all add: levels_def threat_levels_def)
  have line: "log_sound P x" if "validate_log_line ms_ok t u l host = Inr x" for t u l x
    using that assms(3) voc
    by (auto simp: validate_log_line_def Let_def and_then_Inr_conv log_sound_def)
  have parsed: "log_sound P (pi_entry i)" if "validate_parsed_entry ms_ok t u p host = Inr i" for t u p i
  proof -
    from that have "entry_acceptable (ts_from_ms ms_ok t (pl_timestamp_ms p)) u p"
      "i = parsed_to_ingest (ts_from_ms ms_ok t (pl_timestamp_ms p)) p host"
      by (simp_all add: validate_parsed_entry_Inr)
    then show ?thesis using assms(3)
      by (auto simp: log_sound_def parsed_to_ingest_def Let_def entry_acceptable_def)
  qed
  show ?thesis
    using assms(1,2) line parsed
    by (auto simp: check_request_def checked_line_def checked_parsed_def map_sum_def split: sum.splits)
qed

lemma log_sound_id [simp]: "log_sound P (e \<lparr> le_service_id := x \<rparr>) = log_sound P e"
  by (simp add: log_sound_def)

lemma accepted_entry_origin: "e \<in> set (accepted_entries rs) \<Longrightarrow> \<exists>x. Inr (e, x) \<in> set rs"
proof (induction rs)
  case (Cons r rs)
  then show ?case
  proof (cases "e \<in> set (accepted_entries rs)")
    case True
    with Cons.IH show ?thesis by (metis list.set_intros(2))
  next
    case False
    with Cons.prems have "\<exists>x. r = Inr (e, x)"
      by (cases r) (auto simp: accepted_entries_def map_filter_simps)
    then show ?thesis by (metis list.set_intros(1))
  qed
qed (simp add: accepted_entries_def map_filter_simps)

lemma ingest_all_sound:
  assumes "agent_of IngestLogs P a host" "e \<in> set (is_entries (ingest_all (check_request ms_ok clk host rq) db))"
  shows "log_sound P e"
proof -
  let ?rs = "check_request ms_ok clk host rq"
  have "e \<lparr> le_service_id := None \<rparr>
      \<in> set (map (\<lambda>e. e \<lparr> le_service_id := None \<rparr>) (is_entries (ingest_all ?rs db)))"
    using assms(2) by simp
  then obtain x where x: "x \<in> set (accepted_entries ?rs)" "e \<lparr> le_service_id := None \<rparr> = x \<lparr> le_service_id := None \<rparr>"
    unfolding ingest_all_entries(1) by auto
  from x(1) obtain r k v where "r \<in> set ?rs" "r = Inr (x, k, v)"
    using accepted_entry_origin by (metis surj_pair)
  then have "log_sound P (x \<lparr> le_service_id := None \<rparr>)" using checked_sound [OF _ _ assms(1)] by simp
  then show ?thesis unfolding x(2) [symmetric] by simp
qed

lemma ingest_services_ok: "services_ok db \<Longrightarrow> services_ok (is_services (ingest_all rs db))"
proof -
  have one: "services_ok (is_services st) \<Longrightarrow> services_ok (is_services (ingest_one r st))" for r st
    using service_get_or_create_ok
    by (auto simp: ingest_one_def resolve_service_def Let_def case_prod_beta split: sum.split option.split)
  have "services_ok (is_services st) \<Longrightarrow> services_ok (is_services (fold ingest_one rs st))" for st
    by (induction rs arbitrary: st) (simp_all add: one)
  then show "services_ok db \<Longrightarrow> services_ok (is_services (ingest_all rs db))" by (simp add: ingest_all_def)
qed

lemma insert_batch_sound:
  assumes "logs_sound P db" "\<forall>e\<in>set es. log_sound P e"
  shows "logs_sound P (snd (insert_batch db es))"
proof -
  have "distinct (map lr_id (ld_rows (snd (insert_batch db es))))"
    using assms(1) by (intro insert_batch_distinct) (simp add: logs_sound_def)
  moreover have "set (stored_entries (snd (insert_batch db es))) \<subseteq> set (stored_entries db) \<union> set es"
  proof (cases "fst (insert_batch db es)")
    case (Inl e)
    then have "insert_batch db es = (Inl e, snd (insert_batch db es))" by (metis prod.collapse)
    from insert_batch_Inl [OF this] show ?thesis by (simp add: stored_entries_def)
  next
    case (Inr n)
    then have "insert_batch db es = (Inr n, snd (insert_batch db es))" by (metis prod.collapse)
    from insert_batch_Inr [OF this] show ?thesis by simp
  qed
  ultimately show ?thesis using assms by (auto simp: logs_sound_def stored_entries_def)
qed

lemma store_logs_sound:
  assumes "hub_sound ks h" "agent_of IngestLogs (issued ks) a host"
  shows "hub_sound ks (snd (store_logs ms_ok clk host rq h))"
proof -
  let ?st = "ingest_all (check_request ms_ok clk host rq) (hb_services h)"
  have s: "services_ok (is_services ?st)"
    using assms(1) by (intro ingest_services_ok) (simp add: hub_sound_def)
  have l: "logs_sound (issued ks) (snd (insert_batch (hb_logs h) (is_entries ?st)))"
    using assms(1) ingest_all_sound [OF assms(2)] by (intro insert_batch_sound) (auto simp: hub_sound_def)
  show ?thesis
    using assms(1) s l
    by (auto simp: store_logs_def Let_def hub_sound_def case_prod_beta split: sum.split)
qed

lemma send_logs_sound:
  assumes "hub_sound ks h"
  shows "hub_sound ks (snd (send_logs env clk rq h))"
proof -
  obtain x g where a: "authorize env rq h = (x, g)" by force
  have g: "hub_sound ks g" and p: "x = Inr p \<Longrightarrow> p \<in> issued ks" for p using authorize_sound [OF assms a] by blast+
  show ?thesis
  proof (cases "\<exists>p aid host. x = Inr p \<and> require_agent IngestLogs ''key lacks ingest:logs'' p = Inr (aid, host)")
    case False
    with a g show ?thesis by (auto simp: send_logs_def split: sum.splits)
  next
    case True
    then obtain p aid host where t: "x = Inr p"
      "require_agent IngestLogs ''key lacks ingest:logs'' p = Inr (aid, host)" by blast
    then have "agent_of IngestLogs (issued ks) aid host" using p by (auto simp: require_agent_Inr agent_of_def)
    from store_logs_sound [OF g this] a t show ?thesis by (simp add: send_logs_def)
  qed
qed

section \<open>The REST application keeps the tables sound\<close>

definition rest_sound :: "api_key_row list \<Rightarrow> ('j, 'l, 'm) rest_state \<Rightarrow> bool" where
  "rest_sound ks s \<longleftrightarrow>
     kd_rows (as_db (rt_auth s)) = ks \<and> auth_sound (issued ks) (rt_auth s)
     \<and> agents_sound (issued ks) (rt_agents s) \<and> metrics_sound (issued ks) (rt_metrics s)
     \<and> events_sound (issued ks) (rt_events s)"

lemma events_insert_sound:
  assumes "events_sound P db" "\<forall>e\<in>set es. event_checks char_count e \<longrightarrow> event_sound P e"
  shows "events_sound P (snd (events_insert_batch char_count es db))"
proof (cases "fst (events_insert_batch char_count es db)")
  case (Inl e)
  then have "events_insert_batch char_count es db = (Inl e, snd (events_insert_batch char_count es db))"
    by (metis prod.collapse)
  from events_insert_Inl [OF this] assms(1) show ?thesis by (simp add: events_sound_def)
next
  case (Inr n)
  then have ins: "events_insert_batch char_count es db = (Inr n, snd (events_insert_batch char_count es db))"
    by (metis prod.collapse)
  have "distinct (map fst (vd_rows (snd (events_insert_batch char_count es db))))"
    using assms(1)
    by (simp add: events_sound_def events_insert_batch_def run_query_def Let_def del: set_map flip: set_map)
  moreover have "\<forall>r\<in>set (vd_rows (snd (events_insert_batch char_count es db))). event_sound P (snd r)"
  proof -
    have "map snd (vd_rows (snd (events_insert_batch char_count es db))) = map snd (vd_rows db) @ es"
      and "list_all (event_checks char_count) es" using events_insert_Inr [OF ins] by simp_all
    then have rows: "snd ` set (vd_rows (snd (events_insert_batch char_count es db))) = snd ` set (vd_rows db) \<union> set es"
      and new: "\<forall>e\<in>set es. event_sound P e"
      using assms(2) by (metis set_append set_map) (simp add: assms(2) \<open>list_all (event_checks char_count) es\<close> [unfolded list_all_iff])
    have "\<forall>e\<in>snd ` set (vd_rows db). event_sound P e" using assms(1) by (simp add: events_sound_def)
    with new have "\<forall>e\<in>snd ` set (vd_rows (snd (events_insert_batch char_count es db))). event_sound P e"
      unfolding rows by blast
    then show ?thesis by simp
  qed
  ultimately show ?thesis by (simp add: events_sound_def)
qed

lemma post_events_sound:
  assumes "events_sound P (rt_events s)" "p \<in> P"
  shows "events_sound P (rt_events (snd (post_events env w p rq s)))"
proof (cases "\<exists>app. IngestEvents \<in> pp_permissions p \<and> pp_app_name p = Some app")
  case False
  with assms(1) show ?thesis
    by (auto simp: post_events_def reject_forbidden_def split: sum.split option.split)
next
  case True
  then obtain app where app: "IngestEvents \<in> pp_permissions p" "pp_app_name p = Some app" by blast
  have "events_sound P (snd (events_insert_batch char_count (accepted_of (validated env app es)) (rt_events s)))" for es
    by (rule events_insert_sound [OF assms(1)])
      (use app assms(2) in \<open>auto simp: accepted_of_set event_sound_def validated_app(1)\<close>)
  with assms(1) app show ?thesis
    by (auto simp: post_events_def reject_forbidden_def Let_def case_prod_beta split: sum.split)
qed

lemma configure_sound:
  assumes "rest_sound ks s"
  shows "rest_sound ks (snd (configure_app env spa w rq s))"
proof -
  have k: "knows_only ks (rt_auth s)" using assms by (simp add: rest_sound_def knows_only_def)
  have "events_sound (issued ks) (rt_events (snd (configure_app env spa w rq s)))"
  proof (rule configure_cases [of env spa w rq s])
    assume "stored_data (snd (configure_app env spa w rq s)) = stored_data s"
    with assms show ?thesis by (simp add: rest_sound_def stored_data_def events_sound_def)
  next
    fix p a
    assume p: "authenticated env rq s p" and out: "snd (configure_app env spa w rq s)
        = snd (post_events env w p (rq \<lparr> rq_principal := Some p \<rparr>) (s \<lparr> rt_auth := a \<rparr>))"
    have "p \<in> issued ks" by (rule issuer.authenticated_who [OF refl k p])
    then show ?thesis
      unfolding out using assms by (intro post_events_sound) (simp_all add: rest_sound_def)
  qed
  moreover have "agents_sound (issued ks) (rt_agents (snd (configure_app env spa w rq s)))"
    "metrics_sound (issued ks) (rt_metrics (snd (configure_app env spa w rq s)))"
    using assms configure_keeps [of env spa w rq s]
    by (simp_all add: rest_sound_def agents_sound_def metrics_sound_def)
  ultimately show ?thesis
    using issuer.configure [OF refl k, of env spa w rq] unfolding rest_sound_def knows_only_def by blast
qed

section \<open>The other calls\<close>

lemma filter_sound:
  assumes "events_sound P v" "logs_sound P l" "metrics_sound P m"
  shows "events_sound P (v \<lparr> vd_rows := filter f (vd_rows v) \<rparr>)"
    "logs_sound P (l \<lparr> ld_rows := filter g (ld_rows l) \<rparr>)"
    "metrics_sound P (m \<lparr> md_rows := filter k (md_rows m) \<rparr>)"
  using assms by (auto simp: events_sound_def logs_sound_def metrics_sound_def distinct_map_filter)

lemma sound_tick [simp]:
  "events_sound P (tick v) = events_sound P v" "logs_sound P (tick l) = logs_sound P l"
  "metrics_sound P (tick m) = metrics_sound P m"
  by (simp_all add: events_sound_def logs_sound_def metrics_sound_def)

lemma prune_all_sound:
  assumes "events_sound P (ht_events t)" "logs_sound P (ht_logs t)" "metrics_sound P (ht_metrics t)"
  shows "events_sound P (ht_events (snd (prune_all rd md t)))" "logs_sound P (ht_logs (snd (prune_all rd md t)))"
    "metrics_sound P (ht_metrics (snd (prune_all rd md t)))"
proof -
  have e: "events_sound P (snd (events_prune id rd (ht_events t)))"
    using filter_sound(1) [OF assms] assms(1) by (simp add: events_prune_def run_query_def Let_def)
  have l: "logs_sound P (snd (prune_log_entries id rd (ht_logs t)))"
    using filter_sound(2) [OF assms] assms(2) by (simp add: prune_log_entries_def run_query_def Let_def)
  have m: "metrics_sound P (snd (metric_prune id md (ht_metrics t)))"
    using filter_sound(3) [OF assms] assms(3) by (simp add: metric_prune_def run_query_def Let_def)
  show "events_sound P (ht_events (snd (prune_all rd md t)))" "logs_sound P (ht_logs (snd (prune_all rd md t)))"
    "metrics_sound P (ht_metrics (snd (prune_all rd md t)))"
    using assms e l m by (auto simp: prune_all_def case_prod_beta split: sum.split)
qed

text \<open>Stamping, creating and revoking keys keep what was issued.\<close>

lemma issued_map_if:
  "(\<And>r. principal_from_row (g r) = principal_from_row r) \<Longrightarrow>
   issued (map (\<lambda>r. if Q r then g r else r) rs) = issued rs"
  by (induction rs) (auto simp: issued_def)

lemma touch_issued: "issued (kd_rows (snd (touch_last_used i db))) = issued (kd_rows db)"
  by (simp add: touch_last_used_def run_query_def issued_map_if principal_from_row_def)

lemma revoke_issued: "issued (kd_rows (snd (key_revoke kid db))) = issued (kd_rows db)"
  by (simp add: key_revoke_def run_query_def issued_map_if principal_from_row_def)

lemma create_issued: "issued (kd_rows db) \<subseteq> issued (kd_rows (snd (key_create k db)))"
  by (auto simp: key_create_def run_query_def Let_def issued_def)

text \<open>What a key command can do to the table.\<close>

lemma key_command_cases:
  assumes "hub_key_run (\<lambda>_. Inr db) env action url = (r, Some db')"
  obtains "db' = db" | k where "db' = snd (key_create k db)" | "db' = tick db"
    | kid where "db' = snd (key_revoke kid db)"
proof -
  have mp: "map_prod id Some x = (r, Some db') \<Longrightarrow> db' = snd x" for x by (cases x) simp
  have c: "snd (hub_key_create env action db) = db \<or> (\<exists>k. snd (hub_key_create env action db) = snd (key_create k db))"
    by (auto simp: hub_key_create_def case_prod_beta split: sum.split option.split)
  have l: "snd (hub_key_list env db) = tick db"
    by (auto simp: hub_key_list_def key_list_def run_query_def case_prod_beta split: sum.split)
  have r: "snd (hub_key_revoke kid db) = snd (key_revoke kid db)" for kid
    by (auto simp: hub_key_revoke_def case_prod_beta split: sum.split)
  have "db' = snd (case action of KeyCreate _ _ _ _ \<Rightarrow> hub_key_create env action db
      | KeyList \<Rightarrow> hub_key_list env db | KeyRevoke kid \<Rightarrow> hub_key_revoke kid db)"
    using assms mp by (auto simp: hub_key_run_def create_pool_def split: hub_key_action.splits)
  with c l r that show thesis by (cases action) auto
qed

lemma key_command_sound:
  assumes "hub_key_run (\<lambda>_. Inr db) env action url = (r, Some db')"
  shows "issued (kd_rows db) \<subseteq> issued (kd_rows db')" "keys_ok db \<Longrightarrow> keys_ok db'"
  by (rule key_command_cases [OF assms]; simp add: create_issued revoke_issued key_create_ok key_revoke_ok)+

section \<open>Every call keeps the hub sound\<close>

lemma fresh_auth_sound: "auth_sound P (fresh_auth db l)"
  using cache_new_ok by (simp add: auth_sound_def auth_ok_def fresh_auth_def) (simp add: cache_new_def)

lemma run_touch_sound:
  "auth_sound P (run_touch a) = auth_sound P a"
  "issued (kd_rows (as_db (run_touch a))) = issued (kd_rows (as_db a))"
  "keys_ok (as_db a) \<Longrightarrow> keys_ok (as_db (run_touch a))"
  by (auto simp: run_touch_def auth_sound_def auth_ok_def touch_issued touch_ok split: list.split)

lemma auth_sound_db [simp]: "auth_sound P (s \<lparr> as_db := db \<rparr>) = auth_sound P s"
  by (simp add: auth_sound_def auth_ok_def)

lemma world_sides:
  assumes "world_sound w"
  shows "hub_sound (kd_rows (hw_keys w)) (grpc_side w)" "rest_sound (kd_rows (hw_keys w)) (rest_side w)"
  using assms by (simp_all add: world_sound_def Let_def hub_sound_def rest_sound_def side_defs)

lemma with_grpc_sound:
  assumes "world_sound w" "hub_sound (kd_rows (hw_keys w)) h"
  shows "world_sound (with_grpc h w)"
  using assms sound_rows(6) [of "as_db (hb_auth h)" "hw_keys w"]
  by (simp add: world_sound_def Let_def hub_sound_def side_defs)

lemma with_rest_sound:
  assumes "world_sound w" "rest_sound (kd_rows (hw_keys w)) s"
  shows "world_sound (with_rest s w)"
  using assms sound_rows(6) [of "as_db (rt_auth s)" "hw_keys w"]
  by (simp add: world_sound_def Let_def rest_sound_def side_defs)

lemma serve_sound:
  assumes "world_sound w"
  shows "world_sound (snd (hub_serve c w))"
proof (cases c)
  case (SendMetrics env now now' rq)
  with with_grpc_sound [OF assms send_metrics_sound [OF world_sides(1) [OF assms]]]
  show ?thesis by (simp add: case_prod_beta)
next
  case (SendLogs env clk rq)
  with with_grpc_sound [OF assms send_logs_sound [OF world_sides(1) [OF assms]]]
  show ?thesis by (simp add: case_prod_beta)
next
  case (Http env spa worker rq)
  with with_rest_sound [OF assms configure_sound [OF world_sides(2) [OF assms]]]
  show ?thesis by (simp add: case_prod_beta)
next
  case (Prune rd md)
  with assms prune_all_sound [of _ "\<lparr> ht_events = hw_events w, ht_logs = hw_logs w, ht_metrics = hw_metrics w \<rparr>"]
  show ?thesis by (simp add: world_sound_def Let_def case_prod_beta)
next
  case (KeyCommand env action)
  obtain r db where k: "hub_key_run (\<lambda>_. Inr (hw_keys w)) env action [] = (r, db)" by force
  show ?thesis
  proof (cases db)
    case None
    with KeyCommand k assms show ?thesis by (simp add: unwrap_or_def world_sound_def)
  next
    case (Some db')
    note key_command_sound [OF k [unfolded Some]]
    with KeyCommand k Some assms show ?thesis
      by (auto simp: unwrap_or_def world_sound_def Let_def intro: sound_mono)
  qed
next
  case (Restart l l' m)
  with assms show ?thesis by (simp add: world_sound_def Let_def fresh_auth_sound)
next
  case StampGrpc
  with assms show ?thesis by (simp add: world_sound_def Let_def side_defs run_touch_sound)
next
  case StampRest
  with assms show ?thesis by (simp add: world_sound_def Let_def side_defs run_touch_sound)
qed

interpretation hub_server: safe_server hub_serve world_sound
  using serve_sound by unfold_locales

section \<open>Properties\<close>

text \<open>
  C4: Whatever is sent to a running hub, it stays sound. Start from a hub whose tables and caches are
  sound, for example an empty one, and let any sequence of calls act on it: metrics and log requests
  over gRPC, any HTTP request, key stamping, retention passes, creation and revocation of keys,
  restarts, with whatever clocks and libraries answer. Then all ids are distinct, no cache knows a
  principal that no key of the table stands for, and every stored row is attributed to a key with the
  permission for it: a metric or log row carries the hostname of an agent key and values in range, an
  event the app name of an app key and a shape the table admits, an agent row the id and hostname of
  one agent key. No client can store data under an identity of its choice.
\<close>

theorem hub_stays_sound:
  assumes "world_sound w"
  shows "world_sound (snd (session hub_serve cs w))"
  using assms by (rule hub_server.session_good)

text \<open>
  C5: The hub stores what it acknowledges. After any sequence of calls the tables of log entries,
  metrics and events have grown by at most what the answers acknowledged; and when no retention pass
  was among the calls, by exactly that: no acknowledged row is missing and no row was stored for an
  answer that reported an error.
\<close>

theorem hub_stores_what_it_acknowledges:
  assumes "session hub_serve cs w = (rs, w')"
  shows "log_count w' \<le> log_count w + acked_total logs_acked cs rs
    \<and> metric_count w' \<le> metric_count w + acked_total metrics_acked cs rs
    \<and> event_count w' \<le> event_count w + acked_total events_acked cs rs
    \<and> (list_all (\<lambda>c. \<not> is_prune c) cs \<longrightarrow>
         log_count w' = log_count w + acked_total logs_acked cs rs
         \<and> metric_count w' = metric_count w + acked_total metrics_acked cs rs
         \<and> event_count w' = event_count w + acked_total events_acked cs rs)"
  using log_account.session_at_most [where cs = cs and w = w] log_account.session_exactly [where cs = cs and w = w]
    metric_account.session_at_most [where cs = cs and w = w] metric_account.session_exactly [where cs = cs and w = w]
    event_account.session_at_most [where cs = cs and w = w] event_account.session_exactly [where cs = cs and w = w]
  unfolding assms by simp

definition sample_world :: "(unit, unit, nat) hub_world" where
  "sample_world =
     \<lparr> hw_keys = as_db (hb_auth sample_hub), hw_agents = hb_agents sample_hub, hw_metrics = hb_metrics sample_hub,
       hw_logs = hb_logs sample_hub, hw_services = hb_services sample_hub,
       hw_events = rt_events (sample_rest_state sample_principal), hw_grpc_auth = hb_auth sample_hub,
       hw_rest_auth = fresh_auth (as_db (hb_auth sample_hub)) (), hw_limiters = (\<lambda>_. 0) \<rparr>"

lemma sample_world_sound: "world_sound sample_world"
proof -
  have "auth_sound (issued [sample_agent_row]) (hb_auth sample_hub)"
    by (auto simp: auth_sound_def auth_ok_def cache_ok_def sample_hub_def cache_max_entries_def issued_def
        sample_agent_row_principal split: if_splits) (simp_all add: sample_agent_principal_def)
  then show ?thesis
    by (simp add: world_sound_def Let_def sample_world_def fresh_auth_sound)
      (simp add: keys_ok_def services_ok_def agents_sound_def metrics_sound_def logs_sound_def events_sound_def
        sample_hub_def sample_rest_state_def sample_log_db_def sample_services_db_def sample_agent_row_def)
qed

lemma sample_session:
  "fst (session hub_serve [SendLogs sample_hub_env (\<lambda>_. (0, 0)) sample_logs_request] sample_world)
     = [GrpcReply (Inr \<lparr> ack_accepted = True, ack_count = 1 \<rparr>)]"
proof -
  have "grpc_side sample_world = sample_hub_with (as_db (hb_auth sample_hub))"
    by (simp add: grpc_side_def sample_world_def sample_hub_own)
  with sample_logs_answered(3) show ?thesis by (simp add: case_prod_beta)
qed

theorem hub_stores_what_it_acknowledges_witness:
  "log_count (snd (session hub_serve [SendLogs sample_hub_env (\<lambda>_. (0, 0)) sample_logs_request] sample_world)) = 1"
proof -
  have "log_count sample_world = 0" by (simp add: log_count_def sample_world_def sample_hub_def sample_log_db_def)
  with hub_stores_what_it_acknowledges [OF surjective_pairing,
      of "[SendLogs sample_hub_env (\<lambda>_. (0, 0)) sample_logs_request]" sample_world]
  show ?thesis by (simp add: sample_session acked_count_def del: session.simps)
qed

theorem hub_stays_sound_witness:
  "\<exists>r. ld_rows (hw_logs (snd (session hub_serve
      [SendLogs sample_hub_env (\<lambda>_. (0, 0)) sample_logs_request] sample_world))) = [r]
    \<and> le_source_host (lr_entry r) = Some ''web1''"
proof -
  let ?c = "[SendLogs sample_hub_env (\<lambda>_. (0, 0)) sample_logs_request]"
  let ?w = "snd (session hub_serve ?c sample_world)"
  have keys: "kd_rows (hw_keys ?w) = [sample_agent_row]"
    using send_logs_sound [OF world_sides(1) [OF sample_world_sound], of sample_hub_env "\<lambda>_. (0, 0)" sample_logs_request]
    by (simp add: hub_sound_def with_grpc_def case_prod_beta) (simp add: sample_world_def sample_hub_def)
  have "log_count sample_world = 0" by (simp add: log_count_def sample_world_def sample_hub_def sample_log_db_def)
  then have "log_count ?w = 1"
    using log_account.session_exactly [of ?c sample_world]
    by (simp add: sample_session acked_count_def del: session.simps)
  then obtain r where r: "ld_rows (hw_logs ?w) = [r]" by (auto simp: log_count_def length_Suc_conv)
  have "world_sound ?w" by (rule hub_stays_sound [OF sample_world_sound])
  then have "log_sound (issued [sample_agent_row]) (lr_entry r)"
    by (simp add: world_sound_def Let_def keys logs_sound_def r del: session.simps)
  then show ?thesis
    using r by (auto simp: log_sound_def agent_of_def issued_def sample_agent_row_principal sample_agent_principal_def)
qed

end
