(* ===== verification/Revocation.thy ===== *)
theory Revocation
  imports HubSystem
begin

text \<open>
  Revocation in the running hub: the command changes the key table only, while both servers may have
  the key in their caches. A handler is one step here; requests that are authenticated at the same time
  are the subject of \<open>AuthTasks\<close>. Whatever happens afterwards, no server accepts the key any more once the
  lifetime of a cache entry has passed.
\<close>

section \<open>Keys that are going to be refused\<close>

definition dead_key :: "string \<Rightarrow> api_key_row list \<Rightarrow> bool" where
  "dead_key kid ks \<longleftrightarrow>
     kid \<in> ak_key_id ` set ks \<and> (\<forall>r\<in>set ks. ak_key_id r = kid \<longrightarrow> ak_revoked_at r \<noteq> None)"

definition fades :: "string \<Rightarrow> instant \<Rightarrow> verified_cache \<Rightarrow> bool" where
  "fades kid t c \<longleftrightarrow> cache_ok c \<and> (\<forall>e. vc_map c kid = Some e \<longrightarrow> ce_inserted_at e \<le> t)"

definition expires :: "string \<Rightarrow> instant \<Rightarrow> 'l auth_service \<Rightarrow> bool" where
  "expires kid t a \<longleftrightarrow> dead_key kid (kd_rows (as_db a)) \<and> fades kid t (as_cache a)"

lemma dead_not_active: "dead_key kid ks \<Longrightarrow> find (active_with_id kid) ks = None"
  by (auto simp: dead_key_def find_None_iff active_with_id_def)

lemma authenticate_expires:
  assumes "expires kid t a"
  shows "expires kid t (snd (authenticate ar now raw a))"
proof -
  let ?a = "snd (authenticate ar now raw a)"
  have ok: "cache_ok (as_cache a)" using assms by (simp add: expires_def fades_def)
  have "fades kid t (as_cache ?a)"
  proof (cases "fst (authenticate ar now raw a)")
    case (Inl e)
    with authenticate_Inl_cache [OF Inl] assms show ?thesis by (simp add: expires_def)
  next
    case (Inr p)
    then have r: "authenticate ar now raw a = (Inr p, ?a)" by (metis prod.collapse)
    then obtain k where k: "parse_key_id raw = Some k" by (auto simp: authenticate_def split: option.splits)
    show ?thesis
    proof (cases "cache_get now (as_cache a) k")
      case (Some x)
      with assms show ?thesis by (simp add: authenticate_hit [OF k Some] expires_def)
    next
      case None
      from r k None obtain row where row: "row \<in> set (kd_rows (as_db a))" "ak_key_id row = k" "ak_revoked_at row = None"
        and c: "as_cache ?a = cache_insert now k p (as_cache a)" by (rule authenticate_miss)
      then have "kid \<noteq> k" using assms by (auto simp: expires_def dead_key_def)
      with cache_insert_other [OF ok this] cache_insert_ok [OF ok] assms show ?thesis
        unfolding c by (auto simp: expires_def fades_def)
    qed
  qed
  with assms show ?thesis by (simp add: expires_def authenticate_rows)
qed

lemma expires_limiter: "expires kid t (a \<lparr> as_limiter := l \<rparr>) = expires kid t a"
  by (simp add: expires_def)

text \<open>After the lifetime of a cache entry the key is refused.\<close>

lemma authenticate_refuses:
  assumes "expires kid t a" "parse_key_id raw = Some kid" "t + cache_ttl < now"
  shows "\<exists>e. fst (authenticate ar now raw a) = Inl e"
proof -
  have "cache_get now (as_cache a) kid = None"
    using assms(1,3) by (auto simp: expires_def fades_def cache_get_def entry_fresh_def split: option.splits)
  moreover have "find (active_with_id kid) (kd_rows (as_db a)) = None"
    using assms(1) by (intro dead_not_active) (simp add: expires_def)
  ultimately show ?thesis using authenticate_revoked [OF assms(2)] by blast
qed

interpretation fading: auth_contract "expires kid t" "\<lambda>_. True" ar for kid t ar
  by unfold_locales (simp_all add: authenticate_expires expires_limiter)

section \<open>The handlers\<close>

lemma grpc_auth:
  "hb_auth (snd (send_metrics env now now' rq h)) = hb_auth (snd (authorize env rq h))"
  "hb_auth (snd (send_logs env clk rq' h)) = hb_auth (snd (authorize env rq' h))"
  by (auto simp: send_metrics_def send_logs_def store_logs_def Let_def case_prod_beta
      split: sum.split option.split)

lemma authorize_refuses:
  assumes "expires kid t (hb_auth h)" "Option.bind (gr_api_key rq) parse_key_id = Some kid"
    and "t + cache_ttl < he_instant env"
  shows "\<exists>e. fst (authorize env rq h) = Inl e"
proof -
  from assms(2) obtain raw where raw: "gr_api_key rq = Some raw" "parse_key_id raw = Some kid"
    by (auto simp: bind_eq_Some_conv)
  obtain x a where b: "check_ip_budget (he_limiter env) (unwrap_or ''unknown'' (gr_remote rq)) (hb_auth h) = (x, a)"
    by force
  have "expires kid t a" using fading.budget [OF b] assms(1) by blast
  from authenticate_refuses [OF this raw(2) assms(3), of "he_argon2 env"] raw(1) b show ?thesis
    by (cases x) (auto simp: authorize_def case_prod_beta split: sum.split)
qed

lemma configure_refuses:
  assumes "expires kid t (rt_auth s)" "guarded_path rq" "Option.bind (extract_key rq) parse_key_id = Some kid"
    and "t + cache_ttl < re_instant env"
  shows "rp_status (fst (configure_app env spa w rq s)) \<notin> {200, 202}"
proof -
  have "\<nexists>p. authenticated env rq s p"
  proof
    assume "\<exists>p. authenticated env rq s p"
    then obtain p a raw a' where
      b: "check_ip_budget (re_ip_limiter env) (request_ip rq) (rt_auth s) = (Inr (), a)"
      and raw: "extract_key rq = Some raw" and y: "authenticate (re_argon2 env) (re_instant env) raw a = (Inr p, a')"
      by (auto simp: authenticated_def)
    have "expires kid t a" using fading.budget [OF b] assms(1) by blast
    from authenticate_refuses [OF this _ assms(4), of raw "re_argon2 env"] raw y assms(3) show False by simp
  qed
  then show ?thesis unfolding configure_guarded [OF assms(2)] by (rule key_auth_stop_status)
qed

section \<open>The key table\<close>

lemma dead_map:
  assumes "\<And>r. ak_key_id (g r) = ak_key_id r" "\<And>r. ak_revoked_at r \<noteq> None \<Longrightarrow> ak_revoked_at (g r) \<noteq> None"
  shows "dead_key kid ks \<Longrightarrow> dead_key kid (map g ks)"
  using assms by (force simp: dead_key_def image_image)

lemma touch_dead: "dead_key kid (kd_rows db) \<Longrightarrow> dead_key kid (kd_rows (snd (touch_last_used i db)))"
  by (auto simp: touch_last_used_def run_query_def intro!: dead_map)

lemma revoke_dead: "dead_key kid (kd_rows db) \<Longrightarrow> dead_key kid (kd_rows (snd (key_revoke k db)))"
  by (auto simp: key_revoke_def run_query_def intro!: dead_map)

lemma revoke_kills:
  assumes "key_revoke kid db = (Inr b, db')" "kid \<in> ak_key_id ` set (kd_rows db)"
  shows "dead_key kid (kd_rows db')"
proof -
  have rows: "kd_rows db' = map (\<lambda>r. if active_with_id kid r
      then r \<lparr> ak_revoked_at := Some (pg_now db (pg_clock db)) \<rparr> else r) (kd_rows db)"
    using key_revoke_rows [OF assms(1)] by simp
  then have "map ak_key_id (kd_rows db') = map ak_key_id (kd_rows db)" by (simp add: map_if_sel)
  then have "kid \<in> ak_key_id ` set (kd_rows db')" using assms(2) by (metis set_map)
  moreover have "ak_revoked_at r \<noteq> None" if "r \<in> set (kd_rows db')" "ak_key_id r = kid" for r
  proof -
    from that(1) obtain x where "r = (if active_with_id kid x
        then x \<lparr> ak_revoked_at := Some (pg_now db (pg_clock db)) \<rparr> else x)"
      unfolding rows set_map by (rule imageE)
    with that(2) show ?thesis by (cases "active_with_id kid x") (auto simp: active_with_id_def)
  qed
  ultimately show ?thesis by (simp add: dead_key_def)
qed

lemma create_dead: "dead_key kid (kd_rows db) \<Longrightarrow> dead_key kid (kd_rows (snd (key_create k db)))"
  by (auto simp: key_create_def run_query_def Let_def dead_key_def key_clash_def list_ex_iff)

lemma run_touch_dead: "dead_key kid (kd_rows (as_db a)) \<Longrightarrow> dead_key kid (kd_rows (as_db (run_touch a)))"
  by (simp add: run_touch_def touch_dead split: list.split)

lemma key_command_dead:
  assumes "hub_key_run (\<lambda>_. Inr db) env action url = (r, Some db')" "dead_key kid (kd_rows db)"
  shows "dead_key kid (kd_rows db')"
  by (rule key_command_cases [OF assms(1)]) (use assms(2) in \<open>simp_all add: create_dead revoke_dead\<close>)

section \<open>Every later call\<close>

definition doomed :: "string \<Rightarrow> instant \<Rightarrow> ('j, 'l, 'm) hub_world \<Rightarrow> bool" where
  "doomed kid t w \<longleftrightarrow>
     dead_key kid (kd_rows (hw_keys w)) \<and> fades kid t (as_cache (hw_grpc_auth w))
     \<and> fades kid t (as_cache (hw_rest_auth w))"

lemma doomed_sides:
  assumes "doomed kid t w"
  shows "expires kid t (hb_auth (grpc_side w))" "expires kid t (rt_auth (rest_side w))"
  using assms by (simp_all add: doomed_def expires_def grpc_side_def rest_side_def)

lemma doomed_with:
  assumes "doomed kid t w"
  shows "expires kid t (hb_auth h) \<Longrightarrow> doomed kid t (with_grpc h w)"
    "expires kid t (rt_auth s) \<Longrightarrow> doomed kid t (with_rest s w)"
  using assms by (simp_all add: doomed_def expires_def with_grpc_def with_rest_def)

lemma fades_new: "fades kid t cache_new"
  using cache_new_ok by (simp add: fades_def) (simp add: cache_new_def)

lemma serve_doomed:
  assumes "doomed kid t w"
  shows "doomed kid t (snd (hub_serve c w))"
proof (cases c)
  case (SendMetrics env now now' rq)
  with doomed_with(1) [OF assms] fading.authorize(1) [OF refl doomed_sides(1) [OF assms], of env rq] show ?thesis
    by (simp add: case_prod_beta grpc_auth)
next
  case (SendLogs env clk rq)
  with doomed_with(1) [OF assms] fading.authorize(1) [OF refl doomed_sides(1) [OF assms], of env rq] show ?thesis
    by (simp add: case_prod_beta grpc_auth)
next
  case (Http env spa worker rq)
  with doomed_with(2) [OF assms] fading.configure [OF refl doomed_sides(2) [OF assms], of env spa worker rq]
  show ?thesis by (simp add: case_prod_beta)
next
  case (KeyCommand env action)
  obtain r db where k: "hub_key_run (\<lambda>_. Inr (hw_keys w)) env action [] = (r, db)" by force
  with KeyCommand assms key_command_dead [of "hw_keys w" env action "[]" r "the db" kid] show ?thesis
    by (cases db) (simp_all add: doomed_def unwrap_or_def)
next
  case (Restart l l' m)
  with assms show ?thesis by (simp add: doomed_def fresh_auth_def fades_new)
next
  case StampGrpc
  have "as_cache (run_touch a) = as_cache a" for a :: "'b auth_service" by (simp add: run_touch_def split: list.split)
  with StampGrpc assms show ?thesis by (simp add: doomed_def Let_def grpc_side_def run_touch_dead)
next
  case StampRest
  have "as_cache (run_touch a) = as_cache a" for a :: "'b auth_service" by (simp add: run_touch_def split: list.split)
  with StampRest assms show ?thesis by (simp add: doomed_def Let_def rest_side_def run_touch_dead)
qed (use assms in \<open>simp add: doomed_def case_prod_beta\<close>)

interpretation doom: safe_server hub_serve "doomed kid t" for kid t
  using serve_doomed by unfold_locales

text \<open>A request that presents a key of the id, later than \<open>t\<close>, to a server that asks for one.\<close>

fun presents :: "string \<Rightarrow> instant \<Rightarrow> ('h, 'l, 'm, 'j) hub_call \<Rightarrow> bool" where
  "presents kid t (SendMetrics env _ _ rq) \<longleftrightarrow>
     t < he_instant env \<and> Option.bind (gr_api_key rq) parse_key_id = Some kid"
| "presents kid t (SendLogs env _ rq) \<longleftrightarrow>
     t < he_instant env \<and> Option.bind (gr_api_key rq) parse_key_id = Some kid"
| "presents kid t (Http env _ _ rq) \<longleftrightarrow>
     t < re_instant env \<and> guarded_path rq \<and> Option.bind (extract_key rq) parse_key_id = Some kid"
| "presents _ _ _ \<longleftrightarrow> False"

fun refused :: "'j hub_reply \<Rightarrow> bool" where
  "refused (GrpcReply (Inl _)) \<longleftrightarrow> True"
| "refused (HttpReply r) \<longleftrightarrow> rp_status r \<notin> {200, 202}"
| "refused _ \<longleftrightarrow> False"

lemma doomed_refused:
  assumes "doomed kid t w" "presents kid (t + cache_ttl) c"
  shows "refused (fst (hub_serve c w))"
proof (cases c)
  case (SendMetrics env now now' rq)
  then obtain e where "fst (authorize env rq (grpc_side w)) = Inl e"
    using authorize_refuses [OF doomed_sides(1) [OF assms(1)], of rq env] assms(2) by auto
  then have "fst (send_metrics env now now' rq (grpc_side w)) = Inl e"
    by (auto simp: send_metrics_def case_prod_beta split: sum.split)
  with SendMetrics show ?thesis by (simp add: case_prod_beta)
next
  case (SendLogs env clk rq)
  then obtain e where "fst (authorize env rq (grpc_side w)) = Inl e"
    using authorize_refuses [OF doomed_sides(1) [OF assms(1)], of rq env] assms(2) by auto
  then have "fst (send_logs env clk rq (grpc_side w)) = Inl e"
    by (auto simp: send_logs_def case_prod_beta split: sum.split)
  with SendLogs show ?thesis by (simp add: case_prod_beta)
next
  case (Http env spa worker rq)
  with configure_refuses [OF doomed_sides(2) [OF assms(1)], of rq env spa worker] assms(2)
  show ?thesis by (simp add: case_prod_beta)
qed (use assms(2) in simp_all)

lemma revoked_doomed:
  assumes "world_sound w" "hub_serve (KeyCommand env (KeyRevoke kid)) w = (KeyReply (Inr out), w')"
    and "kid \<in> ak_key_id ` set (kd_rows (hw_keys w))"
    and "\<forall>a\<in>{hw_grpc_auth w, hw_rest_auth w}. \<forall>e. vc_map (as_cache a) kid = Some e \<longrightarrow> ce_inserted_at e \<le> t"
  shows "doomed kid t w'"
proof -
  obtain q db where k: "key_revoke kid (hw_keys w) = (q, db)" by force
  then obtain b where q: "q = Inr b" and w': "w' = w \<lparr> hw_keys := db \<rparr>"
    using assms(2) by (cases q) (auto simp: hub_key_run_def create_pool_def hub_key_revoke_def unwrap_or_def split: if_splits)
  from revoke_kills [OF _ assms(3)] k q have "dead_key kid (kd_rows db)" by blast
  moreover have "cache_ok (as_cache (hw_grpc_auth w))" "cache_ok (as_cache (hw_rest_auth w))"
    using assms(1) by (simp_all add: world_sound_def Let_def auth_sound_def auth_ok_def)
  ultimately show ?thesis using assms(4) by (simp add: doomed_def fades_def w')
qed

section \<open>Properties\<close>


definition sample_command :: "(string, unit, nat, unit) hub_call" where
  "sample_command = KeyCommand sample_key_env (KeyRevoke ''0123abcd'')"

lemma sample_revoke:
  "\<exists>out db. hub_serve sample_command sample_world
     = (KeyReply (Inr out), sample_world \<lparr> hw_keys := db \<rparr>)"
  by (simp add: sample_command_def hub_key_run_def create_pool_def hub_key_revoke_def key_revoke_def run_query_def
      sample_world_def sample_hub_def)


end
