(* ===== verification/AuthTasks.thy ===== *)
theory AuthTasks
  imports Revocation
begin

text \<open>
  Requests that are authenticated at the same time (\<open>src/src/hub/auth.rs\<close>). \<open>AuthService::authenticate\<close> gives up
  control where it awaits: at the lock for reading the cache, at the query and at the lock for writing the
  cache. Between these points other requests, the key command and the other server run. Here a
  request is a task that proceeds turn by turn over the shared service, and any task may move next. One task that
  is left alone computes \<open>authenticate\<close>.
\<close>

section \<open>Tasks\<close>

datatype task_state =
    Arrived
  | Missed string
  | Found api_key_row
  | Verified api_key_row
  | Answered "auth_error + principal"

record auth_task =
  at_key :: string
  at_state :: task_state

fun task_turn ::
  "'h argon2 \<Rightarrow> instant \<Rightarrow> string \<Rightarrow> task_state \<Rightarrow> 'l auth_service \<Rightarrow> task_state \<times> 'l auth_service" where
  "task_turn ar now raw Arrived s =
     (case parse_key_id raw of
        None \<Rightarrow> (Answered (Inl Malformed), s)
      | Some kid \<Rightarrow>
          (case cache_get now (as_cache s) kid of
             Some p \<Rightarrow> (Answered (Inr p), s)
           | None \<Rightarrow> (Missed kid, s)))"
| "task_turn ar now raw (Missed kid) s =
     (case find_active_by_key_id kid (as_db s) of
        (Inl e, db) \<Rightarrow> (Answered (Inl (Storage (display_error e))), s \<lparr> as_db := db \<rparr>)
      | (Inr None, db) \<Rightarrow> (Answered (Inl UnknownKey), s \<lparr> as_db := db \<rparr>)
      | (Inr (Some row), db) \<Rightarrow> (Found row, s \<lparr> as_db := db \<rparr>))"
| "task_turn ar now raw (Found row) s =
     (case verify_hash ar (ak_hash row) raw of
        Inl _ \<Rightarrow> (Answered (Inl BadSignature), s)
      | Inr _ \<Rightarrow> (Verified row, s))"
| "task_turn ar now raw (Verified row) s =
     (let p = principal_from_row row
      in (Answered (Inr p),
          s \<lparr> as_cache := cache_insert now (ak_key_id row) p (as_cache s),
              as_touches := as_touches s @ [ak_id row] \<rparr>))"
| "task_turn ar now raw (Answered x) s = (Answered x, s)"

text \<open>Left alone, a task needs four turns and does what \<open>authenticate\<close> does.\<close>

definition task_alone ::
  "'h argon2 \<Rightarrow> instant \<Rightarrow> string \<Rightarrow> 'l auth_service \<Rightarrow> task_state \<times> 'l auth_service" where
  "task_alone ar now raw s = ((\<lambda>(st, s). task_turn ar now raw st s) ^^ 4) (Arrived, s)"

lemma task_alone_authenticates:
  "task_alone ar now raw s = map_prod Answered id (authenticate ar now raw s)"
  by (simp add: task_alone_def authenticate_def eval_nat_numeral Let_def
      split: option.split sum.split prod.split)

section \<open>The pool of tasks\<close>

record 'l auth_pool =
  ap_service :: "'l auth_service"
  ap_now :: instant
  ap_tasks :: "auth_task list"

definition with_keys :: "keys_db \<Rightarrow> 'l auth_pool \<Rightarrow> 'l auth_pool" where
  "with_keys db p = p \<lparr> ap_service := (ap_service p) \<lparr> as_db := db \<rparr> \<rparr>"

inductive pool_step :: "'h argon2 \<Rightarrow> 'l auth_pool \<Rightarrow> 'l auth_pool \<Rightarrow> bool" for ar where
  arrives: "pool_step ar p (p \<lparr> ap_tasks := ap_tasks p @ [\<lparr> at_key = raw, at_state = Arrived \<rparr>] \<rparr>)"
| turn: "pool_step ar p \<lparr> ap_service = s, ap_now = now,
      ap_tasks = (ap_tasks p)[i := (ap_tasks p ! i) \<lparr> at_state := st \<rparr>] \<rparr>"
  if "i < length (ap_tasks p)" "ap_now p \<le> now"
    "task_turn ar now (at_key (ap_tasks p ! i)) (at_state (ap_tasks p ! i)) (ap_service p) = (st, s)"
| stamps: "pool_step ar p (p \<lparr> ap_service := run_touch (ap_service p) \<rparr>)"
| budget: "pool_step ar p (p \<lparr> ap_service := s \<rparr>)" if "check_ip_budget limiter ip (ap_service p) = (x, s)"
| forgets: "pool_step ar p (p \<lparr> ap_service := auth_invalidate kid (ap_service p) \<rparr>)"
| creates: "pool_step ar p (with_keys (snd (key_create k (as_db (ap_service p)))) p)"
| revokes: "pool_step ar p (with_keys (snd (key_revoke kid (as_db (ap_service p)))) p)"
| elsewhere: "pool_step ar p (with_keys (snd (touch_last_used i (as_db (ap_service p)))) p)"

inductive pool_reach :: "'h argon2 \<Rightarrow> 'l auth_pool \<Rightarrow> 'l auth_pool \<Rightarrow> bool" for ar p where
  here: "pool_reach ar p p"
| further: "pool_reach ar p q \<Longrightarrow> pool_step ar q r \<Longrightarrow> pool_reach ar p r"

text \<open>A task that has seen the row of a key, and not yet answered.\<close>

fun holds :: "string \<Rightarrow> task_state \<Rightarrow> bool" where
  "holds kid (Found row) \<longleftrightarrow> ak_key_id row = kid"
| "holds kid (Verified row) \<longleftrightarrow> ak_key_id row = kid"
| "holds kid _ \<longleftrightarrow> False"

lemma pool_reach_trans: "pool_reach ar q r \<Longrightarrow> pool_reach ar p q \<Longrightarrow> pool_reach ar p r"
  by (induction rule: pool_reach.induct) (auto intro: pool_reach.intros)

section \<open>The invariant of the pool\<close>

text \<open>
  What a task knows belongs to its own key, what it answers is a principal of the table, and no cache
  entry is younger than the clock.
\<close>

fun task_ok :: "principal set \<Rightarrow> string \<Rightarrow> task_state \<Rightarrow> bool" where
  "task_ok P raw Arrived \<longleftrightarrow> True"
| "task_ok P raw (Missed kid) \<longleftrightarrow> parse_key_id raw = Some kid"
| "task_ok P raw (Found row) \<longleftrightarrow> parse_key_id raw = Some (ak_key_id row) \<and> principal_from_row row \<in> P"
| "task_ok P raw (Verified row) \<longleftrightarrow> parse_key_id raw = Some (ak_key_id row) \<and> principal_from_row row \<in> P"
| "task_ok P raw (Answered (Inl _)) \<longleftrightarrow> True"
| "task_ok P raw (Answered (Inr q)) \<longleftrightarrow> parse_key_id raw = Some (pp_key_id q) \<and> q \<in> P"

definition service_ok :: "instant \<Rightarrow> principal set \<Rightarrow> 'l auth_service \<Rightarrow> bool" where
  "service_ok now P s \<longleftrightarrow> auth_ok s
     \<and> (\<forall>k e. vc_map (as_cache s) k = Some e \<longrightarrow> ce_inserted_at e \<le> now \<and> ce_principal e \<in> P)"

definition pool_keys :: "'l auth_pool \<Rightarrow> principal set" where
  "pool_keys p = issued (kd_rows (as_db (ap_service p)))"

definition pool_ok :: "'l auth_pool \<Rightarrow> bool" where
  "pool_ok p \<longleftrightarrow> service_ok (ap_now p) (pool_keys p) (ap_service p)
     \<and> (\<forall>t\<in>set (ap_tasks p). task_ok (pool_keys p) (at_key t) (at_state t))"

lemma task_ok_mono: "P \<subseteq> Q \<Longrightarrow> task_ok P raw st \<Longrightarrow> task_ok Q raw st"
  by (cases "(P, raw, st)" rule: task_ok.cases) auto

lemma service_ok_mono: "service_ok now P s \<Longrightarrow> P \<subseteq> Q \<Longrightarrow> now \<le> later \<Longrightarrow> service_ok later Q s"
  by (fastforce simp: service_ok_def)

lemma service_ok_cong: "as_cache s' = as_cache s \<Longrightarrow> service_ok now P s' = service_ok now P s"
  by (simp add: service_ok_def auth_ok_def)

lemma pool_ok_grows:
  assumes "pool_ok p" "pool_keys p \<subseteq> pool_keys q" "ap_now p \<le> ap_now q" "ap_tasks q = ap_tasks p"
    and "as_cache (ap_service q) = as_cache (ap_service p)"
  shows "pool_ok q"
  using assms task_ok_mono [OF assms(2)] service_ok_mono [of "ap_now p" "pool_keys p" "ap_service p" "pool_keys q" "ap_now q"]
  by (simp add: pool_ok_def service_ok_cong [OF assms(5)])

lemma turn_rows:
  "kd_rows (as_db (snd (task_turn ar now raw st s))) = kd_rows (as_db s)"
  by (cases "(ar, now, raw, st, s)" rule: task_turn.cases)
    (auto simp: Let_def find_active_by_key_id_def run_query_def split: option.splits sum.splits prod.splits)

lemma cached_principal:
  assumes "service_ok now P s" "cache_get later (as_cache s) kid = Some q"
  shows "pp_key_id q = kid \<and> q \<in> P"
  using assms by (auto simp: service_ok_def auth_ok_def cache_get_def split: option.splits if_splits)

lemma service_ok_insert:
  assumes "service_ok now P s" "p \<in> P" "as_cache s' = cache_insert now (pp_key_id p) p (as_cache s)"
  shows "service_ok now P s'"
  unfolding service_ok_def
proof (intro conjI allI impI)
  have ok: "auth_ok s" "cache_ok (as_cache s)" using assms(1) by (simp_all add: service_ok_def auth_ok_def)
  show "auth_ok s'" by (rule auth_ok_insert [OF ok(1) refl assms(3)])
  fix k e
  assume e: "vc_map (as_cache s') k = Some e"
  have "ce_inserted_at e \<le> now \<and> ce_principal e \<in> P"
  proof (cases "k = pp_key_id p")
    case True
    with e cache_insert_get [OF ok(2), of now "pp_key_id p" p] assms(2) show ?thesis by (auto simp: assms(3))
  next
    case False
    from cache_insert_other [OF ok(2) False e [unfolded assms(3)]] assms(1) show ?thesis by (simp add: service_ok_def)
  qed
  then show "ce_inserted_at e \<le> now" "ce_principal e \<in> P" by simp_all
qed

lemma turn_ok:
  assumes "service_ok now P s" "P = issued (kd_rows (as_db s))" "task_ok P raw st"
  shows "service_ok now P (snd (task_turn ar now raw st s))" (is ?A)
    and "task_ok P raw (fst (task_turn ar now raw st s))" (is ?B)
proof -
  have "?A \<and> ?B"
  proof (cases st)
    case Arrived
    with assms(1) cached_principal [OF assms(1)] show ?thesis by (simp split: option.split)
  next
    case (Missed kid)
    obtain x db where f: "find_active_by_key_id kid (as_db s) = (x, db)" by force
    have "service_ok now P (s \<lparr> as_db := db \<rparr>)" using assms(1) service_ok_cong [of "s \<lparr> as_db := db \<rparr>" s] by simp
    moreover have "task_ok P raw (Found row)" if "x = Inr (Some row)" for row
    proof -
      have "find (active_with_id kid) (kd_rows (as_db s)) = Some row"
        using conjunct2 [OF find_active_Inr [OF f [unfolded that]]] by (rule sym)
      from find_active_row [OF this] Missed assms(3) show ?thesis by (auto simp: assms(2) issued_def)
    qed
    ultimately show ?thesis unfolding Missed task_turn.simps f by (auto split: sum.split option.split)
  next
    case (Found row)
    with assms show ?thesis by (simp split: sum.split)
  next
    case (Verified row)
    with assms(3) have p: "principal_from_row row \<in> P" "parse_key_id raw = Some (ak_key_id row)" by simp_all
    have k: "pp_key_id (principal_from_row row) = ak_key_id row" by (simp add: principal_from_row_def)
    have "service_ok now P (s \<lparr> as_cache := cache_insert now (ak_key_id row) (principal_from_row row) (as_cache s),
        as_touches := as_touches s @ [ak_id row] \<rparr>)"
      by (rule service_ok_insert [OF assms(1) p(1)]) (simp add: k)
    with p k Verified show ?thesis by (simp add: Let_def)
  next
    case (Answered x)
    with assms(1,3) show ?thesis by simp
  qed
  then show ?A ?B by simp_all
qed

lemma pool_ok_step: "pool_step ar p q \<Longrightarrow> pool_ok p \<Longrightarrow> pool_ok q"
proof (induction rule: pool_step.induct)
  case (arrives p raw)
  then show ?case by (simp add: pool_ok_def pool_keys_def)
next
  case (turn i p now st s)
  let ?t = "ap_tasks p ! i"
  have rows: "kd_rows (as_db s) = kd_rows (as_db (ap_service p))"
    using turn_rows [of ar now "at_key ?t" "at_state ?t" "ap_service p"] turn(3) by simp
  have "service_ok now (pool_keys p) (ap_service p)" "task_ok (pool_keys p) (at_key ?t) (at_state ?t)"
    using turn(1,2,4) service_ok_mono [OF _ subset_refl] by (auto simp: pool_ok_def)
  from turn_ok [OF this(1) _ this(2), of ar] turn(3)
  have "service_ok now (pool_keys p) s" "task_ok (pool_keys p) (at_key ?t) st" by (simp_all add: pool_keys_def)
  with turn(4) rows show ?case by (auto simp: pool_ok_def pool_keys_def dest!: set_update_subset_insert [THEN subsetD])
next
  case (stamps p)
  have "as_cache (run_touch (ap_service p)) = as_cache (ap_service p)"
    "issued (kd_rows (as_db (run_touch (ap_service p)))) = pool_keys p"
    by (simp_all add: run_touch_def pool_keys_def touch_issued split: list.split)
  with stamps show ?case by (intro pool_ok_grows [OF stamps]) (simp_all add: pool_keys_def)
next
  case (budget limiter ip p x s)
  then have "as_cache s = as_cache (ap_service p)" "as_db s = as_db (ap_service p)"
    by (auto simp: check_ip_budget_def split: prod.splits)
  then show ?case by (intro pool_ok_grows [OF budget(2)]) (simp_all add: pool_keys_def)
next
  case (forgets p kid)
  let ?s = "ap_service p"
  have "cache_ok (cache_invalidate kid (as_cache ?s))"
    using forgets by (intro cache_invalidate_ok) (simp add: pool_ok_def service_ok_def auth_ok_def)
  with forgets have "service_ok (ap_now p) (pool_keys p) (auth_invalidate kid ?s)"
    by (auto simp: pool_ok_def service_ok_def auth_ok_def auth_invalidate_def cache_invalidate_def split: if_splits)
  with forgets show ?case by (simp add: pool_ok_def pool_keys_def auth_invalidate_def)
next
  case (creates p k)
  show ?case by (rule pool_ok_grows [OF creates]) (simp_all add: pool_keys_def with_keys_def create_issued)
next
  case (revokes p kid)
  show ?case by (rule pool_ok_grows [OF revokes]) (simp_all add: pool_keys_def with_keys_def revoke_issued)
next
  case (elsewhere p i)
  show ?case by (rule pool_ok_grows [OF elsewhere]) (simp_all add: pool_keys_def with_keys_def touch_issued)
qed

lemma pool_ok_reach: "pool_reach ar p q \<Longrightarrow> pool_ok p \<Longrightarrow> pool_ok q"
  by (induction rule: pool_reach.induct) (auto intro: pool_ok_step)

section \<open>After a revocation\<close>

text \<open>The key is revoked, and no request that saw its row before is still on its way.\<close>

definition settled :: "string \<Rightarrow> instant \<Rightarrow> 'l auth_pool \<Rightarrow> bool" where
  "settled kid t p \<longleftrightarrow> expires kid t (ap_service p) \<and> (\<forall>x\<in>set (ap_tasks p). \<not> holds kid (at_state x))"

definition none_accepted :: "string \<Rightarrow> nat \<Rightarrow> 'l auth_pool \<Rightarrow> bool" where
  "none_accepted kid n p \<longleftrightarrow> (\<forall>i q. n \<le> i \<longrightarrow> i < length (ap_tasks p) \<longrightarrow>
     parse_key_id (at_key (ap_tasks p ! i)) = Some kid \<longrightarrow> at_state (ap_tasks p ! i) \<noteq> Answered (Inr q))"

lemma expires_cong:
  assumes "expires kid t s" "as_cache s' = as_cache s" "dead_key kid (kd_rows (as_db s'))"
  shows "expires kid t s'"
  using assms by (simp add: expires_def)

lemma turn_settled:
  assumes "expires kid t s" "\<not> holds kid st"
  shows "expires kid t (snd (task_turn ar now raw st s))" (is ?A)
    and "\<not> holds kid (fst (task_turn ar now raw st s))" (is ?B)
proof -
  have dead: "dead_key kid (kd_rows (as_db (snd (task_turn ar now raw st s))))"
    using assms(1) by (simp add: turn_rows expires_def)
  have "?A \<and> ?B"
  proof (cases st)
    case Arrived
    with assms(1) show ?thesis by (simp split: option.split)
  next
    case (Missed k)
    obtain x db where f: "find_active_by_key_id k (as_db s) = (x, db)" by force
    have "\<not> holds kid (Found row)" if "x = Inr (Some row)" for row
    proof
      assume "holds kid (Found row)"
      moreover have "find (active_with_id k) (kd_rows (as_db s)) = Some row"
        using conjunct2 [OF find_active_Inr [OF f [unfolded that]]] by (rule sym)
      ultimately show False using find_active_row assms(1) by (fastforce simp: expires_def dead_key_def)
    qed
    with dead assms(1) show ?thesis unfolding Missed task_turn.simps f
      by (auto simp: expires_def split: sum.splits option.splits)
  next
    case (Found row)
    with assms show ?thesis by (simp split: sum.split)
  next
    case (Verified row)
    have ok: "cache_ok (as_cache s)" using assms(1) by (simp add: expires_def fades_def)
    have "kid \<noteq> ak_key_id row" using assms(2) Verified by simp
    with cache_insert_other [OF ok this] cache_insert_ok [OF ok] assms(1)
    have "fades kid t (cache_insert now (ak_key_id row) (principal_from_row row) (as_cache s))"
      by (simp add: expires_def fades_def)
    with Verified dead show ?thesis by (simp add: Let_def expires_def)
  next
    case (Answered x)
    with assms(1) show ?thesis by simp
  qed
  then show ?A ?B by simp_all
qed

lemma turn_refuses:
  assumes "expires kid t s" "t + cache_ttl < now" "parse_key_id raw = Some kid"
    and "task_ok P raw st" "\<not> holds kid st" "\<And>q. st \<noteq> Answered (Inr q)"
  shows "fst (task_turn ar now raw st s) \<noteq> Answered (Inr q)"
proof (cases st)
  case Arrived
  have "cache_get now (as_cache s) kid = None"
    using assms(1,2) by (auto simp: expires_def fades_def cache_get_def entry_fresh_def split: option.splits)
  with Arrived assms(3) show ?thesis by simp
next
  case (Verified row)
  with assms(3-5) show ?thesis by simp
qed (use assms(6) in \<open>simp_all split: sum.split option.split prod.split\<close>)

lemma pool_step_grows: "pool_step ar p q \<Longrightarrow> ap_now p \<le> ap_now q \<and> length (ap_tasks p) \<le> length (ap_tasks q)"
  by (induction rule: pool_step.induct) (simp_all add: with_keys_def)

lemma dead_step:
  "pool_step ar p q \<Longrightarrow> dead_key kid (kd_rows (as_db (ap_service p))) \<Longrightarrow> dead_key kid (kd_rows (as_db (ap_service q)))"
proof (induction rule: pool_step.induct)
  case (turn i p now st s)
  then show ?case
    using turn_rows [of ar now "at_key (ap_tasks p ! i)" "at_state (ap_tasks p ! i)" "ap_service p"] by simp
next
  case (budget limiter ip p x s)
  then show ?case by (auto simp: check_ip_budget_def split: prod.splits)
qed (simp_all add: with_keys_def run_touch_dead auth_invalidate_def create_dead revoke_dead touch_dead)

lemma dead_reach:
  "pool_reach ar p q \<Longrightarrow> dead_key kid (kd_rows (as_db (ap_service p))) \<Longrightarrow> dead_key kid (kd_rows (as_db (ap_service q)))"
  by (induction rule: pool_reach.induct) (auto intro: dead_step)

lemma fades_invalidate: "fades kid t c \<Longrightarrow> fades kid t (cache_invalidate k c)"
  by (auto simp: fades_def cache_invalidate_ok) (auto simp: cache_invalidate_def split: if_splits)

lemma settled_same_tasks:
  "settled kid t p \<Longrightarrow> ap_tasks q = ap_tasks p \<Longrightarrow> expires kid t (ap_service q) \<Longrightarrow> settled kid t q"
  by (simp add: settled_def)

lemma settled_step: "pool_step ar p q \<Longrightarrow> settled kid t p \<Longrightarrow> settled kid t q"
proof -
  assume step: "pool_step ar p q" and set: "settled kid t p"
  have dead: "dead_key kid (kd_rows (as_db (ap_service q)))"
    using dead_step [OF step] set by (simp add: settled_def expires_def)
  from step set dead show ?thesis
  proof (induction rule: pool_step.induct)
    case (arrives p raw)
    then show ?case by (simp add: settled_def)
  next
    case (turn i p now st s)
    let ?x = "ap_tasks p ! i"
    have "expires kid t (ap_service p)" "\<not> holds kid (at_state ?x)" using turn(1,4) by (simp_all add: settled_def)
    from turn_settled [OF this, of ar now "at_key ?x"] turn(3) have "expires kid t s" "\<not> holds kid st" by simp_all
    with turn(4) show ?case by (auto simp: settled_def dest!: set_update_subset_insert [THEN subsetD])
  next
    case (stamps p)
    have c: "as_cache (run_touch (ap_service p)) = as_cache (ap_service p)" by (simp add: run_touch_def split: list.split)
    with stamps show ?case by (simp add: settled_def expires_def)
  next
    case (budget limiter ip p x s)
    then have "as_cache s = as_cache (ap_service p)" by (auto simp: check_ip_budget_def split: prod.splits)
    with budget show ?case by (simp add: settled_def expires_def)
  next
    case (forgets p k)
    then show ?case by (simp add: settled_def expires_def auth_invalidate_def fades_invalidate)
  qed (simp_all add: settled_def expires_def with_keys_def)
qed

text \<open>Once the lifetime has passed, no task that came later is accepted.\<close>

lemma refusing_step:
  assumes "pool_step ar p q" "pool_ok p" "settled kid t p" "t + cache_ttl < ap_now p" "none_accepted kid n p"
  shows "none_accepted kid n q"
  using assms
proof (induction rule: pool_step.induct)
  case (arrives p raw)
  then show ?case by (auto simp: none_accepted_def nth_append less_Suc_eq)
next
  case (turn i p now st s)
  let ?x = "ap_tasks p ! i"
  have "\<not> (st = Answered (Inr a))" if "n \<le> i" "parse_key_id (at_key ?x) = Some kid" for a
  proof -
    have "expires kid t (ap_service p)" "\<not> holds kid (at_state ?x)" "task_ok (pool_keys p) (at_key ?x) (at_state ?x)"
      using turn(1,4,5) by (simp_all add: settled_def pool_ok_def)
    moreover have "at_state ?x \<noteq> Answered (Inr b)" for b using turn(1,7) that by (simp add: none_accepted_def)
    ultimately show ?thesis using turn_refuses [of kid t "ap_service p" now "at_key ?x"] turn(2,3,6) that(2)
      by (metis fst_conv less_le_trans)
  qed
  with turn(1,7) show ?case by (auto simp: none_accepted_def nth_list_update split: if_splits)
qed (simp_all add: none_accepted_def with_keys_def)

lemma refusing_reach:
  assumes "pool_reach ar p q" "pool_ok p" "settled kid t p" "t + cache_ttl < ap_now p" "none_accepted kid n p"
  shows "pool_ok q \<and> settled kid t q \<and> t + cache_ttl < ap_now q \<and> none_accepted kid n q"
  using assms
proof (induction rule: pool_reach.induct)
  case (further q r)
  then show ?case using pool_ok_step settled_step refusing_step pool_step_grows
    by (meson less_le_trans)
qed simp

lemma settled_reach: "pool_reach ar p q \<Longrightarrow> settled kid t p \<Longrightarrow> settled kid t q"
  by (induction rule: pool_reach.induct) (auto intro: settled_step)

definition pool_fresh :: "'l auth_pool \<Rightarrow> bool" where
  "pool_fresh p \<longleftrightarrow> as_cache (ap_service p) = cache_new \<and> ap_tasks p = []"

lemma pool_fresh_ok: "pool_fresh p \<Longrightarrow> pool_ok p"
  using cache_new_ok by (simp add: pool_fresh_def pool_ok_def service_ok_def auth_ok_def) (simp add: cache_new_def)

text \<open>A request that arrives and takes its turns without interruption.\<close>

lemma pool_turns:
  assumes "ap_now p \<le> now"
    and "((\<lambda>(st, s). task_turn ar now raw st s) ^^ Suc n) (Arrived, ap_service p) = (st, s)"
  shows "pool_reach ar p \<lparr> ap_service = s, ap_now = now, ap_tasks = ap_tasks p @ [\<lparr> at_key = raw, at_state = st \<rparr>] \<rparr>"
proof -
  let ?pool = "\<lambda>(st, s). \<lparr> ap_service = s, ap_now = now, ap_tasks = ap_tasks p @ [\<lparr> at_key = raw, at_state = st \<rparr>] \<rparr>"
  let ?turn = "\<lambda>(st, s). task_turn ar now raw st s"
  let ?arrived = "p \<lparr> ap_tasks := ap_tasks p @ [\<lparr> at_key = raw, at_state = Arrived \<rparr>] \<rparr>"
  have start: "pool_reach ar p ?arrived" by (rule further [OF here arrives])
  have first: "pool_step ar ?arrived (?pool (?turn (Arrived, ap_service p)))"
    using turn [of "length (ap_tasks p)" ?arrived now ar] assms(1)
    by (simp add: case_prod_beta)
  have next_turn: "pool_step ar (?pool c) (?pool (?turn c))" for c
    using turn [of "length (ap_tasks p)" "?pool c" now ar] by (simp add: case_prod_beta)
  have "pool_reach ar p (?pool ((?turn ^^ Suc n) (Arrived, ap_service p)))"
  proof (induction n)
    case 0
    show ?case using further [OF start first] by simp
  next
    case (Suc n)
    from further [OF Suc next_turn] show ?case by simp
  qed
  then show ?thesis unfolding assms(2) by simp
qed

lemma pool_runs_authenticate:
  assumes "ap_now p \<le> now" "authenticate ar now raw (ap_service p) = (x, s)"
  shows "pool_reach ar p \<lparr> ap_service = s, ap_now = now,
    ap_tasks = ap_tasks p @ [\<lparr> at_key = raw, at_state = Answered x \<rparr>] \<rparr>"
  using task_alone_authenticates [of ar now raw "ap_service p"] assms(2)
  by (intro pool_turns [OF assms(1), where n = 3]) (simp add: task_alone_def eval_nat_numeral)

section \<open>Properties\<close>

text \<open>
  C7: Revocation holds under every interleaving. Requests, key commands and stamps of the usage mix at the
  points where they await each other, from a service with an empty cache. Once \<open>hub-key revoke\<close> has answered
  for a key id of the table and the requests have ended that had already read the row, a request that arrives
  more than 60 seconds later with a key of this id is never accepted.
\<close>

theorem interleaved_revocation_takes_effect:
  assumes "pool_fresh p0" "pool_reach ar p0 p1" "kid \<in> ak_key_id ` set (kd_rows (as_db (ap_service p1)))"
    and "key_revoke kid (as_db (ap_service p1)) = (Inr b, db)"
    and "pool_reach ar (with_keys db p1) p2" "\<forall>x\<in>set (ap_tasks p2). \<not> holds kid (at_state x)"
    and "pool_reach ar p2 p3" "ap_now p2 + cache_ttl < ap_now p3"
    and "pool_reach ar p3 p4" "length (ap_tasks p3) \<le> i" "i < length (ap_tasks p4)"
    and "parse_key_id (at_key (ap_tasks p4 ! i)) = Some kid"
  shows "at_state (ap_tasks p4 ! i) \<noteq> Answered (Inr q)"
proof -
  have "pool_ok p1" using assms(1,2) by (auto intro: pool_ok_reach pool_fresh_ok)
  moreover have "pool_step ar p1 (with_keys db p1)"
    using revokes [of ar p1 kid] assms(4) by simp
  ultimately have ok: "pool_ok p2" "pool_ok p3" using assms(5,7) by (blast intro: pool_ok_reach pool_ok_step)+
  have "dead_key kid (kd_rows (as_db (ap_service p2)))"
    using dead_reach [OF assms(5)] revoke_kills [OF assms(4,3)] by (simp add: with_keys_def)
  with ok(1) assms(6) have "settled kid (ap_now p2) p2"
    by (auto simp: settled_def expires_def fades_def pool_ok_def service_ok_def auth_ok_def)
  from refusing_reach [OF assms(9) ok(2) settled_reach [OF assms(7) this] assms(8), of "length (ap_tasks p3)"] assms(10-12)
  show ?thesis by (simp add: none_accepted_def)
qed

text \<open>
  C11: A verification under way outlives a revocation. Let a request have read the row of a key and verified
  the secret, but not yet written the cache, and let the key be revoked now, or the table change in any other
  way, and the cached entry be dropped by \<open>invalidate\<close>. Then, however late the request writes the cache, a
  request with any well-formed key of this id can still be accepted 60 seconds after that.
\<close>

theorem pending_verification_outlives_revocation:
  assumes "pool_fresh p0" "pool_reach ar p0 p" "x \<in> set (ap_tasks p)" "at_state x = Verified row"
    and "parse_key_id forged = Some (ak_key_id row)"
  shows "\<exists>q. pool_reach ar (with_keys db (p \<lparr> ap_service := auth_invalidate (ak_key_id row) (ap_service p) \<rparr>)) q
    \<and> ap_now q = ap_now p + delay + cache_ttl \<and> as_db (ap_service q) = db
    \<and> last (ap_tasks q) = \<lparr> at_key = forged, at_state = Answered (Inr (principal_from_row row)) \<rparr>"
proof -
  let ?kid = "ak_key_id row" and ?now = "ap_now p + delay" and ?p = "principal_from_row row"
  let ?r = "with_keys db (p \<lparr> ap_service := auth_invalidate ?kid (ap_service p) \<rparr>)"
  obtain i where i: "i < length (ap_tasks ?r)" "ap_tasks ?r ! i = x"
    using assms(3) by (auto simp: in_set_conv_nth with_keys_def)
  let ?c = "cache_insert ?now ?kid ?p (as_cache (ap_service ?r))"
  let ?s = "(ap_service ?r) \<lparr> as_cache := ?c, as_touches := as_touches (ap_service ?r) @ [ak_id row] \<rparr>"
  let ?q = "\<lparr> ap_service = ?s, ap_now = ?now, ap_tasks = (ap_tasks ?r)[i := x \<lparr> at_state := Answered (Inr ?p) \<rparr>] \<rparr>"
  have step: "pool_step ar ?r ?q"
    using turn [OF i(1), of ?now ar] i(2) assms(4) by (simp add: with_keys_def Let_def)
  have "pool_ok p" using assms(1,2) by (auto intro: pool_ok_reach pool_fresh_ok)
  then have "cache_ok (as_cache (ap_service ?r))"
    by (simp add: pool_ok_def service_ok_def auth_ok_def with_keys_def auth_invalidate_def cache_invalidate_ok)
  from cache_insert_get [OF this, of ?now ?kid ?p] have "cache_get (?now + cache_ttl) (as_cache ?s) ?kid = Some ?p"
    by (simp add: cache_get_def entry_fresh_def)
  from authenticate_hit [OF assms(5) this] have "authenticate ar (?now + cache_ttl) forged ?s = (Inr ?p, ?s)" .
  with pool_runs_authenticate [of ?q "?now + cache_ttl" ar forged]
  have "pool_reach ar ?q \<lparr> ap_service = ?s, ap_now = ?now + cache_ttl,
      ap_tasks = ap_tasks ?q @ [\<lparr> at_key = forged, at_state = Answered (Inr ?p) \<rparr>] \<rparr>" by simp
  from pool_reach_trans [OF this further [OF here step]] show ?thesis
    by (intro exI conjI) (assumption, simp_all add: with_keys_def)
qed

definition sample_pool :: "unit auth_pool" where
  "sample_pool = \<lparr> ap_service = sample_auth_service, ap_now = 0, ap_tasks = [] \<rparr>"

lemma sample_pool_service: "ap_service sample_pool = sample_auth_service" by (simp add: sample_pool_def)

lemma sample_pool_fresh: "pool_fresh sample_pool"
  by (simp add: pool_fresh_def sample_pool_def sample_auth_service_def)

lemma sample_three_turns:
  "\<exists>s. ((\<lambda>(st, s). task_turn plain_argon2 0 (sample_secret_key (CHR ''a'')) st s) ^^ Suc 2) (Arrived, sample_auth_service)
     = (Verified sample_key_row, s)"
  by (simp add: eval_nat_numeral sample_secret_key_id cache_get_def sample_auth_service_def cache_new_def
      find_active_by_key_id_def run_query_def active_with_id_def sample_key_row_def verify_hash_def plain_argon2_def)

theorem interleaved_revocation_takes_effect_witness:
  "\<exists>p db q. pool_reach plain_argon2 sample_pool p
     \<and> at_state (hd (ap_tasks p)) = Answered (Inr (principal_from_row sample_key_row))
     \<and> key_revoke ''0123abcd'' (as_db (ap_service p)) = (Inr True, db)
     \<and> pool_reach plain_argon2 (with_keys db p) q \<and> ap_now q = Suc cache_ttl
     \<and> at_key (last (ap_tasks q)) = sample_secret_key (CHR ''a'')
     \<and> (\<exists>e. at_state (last (ap_tasks q)) = Answered (Inl e))"
proof -
  let ?key = "sample_secret_key (CHR ''a'')" and ?t = "Suc cache_ttl"
  obtain s where s: "authenticate plain_argon2 0 ?key sample_auth_service = (Inr (principal_from_row sample_key_row), s)"
    using sample_verified by blast
  let ?p = "\<lparr> ap_service = s, ap_now = 0, ap_tasks = [\<lparr> at_key = ?key, at_state = Answered (Inr (principal_from_row sample_key_row)) \<rparr>] \<rparr>"
  have p: "pool_reach plain_argon2 sample_pool ?p"
    using pool_runs_authenticate [of sample_pool 0 plain_argon2 ?key] s by (simp add: sample_pool_def)
  have "cache_get 0 (as_cache sample_auth_service) ''0123abcd'' = None"
    by (simp add: cache_get_def sample_auth_service_def cache_new_def)
  with authenticate_miss [OF s sample_secret_key_id(1)] have tick: "as_db s = tick (as_db sample_auth_service)" by metis
  then obtain db where db: "key_revoke ''0123abcd'' (as_db s) = (Inr True, db)"
    by (simp add: key_revoke_def run_query_def sample_auth_service_def tick_def active_with_id_def sample_key_row_def)
  have kid: "''0123abcd'' \<in> ak_key_id ` set (kd_rows (as_db (ap_service ?p)))"
    by (simp add: tick sample_auth_service_def sample_key_row_def)
  let ?p2 = "with_keys db ?p"
  have "parse_key_id [] = None" by code_simp
  then have bad: "authenticate plain_argon2 ?t [] (ap_service ?p2) = (Inl Malformed, ap_service ?p2)" by (simp add: authenticate_def)
  let ?p3 = "\<lparr> ap_service = ap_service ?p2, ap_now = ?t, ap_tasks = ap_tasks ?p2 @ [\<lparr> at_key = [], at_state = Answered (Inl Malformed) \<rparr>] \<rparr>"
  have p3: "pool_reach plain_argon2 ?p2 ?p3"
    by (rule pool_runs_authenticate [OF _ bad]) (simp add: with_keys_def)
  obtain x s4 where x: "authenticate plain_argon2 ?t ?key (ap_service ?p3) = (x, s4)" by force
  let ?p4 = "\<lparr> ap_service = s4, ap_now = ?t, ap_tasks = ap_tasks ?p3 @ [\<lparr> at_key = ?key, at_state = Answered x \<rparr>] \<rparr>"
  have p4: "pool_reach plain_argon2 ?p3 ?p4" by (rule pool_runs_authenticate [OF _ x]) simp
  have "Answered x \<noteq> Answered (Inr q)" for q
    using interleaved_revocation_takes_effect [OF sample_pool_fresh p kid _ here _ p3 _ p4, where b = True and i = 2 and q = q] db sample_secret_key_id(1)
    by (simp add: with_keys_def nth_append)
  then obtain e where "x = Inl e" by (cases x) auto
  with p db pool_reach_trans [OF p4 p3] show ?thesis
    by - (rule exI [where x = ?p], rule exI [where x = db], rule exI [where x = ?p4], simp)
qed

theorem pending_verification_outlives_revocation_witness:
  "\<exists>p db q. pool_reach plain_argon2 sample_pool p \<and> key_revoke ''0123abcd'' (as_db (ap_service p)) = (Inr True, db)
     \<and> pool_reach plain_argon2 (with_keys db (p \<lparr> ap_service := auth_invalidate ''0123abcd'' (ap_service p) \<rparr>)) q
     \<and> ap_now p = 0 \<and> ap_now q = 5 + cache_ttl \<and> as_db (ap_service q) = db
     \<and> last (ap_tasks q) = \<lparr> at_key = sample_secret_key (CHR ''b''), at_state = Answered (Inr (principal_from_row sample_key_row)) \<rparr>"
proof -
  let ?key = "sample_secret_key (CHR ''a'')"
  obtain s where s: "((\<lambda>(st, s). task_turn plain_argon2 0 ?key st s) ^^ Suc 2) (Arrived, sample_auth_service)
     = (Verified sample_key_row, s)" using sample_three_turns by blast
  let ?p = "\<lparr> ap_service = s, ap_now = 0, ap_tasks = [\<lparr> at_key = ?key, at_state = Verified sample_key_row \<rparr>] \<rparr>"
  have p: "pool_reach plain_argon2 sample_pool ?p"
    using pool_turns [of sample_pool 0, OF _ s [folded sample_pool_service]] by (simp add: sample_pool_def)
  have k: "ak_key_id sample_key_row = ''0123abcd''" by (simp add: sample_key_row_def)
  obtain db where db: "key_revoke ''0123abcd'' (as_db (ap_service ?p)) = (Inr True, db)"
    using s by (auto simp: eval_nat_numeral sample_secret_key_id cache_get_def sample_auth_service_def cache_new_def
      find_active_by_key_id_def run_query_def active_with_id_def sample_key_row_def verify_hash_def plain_argon2_def
      key_revoke_def tick_def)
  from pending_verification_outlives_revocation [OF sample_pool_fresh p, of _ sample_key_row "sample_secret_key (CHR ''b'')" db 5]
    sample_secret_key_id(2) k
  have "\<exists>q. pool_reach plain_argon2 (with_keys db (?p \<lparr> ap_service := auth_invalidate ''0123abcd'' (ap_service ?p) \<rparr>)) q
     \<and> ap_now q = 5 + cache_ttl \<and> as_db (ap_service q) = db
     \<and> last (ap_tasks q) = \<lparr> at_key = sample_secret_key (CHR ''b''), at_state = Answered (Inr (principal_from_row sample_key_row)) \<rparr>"
    by simp
  with p db show ?thesis by - (rule exI [where x = ?p], rule exI [where x = db], simp)
qed

end
