(* ===== verification/RunHub.thy ===== *)
theory RunHub
  imports Config HubRepos
begin

text \<open>
  The life of the hub process, \<open>src/src/hub/run_hub.rs\<close>: the checks and bindings of \<open>run\<close>, its three
  tasks, and its end. The start is a function; what happens afterwards is a step relation over the
  signals and the ends of the tasks.
\<close>

section \<open>Starting\<close>

datatype hub_task = GrpcTask | RestTask | RetentionTask

text \<open>A socket that a server listens on; \<open>ls_tls\<close> says whether it speaks TLS.\<close>

record 'a listener =
  ls_task :: hub_task
  ls_addr :: 'a
  ls_tls :: bool

datatype hub_phase = Serving | Joining "hub_task list" | Returned

record 'a hub_process =
  hp_listeners :: "'a listener list"
  hp_cancelled :: bool
  hp_done :: "hub_task set"
  hp_phase :: hub_phase

text \<open>What the process meets: migrations, name resolution.\<close>

record 'a hub_start_env =
  hs_migrate :: "sentinel_error + unit"
  hs_addrs :: "string \<Rightarrow> 16 word \<Rightarrow> string + 'a list"

definition resolve_addr :: "'a hub_start_env \<Rightarrow> string \<Rightarrow> 16 word \<Rightarrow> sentinel_error + 'a" where
  "resolve_addr env host port =
     and_then (map_err (\<lambda>e. ConfigError (''invalid hub address '' @ host @ '':'' @ show_nat (unat port)
         @ '': '' @ e)) (hs_addrs env host port)) (\<lambda>addrs.
       (case addrs of
          a # _ \<Rightarrow> Inr a
        | [] \<Rightarrow> Inl (ConfigError (''hub address '' @ host @ '':'' @ show_nat (unat port) @ '' unresolved''))))"

text \<open>\<open>spawn_grpc\<close> and \<open>spawn_rest\<close> build their servers without a TLS configuration.\<close>

definition spawn_grpc :: "'a \<Rightarrow> 'a listener" where
  "spawn_grpc a = \<lparr> ls_task = GrpcTask, ls_addr = a, ls_tls = False \<rparr>"

definition spawn_rest :: "'a \<Rightarrow> 'a listener" where
  "spawn_rest a = \<lparr> ls_task = RestTask, ls_addr = a, ls_tls = False \<rparr>"

definition hub_start :: "'a hub_start_env \<Rightarrow> config \<Rightarrow> sentinel_error + 'a hub_process" where
  "hub_start env cfg =
     (let hub = cf_hub cfg
      in if \<not> hub_enabled hub
         then Inl (ConfigError ''hub mode requested but hub.enabled is false in the config'')
         else and_then (validate_bind_security hub) (\<lambda>_.
              and_then (hs_migrate env) (\<lambda>_.
              and_then (resolve_addr env (hub_grpc_host hub) (hub_grpc_port hub)) (\<lambda>grpc.
              and_then (resolve_addr env (hub_rest_host hub) (hub_rest_port hub)) (\<lambda>rest.
                Inr \<lparr> hp_listeners = [spawn_grpc grpc, spawn_rest rest], hp_cancelled = False,
                      hp_done = {}, hp_phase = Serving \<rparr>)))))"

section \<open>Running\<close>

text \<open>
  The first signal cancels and turns to joining the tasks in order; the handlers stay installed, so
  later signals do nothing. The servers do not look at the token: their tasks end only when the server
  itself gives up. The retention task ends after the token has fired.
\<close>

datatype hub_event = HubSignal | TaskEnds hub_task | Join

inductive hub_step :: "'a hub_process \<Rightarrow> hub_event \<Rightarrow> 'a hub_process \<Rightarrow> bool" where
  signal: "hp_phase p = Serving \<Longrightarrow>
    hub_step p HubSignal
      (p \<lparr> hp_cancelled := True, hp_phase := Joining [GrpcTask, RestTask, RetentionTask] \<rparr>)"
| signal_ignored: "hp_phase p \<noteq> Serving \<Longrightarrow> hub_step p HubSignal p"
| server_ends: "t \<noteq> RetentionTask \<Longrightarrow>
    hub_step p (TaskEnds t) (p \<lparr> hp_done := insert t (hp_done p) \<rparr>)"
| retention_ends: "hp_cancelled p \<Longrightarrow>
    hub_step p (TaskEnds RetentionTask) (p \<lparr> hp_done := insert RetentionTask (hp_done p) \<rparr>)"
| join: "hp_phase p = Joining (t # ts) \<Longrightarrow> t \<in> hp_done p \<Longrightarrow>
    hub_step p Join (p \<lparr> hp_phase := Joining ts \<rparr>)"
| finish: "hp_phase p = Joining [] \<Longrightarrow> hub_step p Join (p \<lparr> hp_phase := Returned \<rparr>)"

inductive_cases hub_stepE: "hub_step p e q"

inductive_simps hub_step_simps:
  "hub_step p HubSignal q" "hub_step p (TaskEnds t) q" "hub_step p Join q"

inductive hub_trace :: "'a hub_process \<Rightarrow> hub_event list \<Rightarrow> 'a hub_process \<Rightarrow> bool" where
  empty: "hub_trace p [] p"
| snoc: "hub_trace p es q \<Longrightarrow> hub_step q e r \<Longrightarrow> hub_trace p (es @ [e]) r"

text \<open>
  What holds of every reachable process: a finished task has ended, and joining has got as far as the
  ended tasks allow.
\<close>

definition hub_inv :: "hub_event list \<Rightarrow> 'a hub_process \<Rightarrow> bool" where
  "hub_inv es p \<longleftrightarrow>
     (\<forall>t\<in>hp_done p. TaskEnds t \<in> set es)
     \<and> (case hp_phase p of
          Serving \<Rightarrow> \<not> hp_cancelled p
        | Joining ts \<Rightarrow> HubSignal \<in> set es
            \<and> (\<exists>us. [GrpcTask, RestTask, RetentionTask] = us @ ts \<and> set us \<subseteq> hp_done p)
        | Returned \<Rightarrow> HubSignal \<in> set es \<and> {GrpcTask, RestTask, RetentionTask} \<subseteq> hp_done p)"

lemma hub_step_inv:
  assumes "hub_step p e q" "hub_inv es p"
  shows "hub_inv (es @ [e]) q"
  using assms(1)
proof (cases rule: hub_step.cases)
  case (join t ts)
  with assms(2) obtain us where us: "[GrpcTask, RestTask, RetentionTask] = us @ t # ts"
    "set us \<subseteq> hp_done p" "HubSignal \<in> set es" by (auto simp: hub_inv_def)
  then have "[GrpcTask, RestTask, RetentionTask] = (us @ [t]) @ ts" "set (us @ [t]) \<subseteq> hp_done p"
    using join(4) by simp_all
  with assms(2) join us(3) show ?thesis by (fastforce simp: hub_inv_def)
next
  case finish
  with assms(2) have us: "set [GrpcTask, RestTask, RetentionTask] \<subseteq> hp_done p"
    by (auto simp: hub_inv_def simp del: set_simps)
  with assms(2) finish show ?thesis by (auto simp: hub_inv_def)
qed (use assms(2) in \<open>auto simp: hub_inv_def split: hub_phase.splits\<close>)

lemma hub_trace_inv: "hub_trace p es q \<Longrightarrow> hub_inv [] p \<Longrightarrow> hub_inv es q"
proof (induction rule: hub_trace.induct)
  case (snoc p es q e r)
  then show ?case using hub_step_inv by blast
qed

lemma hub_start_inv: "hub_start env cfg = Inr p \<Longrightarrow> hub_inv [] p"
  by (auto simp: hub_start_def hub_inv_def shape_simps Let_def split: if_splits)

lemma hub_start_Inr:
  "hub_start env cfg = Inr p \<longleftrightarrow>
     hub_enabled (cf_hub cfg) \<and> is_ok (validate_bind_security (cf_hub cfg)) \<and> hs_migrate env = Inr ()
     \<and> (\<exists>g r. resolve_addr env (hub_grpc_host (cf_hub cfg)) (hub_grpc_port (cf_hub cfg)) = Inr g
         \<and> resolve_addr env (hub_rest_host (cf_hub cfg)) (hub_rest_port (cf_hub cfg)) = Inr r
         \<and> p = \<lparr> hp_listeners = [spawn_grpc g, spawn_rest r], hp_cancelled = False, hp_done = {},
                hp_phase = Serving \<rparr>)"
  by (auto simp: hub_start_def shape_simps Let_def is_ok_def split: sum.splits)

section \<open>Properties\<close>

text \<open>
  The bind guard and TLS. Without \<open>tls.enabled\<close> the hub only starts when both hosts are loopback
  or Tailscale addresses. With it the guard accepts every host, and the servers still listen without
  TLS: the flag turns the protection off and nothing on.
\<close>

lemma hub_listens_in_plaintext:
  assumes "hub_start env cfg = Inr p"
  shows "(\<forall>l\<in>set (hp_listeners p). \<not> ls_tls l)
    \<and> (tls_enabled (hub_tls (cf_hub cfg)) \<or>
       (private_host (hub_grpc_host (cf_hub cfg)) \<and> private_host (hub_rest_host (cf_hub cfg))))
    \<and> (\<forall>g r. is_ok (hub_start env (cfg \<lparr> cf_hub := (cf_hub cfg) \<lparr> hub_grpc_host := g, hub_rest_host := r,
              hub_tls := (hub_tls (cf_hub cfg)) \<lparr> tls_enabled := True \<rparr> \<rparr> \<rparr>)) \<longleftrightarrow>
         is_ok (resolve_addr env g (hub_grpc_port (cf_hub cfg)))
         \<and> is_ok (resolve_addr env r (hub_rest_port (cf_hub cfg))))"
proof (intro conjI allI)
  note p = assms [unfolded hub_start_Inr]
  from p show "\<forall>l\<in>set (hp_listeners p). \<not> ls_tls l" by (auto simp: spawn_grpc_def spawn_rest_def)
  from p show "tls_enabled (hub_tls (cf_hub cfg)) \<or>
      (private_host (hub_grpc_host (cf_hub cfg)) \<and> private_host (hub_rest_host (cf_hub cfg)))"
    using validate_bind_ok by blast
  show "is_ok (hub_start env (cfg \<lparr> cf_hub := (cf_hub cfg) \<lparr> hub_grpc_host := g, hub_rest_host := r,
          hub_tls := (hub_tls (cf_hub cfg)) \<lparr> tls_enabled := True \<rparr> \<rparr> \<rparr>)) \<longleftrightarrow>
      is_ok (resolve_addr env g (hub_grpc_port (cf_hub cfg)))
      \<and> is_ok (resolve_addr env r (hub_rest_port (cf_hub cfg)))" for g r
    using p by (auto simp: hub_start_def Let_def validate_bind_security_def is_ok_and_then elim!: is_okE)
qed

definition sample_hub_config :: config where
  "sample_hub_config = default_config \<lparr> cf_hub := default_hub \<lparr> hub_enabled := True,
     hub_grpc_host := ''localhost'', hub_rest_host := ''localhost'' \<rparr> \<rparr>"

definition sample_start_env :: "string hub_start_env" where
  "sample_start_env = \<lparr> hs_migrate = Inr (), hs_addrs = (\<lambda>h _. Inr [h]) \<rparr>"

definition sample_hub_process :: "string hub_process" where
  "sample_hub_process =
     \<lparr> hp_listeners = [spawn_grpc ''localhost'', spawn_rest ''localhost''], hp_cancelled = False,
       hp_done = {}, hp_phase = Serving \<rparr>"

lemma sample_hub_start: "hub_start sample_start_env sample_hub_config = Inr sample_hub_process"
proof -
  have "private_host ''localhost''" by (simp add: private_host_def parse_host_def is_loopback_def)
  then have "is_ok (validate_bind_security (cf_hub sample_hub_config))"
    by (simp add: validate_bind_ok sample_hub_config_def)
  then show ?thesis
    by (simp add: hub_start_Inr sample_start_env_def sample_hub_config_def sample_hub_process_def
        resolve_addr_def)
qed

lemma hub_listens_in_plaintext_witness:
  "is_ok (hub_start sample_start_env (sample_hub_config \<lparr> cf_hub := (cf_hub sample_hub_config)
      \<lparr> hub_grpc_host := ''0.0.0.0'', hub_rest_host := ''0.0.0.0'',
        hub_tls := (hub_tls (cf_hub sample_hub_config)) \<lparr> tls_enabled := True \<rparr> \<rparr> \<rparr>))"
  using hub_listens_in_plaintext [OF sample_hub_start]
  by (simp add: resolve_addr_def sample_start_env_def)


lemma sample_signalled:
  "\<exists>q. hub_trace sample_hub_process [HubSignal, HubSignal] q"
proof -
  let ?q = "sample_hub_process \<lparr> hp_cancelled := True, hp_phase := Joining [GrpcTask, RestTask, RetentionTask] \<rparr>"
  have "hub_trace sample_hub_process ([] @ [HubSignal]) ?q"
    by (rule hub_trace.snoc [OF hub_trace.empty])
      (simp add: hub_step_simps sample_hub_process_def)
  then have "hub_trace sample_hub_process (([] @ [HubSignal]) @ [HubSignal]) ?q"
    by (rule hub_trace.snoc) (simp add: hub_step_simps)
  then show ?thesis by auto
qed


end
