(* ===== verification/Batcher.thy ===== *)
theory Batcher
  imports Text
begin

text \<open>
  The agent's bounded log buffer, \<open>src/src/agent/batcher.rs\<close>. The eviction loop of \<open>push\<close> is a loop
  that need not end when the capacity is zero, so it is a partial function; the constructor rules that
  capacity out. What clients rely on is the locale \<open>bounded_queue\<close>.
\<close>

record pending_line =
  pn_timestamp_ms :: int
  pn_container :: string
  pn_stream :: string
  pn_message :: string

record 'a batcher =
  bt_buf :: "'a list"
  bt_max :: nat
  bt_dropped_since_report :: nat
  bt_total_dropped :: nat

definition batcher_new :: "nat \<Rightarrow> 'a batcher" where
  "batcher_new m =
     \<lparr> bt_buf = [], bt_max = max m 1, bt_dropped_since_report = 0, bt_total_dropped = 0 \<rparr>"

definition pop_front :: "'a batcher \<Rightarrow> 'a batcher" where
  "pop_front b =
     (case bt_buf b of
        [] \<Rightarrow> b
      | _ # r \<Rightarrow>
          b \<lparr> bt_buf := r, bt_dropped_since_report := bt_dropped_since_report b + 1,
              bt_total_dropped := bt_total_dropped b + 1 \<rparr>)"

partial_function (option) evict_oldest :: "'a batcher \<Rightarrow> 'a batcher option" where
  "evict_oldest b = (if length (bt_buf b) \<ge> bt_max b then evict_oldest (pop_front b) else Some b)"

declare evict_oldest.simps [code]

definition batcher_push :: "'a \<Rightarrow> 'a batcher \<Rightarrow> 'a batcher option" where
  "batcher_push x b = map_option (\<lambda>b. b \<lparr> bt_buf := bt_buf b @ [x] \<rparr>) (evict_oldest b)"

definition batcher_drain :: "nat \<Rightarrow> 'a batcher \<Rightarrow> 'a list \<times> 'a batcher" where
  "batcher_drain n b =
     (let n = min n (length (bt_buf b))
      in (take n (bt_buf b), b \<lparr> bt_buf := drop n (bt_buf b) \<rparr>))"

definition batcher_len :: "'a batcher \<Rightarrow> nat" where "batcher_len b = length (bt_buf b)"
definition batcher_is_empty :: "'a batcher \<Rightarrow> bool" where "batcher_is_empty b \<longleftrightarrow> bt_buf b = []"

definition take_dropped :: "'a batcher \<Rightarrow> nat \<times> 'a batcher" where
  "take_dropped b = (bt_dropped_since_report b, b \<lparr> bt_dropped_since_report := 0 \<rparr>)"

section \<open>The contract\<close>

fun push_all :: "('x \<Rightarrow> 'q \<Rightarrow> 'q option) \<Rightarrow> 'x list \<Rightarrow> 'q \<Rightarrow> 'q option" where
  "push_all push [] q = Some q"
| "push_all push (x # xs) q = Option.bind (push x q) (push_all push xs)"

text \<open>
  A bounded queue: a push succeeds, and when the queue is full the oldest item makes room and is
  counted; a drain takes the oldest items and loses nothing.
\<close>

locale bounded_queue =
  fixes push :: "'x \<Rightarrow> 'q \<Rightarrow> 'q option"
    and drain :: "nat \<Rightarrow> 'q \<Rightarrow> 'x list \<times> 'q"
    and items :: "'q \<Rightarrow> 'x list"
    and cap :: "'q \<Rightarrow> nat"
    and lost :: "'q \<Rightarrow> nat"
    and ok :: "'q \<Rightarrow> bool"
  assumes ok_bound: "ok q \<Longrightarrow> length (items q) \<le> cap q \<and> 1 \<le> cap q"
    and push_ok: "ok q \<Longrightarrow> \<exists>q'. push x q = Some q' \<and> ok q' \<and> cap q' = cap q
      \<and> items q' = drop (Suc (length (items q)) - cap q) (items q @ [x])
      \<and> lost q' = lost q + (Suc (length (items q)) - cap q)"
    and drain_ok: "ok q \<Longrightarrow> drain n q = (xs, q') \<Longrightarrow> ok q' \<and> cap q' = cap q \<and> lost q' = lost q
      \<and> xs = take n (items q) \<and> items q' = drop n (items q)"
begin

lemma pushE:
  assumes "ok q"
  obtains q' where "push x q = Some q'" "ok q'" "cap q' = cap q"
    "items q' = drop (Suc (length (items q)) - cap q) (items q @ [x])"
    "lost q' = lost q + (Suc (length (items q)) - cap q)"
  using push_ok [OF assms] by blast

text \<open>After any number of pushes the queue holds the newest items, and every other one is counted.\<close>

lemma push_all_ok:
  assumes "ok q"
  shows "\<exists>q'. push_all push xs q = Some q' \<and> ok q' \<and> cap q' = cap q
    \<and> items q' = drop (length (items q) + length xs - cap q) (items q @ xs)
    \<and> lost q' + length (items q') = lost q + length (items q) + length xs"
  using assms
proof (induction xs arbitrary: q)
  case Nil
  then show ?case using ok_bound [of q] by simp
next
  case (Cons x xs)
  note b = ok_bound [OF Cons.prems]
  from Cons.prems obtain q1 where q1: "push x q = Some q1" "ok q1" "cap q1 = cap q"
    "items q1 = drop (Suc (length (items q)) - cap q) (items q @ [x])"
    "lost q1 = lost q + (Suc (length (items q)) - cap q)" by (rule pushE)
  from Cons.IH [OF q1(2)] obtain q2 where q2: "push_all push xs q1 = Some q2" "ok q2" "cap q2 = cap q1"
    "items q2 = drop (length (items q1) + length xs - cap q1) (items q1 @ xs)"
    "lost q2 + length (items q2) = lost q1 + length (items q1) + length xs" by blast
  have "items q2 = drop (length (items q) + length (x # xs) - cap q) (items q @ x # xs)"
  proof (cases "length (items q) < cap q")
    case True
    with q1 q2 show ?thesis by simp
  next
    case False
    with b have full: "length (items q) = cap q" by simp
    then obtain y ys where ys: "items q = y # ys" using b by (cases "items q") auto
    with full q1 q2 show ?thesis by (simp add: drop_Cons')
  qed
  moreover have "lost q2 + length (items q2) = lost q + length (items q) + length (x # xs)"
    using q1(4,5) q2(5) b by (cases "length (items q) < cap q") simp_all
  ultimately show ?case using q1(1,3) q2 by auto
qed

end

section \<open>The buffer keeps the contract\<close>

definition batcher_ok :: "'a batcher \<Rightarrow> bool" where
  "batcher_ok b \<longleftrightarrow> 1 \<le> bt_max b \<and> length (bt_buf b) \<le> bt_max b
     \<and> bt_dropped_since_report b \<le> bt_total_dropped b"

lemma batcher_new_ok: "batcher_ok (batcher_new m)"
  by (simp add: batcher_ok_def batcher_new_def)

lemma evict_room: "length (bt_buf b) < bt_max b \<Longrightarrow> evict_oldest b = Some b"
  by (subst evict_oldest.simps) simp

lemma evict_full:
  assumes "batcher_ok b" "length (bt_buf b) = bt_max b"
  shows "evict_oldest b = Some (b \<lparr> bt_buf := tl (bt_buf b),
    bt_dropped_since_report := bt_dropped_since_report b + 1,
    bt_total_dropped := bt_total_dropped b + 1 \<rparr>)"
proof -
  obtain x r where buf: "bt_buf b = x # r" using assms by (cases "bt_buf b") (auto simp: batcher_ok_def)
  have "evict_oldest b = evict_oldest (pop_front b)"
    using assms(2) by (subst evict_oldest.simps) simp
  also have "\<dots> = Some (pop_front b)"
    by (rule evict_room) (use assms(2) buf in \<open>simp add: pop_front_def\<close>)
  finally show ?thesis using buf by (simp add: pop_front_def)
qed

interpretation buffer: bounded_queue batcher_push batcher_drain bt_buf bt_max bt_total_dropped batcher_ok
proof
  show "batcher_ok b \<Longrightarrow> length (bt_buf b) \<le> bt_max b \<and> 1 \<le> bt_max b" for b :: "'a batcher"
    by (simp add: batcher_ok_def)
  show "batcher_ok b \<Longrightarrow> \<exists>b'. batcher_push x b = Some b' \<and> batcher_ok b' \<and> bt_max b' = bt_max b
      \<and> bt_buf b' = drop (Suc (length (bt_buf b)) - bt_max b) (bt_buf b @ [x])
      \<and> bt_total_dropped b' = bt_total_dropped b + (Suc (length (bt_buf b)) - bt_max b)"
    for x :: 'a and b
  proof (cases "length (bt_buf b) < bt_max b")
    case True
    moreover assume "batcher_ok b"
    ultimately show ?thesis by (simp add: batcher_push_def evict_room batcher_ok_def)
  next
    case False
    moreover assume ok: "batcher_ok b"
    ultimately have full: "length (bt_buf b) = bt_max b" by (simp add: batcher_ok_def)
    then have "bt_buf b \<noteq> []" using ok by (auto simp: batcher_ok_def)
    then have "drop (Suc (length (bt_buf b)) - bt_max b) (bt_buf b @ [x]) = tl (bt_buf b) @ [x]"
      using full by (cases "bt_buf b") (simp_all add: Suc_diff_le)
    then show ?thesis
      using evict_full [OF ok full] ok full
      by (simp add: batcher_push_def batcher_ok_def Suc_diff_le)
  qed
  show "batcher_ok b \<Longrightarrow> batcher_drain n b = (xs, b') \<Longrightarrow> batcher_ok b' \<and> bt_max b' = bt_max b
      \<and> bt_total_dropped b' = bt_total_dropped b \<and> xs = take n (bt_buf b) \<and> bt_buf b' = drop n (bt_buf b)"
    for b b' :: "'a batcher" and n xs
    by (auto simp: batcher_drain_def batcher_ok_def Let_def min_def)
qed

section \<open>Properties\<close>

text \<open>
  The buffer is bounded and drops the oldest: pushing any lines into a new buffer always returns,
  the buffer then holds the newest \<open>max\<close> of them in order, and the counter holds exactly the number of
  the others.
\<close>

lemma buffer_keeps_newest:
  "\<exists>b. push_all batcher_push xs (batcher_new m) = Some b
    \<and> bt_buf b = drop (length xs - max m 1) xs
    \<and> bt_total_dropped b = length xs - max m 1"
proof -
  obtain b where b: "push_all batcher_push xs (batcher_new m) = Some b"
    "bt_buf b = drop (length xs - bt_max (batcher_new m :: 'a batcher)) xs"
    "bt_total_dropped b + length (bt_buf b) = length xs"
    using buffer.push_all_ok [OF batcher_new_ok, of xs m] by (auto simp: batcher_new_def)
  then show ?thesis by (auto simp: batcher_new_def)
qed

end
