(* ===== verification/Agent.thy ===== *)
theory Agent
  imports Batcher Config Ingest
begin

text \<open>
  The agent process, \<open>src/src/agent/mod.rs\<close>, with the metric totals of \<open>src/src/agent/metrics.rs\<close>: the
  API key, the connection loop, and the main loop over its \<open>select!\<close> branches. The hub is a state with
  a send function per request kind; the requests made are kept in the order of sending.
\<close>

section \<open>The API key\<close>

definition read_api_key_file :: "(path \<Rightarrow> string + string) \<Rightarrow> path \<Rightarrow> sentinel_error + string" where
  "read_api_key_file read_file p =
     and_then (map_err (\<lambda>e. ConfigError (''failed to read SENTINEL_API_KEY_FILE '' @ [CHR 0x27] @ p
         @ [CHR 0x27] @ '': '' @ e)) (read_file p)) (\<lambda>raw.
       let key = trim raw
       in if key = [] then Inl (ConfigError (''SENTINEL_API_KEY_FILE '' @ [CHR 0x27] @ p @ [CHR 0x27]
                                   @ '' is empty''))
          else Inr key)"

definition resolve_api_key ::
  "(path \<Rightarrow> string + string) \<Rightarrow> string option \<Rightarrow> agent_config \<Rightarrow> sentinel_error + string" where
  "resolve_api_key read_file var agent =
     (if ag_api_key agent \<noteq> [] then Inr (ag_api_key agent)
      else (case var of
              Some p \<Rightarrow>
                if p \<noteq> [] then read_api_key_file read_file p
                else Inl (ConfigError ''agent.api_key (or SENTINEL_API_KEY_FILE) is required in agent mode'')
            | None \<Rightarrow>
                Inl (ConfigError ''agent.api_key (or SENTINEL_API_KEY_FILE) is required in agent mode'')))"

section \<open>Connecting\<close>

definition hub_endpoint :: "string \<Rightarrow> string" where
  "hub_endpoint addr = ''http://'' @ trim_start_matches (trim_start_matches addr ''http://'') ''https://''"

text \<open>
  One round of the connection loop: was the token cancelled before the attempt, did the attempt
  succeed, and was the token cancelled during the pause after it.
\<close>

record connect_round =
  cr_cancelled :: bool
  cr_connected :: bool
  cr_cancelled_in_pause :: bool

datatype connect_result = Connected | ConnectCancelled | StillConnecting

definition next_backoff :: "nat \<Rightarrow> nat" where "next_backoff b = min (b * 2) 60"

text \<open>The result and the pauses, in seconds.\<close>

fun connect_loop :: "nat \<Rightarrow> connect_round list \<Rightarrow> connect_result \<times> nat list" where
  "connect_loop backoff [] = (StillConnecting, [])"
| "connect_loop backoff (r # rs) =
     (if cr_cancelled r then (ConnectCancelled, [])
      else if cr_connected r then (Connected, [])
      else if cr_cancelled_in_pause r then (ConnectCancelled, [backoff])
      else (case connect_loop (next_backoff backoff) rs of (x, ps) \<Rightarrow> (x, backoff # ps)))"

definition hub_connect ::
  "(string \<Rightarrow> string + unit) \<Rightarrow> agent_config \<Rightarrow> connect_round list \<Rightarrow> sentinel_error + connect_result \<times> nat list"
  where
  "hub_connect from_shared agent rs =
     and_then (map_err (\<lambda>e. ConfigError (''invalid hub_addr '' @ [CHR 0x27] @ ag_hub_addr agent @ [CHR 0x27]
         @ '': '' @ e)) (from_shared (hub_endpoint (ag_hub_addr agent)))) (\<lambda>_.
       case connect_loop 1 rs of
         (ConnectCancelled, _) \<Rightarrow> Inl (ServiceError ''cancelled during connect'')
       | x \<Rightarrow> Inr x)"

section \<open>Metrics\<close>

record disk =
  dk_mount :: string
  dk_total :: "64 word"
  dk_available :: "64 word"

definition pseudo_mount :: "string \<Rightarrow> bool" where
  "pseudo_mount m \<longleftrightarrow>
     starts_with m ''/dev'' \<or> starts_with m ''/run'' \<or> starts_with m ''/proc'' \<or> starts_with m ''/sys''
     \<or> starts_with m ''loop''"

definition saturating_sub :: "64 word \<Rightarrow> 64 word \<Rightarrow> 64 word" where
  "saturating_sub a b = (if b \<le> a then a - b else 0)"

fun disk_totals :: "disk list \<Rightarrow> 64 word \<times> 64 word \<Rightarrow> 64 word \<times> 64 word" where
  "disk_totals [] t = t"
| "disk_totals (d # ds) (used, tot) =
     (if pseudo_mount (dk_mount d) then disk_totals ds (used, tot)
      else disk_totals ds (used + saturating_sub (dk_total d) (dk_available d), tot + dk_total d))"

text \<open>What sysinfo reports at one collection.\<close>

record system_view =
  sy_now_ms :: int
  sy_cpu :: double
  sy_used_memory :: "64 word"
  sy_total_memory :: "64 word"
  sy_disks :: "disk list"
  sy_load_1m :: double
  sy_load_5m :: double
  sy_received :: "64 word list"
  sy_transmitted :: "64 word list"

definition collect :: "system_view \<Rightarrow> metric_point" where
  "collect v =
     (case disk_totals (sy_disks v) (0, 0) of (used, tot) \<Rightarrow>
        \<lparr> mp_timestamp_ms = sy_now_ms v, mp_cpu_percent = sy_cpu v,
          mp_mem_used_bytes = sy_used_memory v, mp_mem_total_bytes = sy_total_memory v,
          mp_disk_used_bytes = used, mp_disk_total_bytes = tot, mp_load_1m = sy_load_1m v,
          mp_load_5m = sy_load_5m v, mp_net_rx_bytes_total = sum_list (sy_received v),
          mp_net_tx_bytes_total = sum_list (sy_transmitted v) \<rparr>)"

section \<open>The hub as a peer\<close>

text \<open>A call on the hub: the answer (an error or nothing of interest) and the hub after it.\<close>

record 'p hub_peer =
  hp_send_metrics :: "'p \<Rightarrow> string \<Rightarrow> metric_point \<Rightarrow> (string + unit) \<times> 'p"
  hp_send_logs :: "'p \<Rightarrow> string \<Rightarrow> logs_request \<Rightarrow> (string + unit) \<times> 'p"

record 'p hub_client =
  hc_peer :: 'p
  hc_api_key :: string
  hc_metrics :: "metric_point list"
  hc_requests :: "(logs_request \<times> bool) list"

definition client_send_metrics :: "'p hub_peer \<Rightarrow> metric_point \<Rightarrow> 'p hub_client \<Rightarrow> (string + unit) \<times> 'p hub_client"
  where
  "client_send_metrics peer m c =
     (case hp_send_metrics peer (hc_peer c) (hc_api_key c) m of
        (r, p) \<Rightarrow> (r, c \<lparr> hc_peer := p, hc_metrics := hc_metrics c @ [m] \<rparr>))"

definition client_send_request ::
  "'p hub_peer \<Rightarrow> logs_request \<Rightarrow> 'p hub_client \<Rightarrow> (string + unit) \<times> 'p hub_client" where
  "client_send_request peer rq c =
     (case hp_send_logs peer (hc_peer c) (hc_api_key c) rq of
        (r, p) \<Rightarrow> (r, c \<lparr> hc_peer := p, hc_requests := hc_requests c @ [(rq, is_ok r)] \<rparr>))"

definition client_send_logs ::
  "'p hub_peer \<Rightarrow> log_line list \<Rightarrow> 'p hub_client \<Rightarrow> (string + unit) \<times> 'p hub_client" where
  "client_send_logs peer ls = client_send_request peer \<lparr> lq_lines = ls, lq_parsed_lines = [] \<rparr>"

section \<open>The main loop\<close>

definition to_log_line :: "pending_line \<Rightarrow> log_line" where
  "to_log_line p =
     \<lparr> ll_timestamp_ms = pn_timestamp_ms p, ll_container = pn_container p, ll_stream = pn_stream p,
       ll_message = pn_message p \<rparr>"

definition agent_flush ::
  "'p hub_peer \<Rightarrow> nat \<Rightarrow> 'p hub_client \<times> pending_line batcher \<Rightarrow> 'p hub_client \<times> pending_line batcher" where
  "agent_flush peer batch_size st =
     (case st of (c, b) \<Rightarrow>
       if batcher_is_empty b then (c, b)
       else (case batcher_drain batch_size b of
               (ls, b) \<Rightarrow>
                 (snd (client_send_logs peer (map to_log_line ls) c), snd (take_dropped b))))"

definition usize_max :: nat where "usize_max = 2 ^ 64 - 1"

text \<open>The final flush; \<open>in_time\<close> says whether it met its deadline (the request is then complete).\<close>

definition agent_shutdown ::
  "'p hub_peer \<Rightarrow> 'p hub_client \<times> pending_line batcher \<Rightarrow> 'p hub_client \<times> pending_line batcher" where
  "agent_shutdown peer st =
     (case agent_flush peer usize_max st of (c, b) \<Rightarrow> (c, snd (take_dropped b)))"

datatype agent_input = AgentCancelled | MetricsTick system_view | FlushTick | DockerLine pending_line
  | DockerClosed

datatype agent_phase = AgentRunning | AgentPending | AgentReturned

record 'p agent_state =
  an_phase :: agent_phase
  an_client :: "'p hub_client"
  an_batcher :: "pending_line batcher"

text \<open>
  One turn of the loop with the branch that \<open>select!\<close> takes. In the branch of a closed line channel the
  loop awaits a future that never completes, so no later turn happens.
\<close>

definition agent_step ::
  "'p hub_peer \<Rightarrow> agent_config \<Rightarrow> agent_input \<Rightarrow> 'p agent_state \<Rightarrow> 'p agent_state option" where
  "agent_step peer cfg i s =
     (let bs = ag_log_batch_size cfg
      in if an_phase s \<noteq> AgentRunning then Some s
         else case i of
           AgentCancelled \<Rightarrow>
             (case agent_shutdown peer (an_client s, an_batcher s) of
                (c, b) \<Rightarrow> Some (s \<lparr> an_phase := AgentReturned, an_client := c, an_batcher := b \<rparr>))
         | MetricsTick v \<Rightarrow>
             Some (s \<lparr> an_client := snd (client_send_metrics peer (collect v) (an_client s)) \<rparr>)
         | FlushTick \<Rightarrow>
             (case agent_flush peer bs (an_client s, an_batcher s) of
                (c, b) \<Rightarrow> Some (s \<lparr> an_client := c, an_batcher := b \<rparr>))
         | DockerClosed \<Rightarrow> Some (s \<lparr> an_phase := AgentPending \<rparr>)
         | DockerLine l \<Rightarrow>
             Option.bind (batcher_push l (an_batcher s)) (\<lambda>b.
               if bs \<le> batcher_len b
               then (case agent_flush peer bs (an_client s, b) of
                       (c, b) \<Rightarrow> Some (s \<lparr> an_client := c, an_batcher := b \<rparr>))
               else Some (s \<lparr> an_batcher := b \<rparr>)))"

fun agent_run ::
  "'p hub_peer \<Rightarrow> agent_config \<Rightarrow> agent_input list \<Rightarrow> 'p agent_state \<Rightarrow> 'p agent_state option" where
  "agent_run peer cfg [] s = Some s"
| "agent_run peer cfg (i # is) s = Option.bind (agent_step peer cfg i s) (agent_run peer cfg is)"

text \<open>\<open>run\<close> up to its loop.\<close>

definition agent_start ::
  "(path \<Rightarrow> string + string) \<Rightarrow> string option \<Rightarrow> (string \<Rightarrow> string + unit) \<Rightarrow> connect_round list \<Rightarrow> 'p \<Rightarrow> config \<Rightarrow>
   sentinel_error + 'p agent_state option" where
  "agent_start read_file var from_shared rounds p cfg =
     (let agent = cf_agent cfg
      in if \<not> ag_enabled agent
         then Inl (ConfigError ''agent mode requested but agent.enabled is false in the config'')
         else and_then (resolve_api_key read_file var agent) (\<lambda>key.
              and_then (hub_connect from_shared agent rounds) (\<lambda>x.
                Inr (if fst x = Connected
                     then Some \<lparr> an_phase = AgentRunning,
                                 an_client = \<lparr> hc_peer = p, hc_api_key = key, hc_metrics = [], hc_requests = [] \<rparr>,
                                 an_batcher = batcher_new (ag_log_buffer_max agent) \<rparr>
                     else None))))"

section \<open>Facts\<close>

lemma connect_loop_pauses:
  "snd (connect_loop b rs) = map (\<lambda>i. (next_backoff ^^ i) b) [0..<length (snd (connect_loop b rs))]"
proof (induction rs arbitrary: b)
  case (Cons r rs)
  show ?case
  proof (cases "cr_cancelled r \<or> cr_connected r \<or> cr_cancelled_in_pause r")
    case True
    then show ?thesis by auto
  next
    case False
    obtain x ps where c: "connect_loop (next_backoff b) rs = (x, ps)" by force
    from Cons [of "next_backoff b"] c
    have "ps = map (\<lambda>i. (next_backoff ^^ i) (next_backoff b)) [0..<length ps]" by simp
    also have "\<dots> = map (\<lambda>i. (next_backoff ^^ i) b) (map Suc [0..<length ps])"
      by (simp add: funpow_swap1)
    finally show ?thesis using False c by (simp add: map_Suc_upt upt_conv_Cons del: upt_Suc)
  qed
qed simp

lemma pause_value: "(next_backoff ^^ i) 1 = min (2 ^ i) 60"
  by (induction i) (auto simp: min_def next_backoff_def)

text \<open>The lines the loop takes from the channel before it stops turning.\<close>

fun taken_docker :: "agent_input list \<Rightarrow> pending_line list" where
  "taken_docker [] = []"
| "taken_docker (DockerLine l # is) = l # taken_docker is"
| "taken_docker (AgentCancelled # is) = []"
| "taken_docker (DockerClosed # is) = []"
| "taken_docker (MetricsTick v # is) = taken_docker is"
| "taken_docker (FlushTick # is) = taken_docker is"

definition sent_lines :: "'p hub_client \<Rightarrow> log_line list" where
  "sent_lines c = concat (map (\<lambda>(rq, _). lq_lines rq) (hc_requests c))"

lemma send_logs_sent [simp]:
  "sent_lines (snd (client_send_logs peer ls c)) = sent_lines c @ ls"
  "sent_lines (snd (client_send_metrics peer m c)) = sent_lines c"
  by (simp_all add: sent_lines_def client_send_logs_def client_send_request_def client_send_metrics_def
      case_prod_beta)

lemma flush_lines:
  assumes "agent_flush peer n (c, b) = (c', b')"
  shows "sent_lines c' @ map to_log_line (bt_buf b') = sent_lines c @ map to_log_line (bt_buf b)"
    "bt_buf b' = drop n (bt_buf b)" "bt_max b' = bt_max b" "bt_total_dropped b' = bt_total_dropped b"
    "batcher_ok b \<Longrightarrow> batcher_ok b'"
proof -
  have drop: "drop (min (length (bt_buf b)) n) (bt_buf b) = drop n (bt_buf b)"
    "take (min (length (bt_buf b)) n) (bt_buf b) = take n (bt_buf b)" by (simp_all add: min_def)
  have app: "map to_log_line (take n xs) @ map to_log_line (drop n xs) = map to_log_line xs" for xs
    by (metis append_take_drop_id map_append)
  show "sent_lines c' @ map to_log_line (bt_buf b') = sent_lines c @ map to_log_line (bt_buf b)"
    "bt_buf b' = drop n (bt_buf b)" "bt_max b' = bt_max b" "bt_total_dropped b' = bt_total_dropped b"
    "batcher_ok b \<Longrightarrow> batcher_ok b'"
    using assms drop app
    by (auto simp: agent_flush_def batcher_drain_def take_dropped_def batcher_is_empty_def Let_def
        batcher_ok_def min.commute split: if_splits)
qed

text \<open>The invariant of the loop, for the lines taken so far.\<close>

definition agent_inv :: "nat \<Rightarrow> nat \<Rightarrow> pending_line list \<Rightarrow> 'p agent_state \<Rightarrow> bool" where
  "agent_inv bs m ls s \<longleftrightarrow>
     batcher_ok (an_batcher s) \<and> bt_max (an_batcher s) = m \<and> bt_total_dropped (an_batcher s) = 0
     \<and> length (bt_buf (an_batcher s)) < bs
     \<and> sent_lines (an_client s) @ map to_log_line (bt_buf (an_batcher s)) = map to_log_line ls"

lemma agent_line_inv:
  assumes "agent_inv bs m ls s" "an_phase s = AgentRunning" "ag_log_batch_size cfg = bs" "1 \<le> bs" "bs \<le> m"
  shows "\<exists>s'. agent_step peer cfg (DockerLine l) s = Some s' \<and> an_phase s' = AgentRunning
    \<and> agent_inv bs m (ls @ [l]) s'"
proof -
  note inv = assms(1) [unfolded agent_inv_def]
  then have room: "length (bt_buf (an_batcher s)) < bt_max (an_batcher s)" using assms(5) by linarith
  let ?b = "(an_batcher s) \<lparr> bt_buf := bt_buf (an_batcher s) @ [l] \<rparr>"
  have p: "batcher_push l (an_batcher s) = Some ?b" by (simp add: batcher_push_def evict_room [OF room])
  have ok: "batcher_ok ?b" using inv room by (simp add: batcher_ok_def)
  have app: "sent_lines (an_client s) @ map to_log_line (bt_buf ?b) = map to_log_line (ls @ [l])"
    using inv by simp
  show ?thesis
  proof (cases "bs \<le> length (bt_buf ?b)")
    case True
    obtain c' b' where f: "agent_flush peer bs (an_client s, ?b) = (c', b')" by force
    have "length (bt_buf ?b) = bs" using True inv by simp
    with flush_lines [OF f] inv ok app assms(4) have
      "agent_inv bs m (ls @ [l]) (s \<lparr> an_client := c', an_batcher := b' \<rparr>)"
      by (simp add: agent_inv_def)
    with p f True assms(2,3) show ?thesis by (simp add: agent_step_def Let_def batcher_len_def)
  next
    case False
    with p ok inv app assms(2,3) show ?thesis
      by (simp add: agent_step_def Let_def batcher_len_def agent_inv_def)
  qed
qed

lemma agent_tick_inv:
  assumes "agent_inv bs m ls s" "an_phase s = AgentRunning" "i = FlushTick \<or> (\<exists>v. i = MetricsTick v)"
  shows "\<exists>s'. agent_step peer cfg i s = Some s' \<and> an_phase s' = AgentRunning \<and> agent_inv bs m ls s'"
proof -
  obtain c' b' where f: "agent_flush peer (ag_log_batch_size cfg) (an_client s, an_batcher s) = (c', b')"
    by force
  note inv = assms(1) [unfolded agent_inv_def]
  have "length (bt_buf b') \<le> length (bt_buf (an_batcher s))" using flush_lines(2) [OF f] by simp
  then have "length (bt_buf b') < bs" using inv by linarith
  with assms flush_lines [OF f] f show ?thesis
    by (auto simp: agent_step_def agent_inv_def)
qed

lemma agent_stuck: "an_phase s \<noteq> AgentRunning \<Longrightarrow> agent_run peer cfg is s = Some s"
  by (induction "is") (simp_all add: agent_step_def)

lemma agent_run_inv:
  assumes "ag_log_batch_size cfg = bs" "1 \<le> bs" "bs \<le> m"
  shows "agent_inv bs m ls s \<Longrightarrow> an_phase s = AgentRunning \<Longrightarrow>
    \<exists>s'. agent_run peer cfg is s = Some s' \<and> agent_inv bs m (ls @ taken_docker is) s'"
proof (induction "is" arbitrary: s ls)
  case (Cons i "is")
  show ?case
  proof (cases i)
    case AgentCancelled
    obtain c' b' where f: "agent_flush peer usize_max (an_client s, an_batcher s) = (c', b')" by force
    note inv = Cons.prems(1) [unfolded agent_inv_def]
    have "length (bt_buf b') \<le> length (bt_buf (an_batcher s))" using flush_lines(2) [OF f] by simp
    then have "length (bt_buf b') < bs" using inv by linarith
    then have "agent_inv bs m ls (s \<lparr> an_phase := AgentReturned, an_client := c', an_batcher := snd (take_dropped b') \<rparr>)"
      using flush_lines(1,3,4,5) [OF f] inv by (simp add: agent_inv_def take_dropped_def batcher_ok_def)
    with f Cons.prems(2) AgentCancelled show ?thesis
      by (simp add: agent_step_def agent_shutdown_def agent_stuck del: power_numeral)
  next
    case DockerClosed
    have "agent_inv bs m ls (s \<lparr> an_phase := AgentPending \<rparr>)"
      using Cons.prems(1) by (simp add: agent_inv_def)
    with Cons.prems(2) DockerClosed show ?thesis by (simp add: agent_step_def agent_stuck)
  next
    case (DockerLine l)
    with agent_line_inv [OF Cons.prems assms(1,2,3), of peer l] Cons.IH show ?thesis by fastforce
  next
    case (MetricsTick v)
    with agent_tick_inv [OF Cons.prems, of i peer cfg] Cons.IH show ?thesis by fastforce
  next
    case FlushTick
    with agent_tick_inv [OF Cons.prems, of i peer cfg] Cons.IH show ?thesis by fastforce
  qed
qed simp

lemma agent_run_append:
  "agent_run peer cfg (as @ bs) s = Option.bind (agent_run peer cfg as s) (agent_run peer cfg bs)"
  by (induction as arbitrary: s) (simp_all add: bind_split)

lemma agent_start_Inr:
  "agent_start read_file var from_shared rounds p cfg = Inr (Some s) \<Longrightarrow>
   an_phase s = AgentRunning \<and> hc_requests (an_client s) = [] \<and> hc_metrics (an_client s) = []
   \<and> an_batcher s = batcher_new (ag_log_buffer_max (cf_agent cfg))"
  by (auto simp: agent_start_def Let_def shape_simps split: if_splits)

section \<open>Properties\<close>

text \<open>
  Docker lines are sent once, in order. With a batch size between 1 and the buffer size, whatever
  the hub answers, the lines taken off the channel are exactly the lines of the requests made so far
  followed by the buffered ones; fewer than a batch are ever buffered and none is counted as dropped.
  So lines do not accumulate while the hub is unreachable: a request that fails has used its lines up.
\<close>

lemma docker_lines_sent_once:
  assumes "agent_start read_file var from_shared rounds p cfg = Inr (Some s)"
    and "1 \<le> ag_log_batch_size (cf_agent cfg)"
    and "ag_log_batch_size (cf_agent cfg) \<le> ag_log_buffer_max (cf_agent cfg)"
  shows "\<exists>s'. agent_run peer (cf_agent cfg) is s = Some s'
    \<and> sent_lines (an_client s') @ map to_log_line (bt_buf (an_batcher s')) = map to_log_line (taken_docker is)
    \<and> length (bt_buf (an_batcher s')) < ag_log_batch_size (cf_agent cfg)
    \<and> bt_total_dropped (an_batcher s') = 0"
proof -
  note s = agent_start_Inr [OF assms(1)]
  have "agent_inv (ag_log_batch_size (cf_agent cfg)) (max (ag_log_buffer_max (cf_agent cfg)) 1) [] s"
    using s assms(2) by (simp add: agent_inv_def batcher_new_ok sent_lines_def) (simp add: batcher_new_def)
  moreover have "ag_log_batch_size (cf_agent cfg) \<le> max (ag_log_buffer_max (cf_agent cfg)) 1"
    using assms(3) by simp
  moreover have "an_phase s = AgentRunning" using s by blast
  ultimately show ?thesis
    using agent_run_inv [OF refl assms(2), of "max (ag_log_buffer_max (cf_agent cfg)) 1" "[]" s peer "is"]
    by (auto simp: agent_inv_def)
qed

definition sample_agent_config :: config where
  "sample_agent_config = default_config \<lparr> cf_agent := default_agent \<lparr> ag_enabled := True,
     ag_api_key := ''k'', ag_log_batch_size := 2, ag_log_buffer_max := 10 \<rparr> \<rparr>"

definition failing_hub :: "unit hub_peer" where
  "failing_hub = \<lparr> hp_send_metrics = (\<lambda>p _ _. (Inl ''down'', p)), hp_send_logs = (\<lambda>p _ _. (Inl ''down'', p)) \<rparr>"

definition sample_line :: "string \<Rightarrow> pending_line" where
  "sample_line m = \<lparr> pn_timestamp_ms = 0, pn_container = ''app'', pn_stream = ''stdout'', pn_message = m \<rparr>"

lemma sample_agent_start:
  "\<exists>s. agent_start (\<lambda>_. Inl ''no file'') None (\<lambda>_. Inr ()) [\<lparr> cr_cancelled = False, cr_connected = True,
     cr_cancelled_in_pause = False \<rparr>] () sample_agent_config = Inr (Some s) \<and> an_phase s = AgentRunning"
  by (simp add: agent_start_def sample_agent_config_def resolve_api_key_def hub_connect_def)

lemma docker_lines_sent_once_witness:
  "\<exists>s s'. agent_run failing_hub (cf_agent sample_agent_config)
       [DockerLine (sample_line ''a''), DockerLine (sample_line ''b''), DockerLine (sample_line ''c'')] s = Some s'
     \<and> sent_lines (an_client s') @ map to_log_line (bt_buf (an_batcher s')) =
         map to_log_line [sample_line ''a'', sample_line ''b'', sample_line ''c'']
     \<and> bt_total_dropped (an_batcher s') = 0"
proof -
  obtain s where "agent_start (\<lambda>_. Inl ''no file'') None (\<lambda>_. Inr ()) [\<lparr> cr_cancelled = False,
    cr_connected = True, cr_cancelled_in_pause = False \<rparr>] () sample_agent_config = Inr (Some s)"
    using sample_agent_start by blast
  from docker_lines_sent_once [OF this, of failing_hub "[DockerLine (sample_line ''a''),
      DockerLine (sample_line ''b''), DockerLine (sample_line ''c'')]"]
  show ?thesis by (auto simp: sample_agent_config_def)
qed

text \<open>
  When the channel of Docker lines closes the agent stops for good: it sends no metric and no log
  line any more, does not flush what it has buffered, and does not react to its cancellation.
\<close>

lemma closed_docker_channel_wedges_agent:
  assumes "agent_run peer cfg before s = Some s0" "an_phase s0 = AgentRunning"
  shows "agent_run peer cfg (before @ DockerClosed # after) s = Some (s0 \<lparr> an_phase := AgentPending \<rparr>)"
  using assms by (simp add: agent_run_append agent_step_def agent_stuck)

lemma closed_docker_channel_wedges_agent_witness:
  "\<exists>s. agent_run failing_hub (cf_agent sample_agent_config) [DockerClosed, FlushTick, AgentCancelled] s
     = Some (s \<lparr> an_phase := AgentPending \<rparr>)"
proof -
  obtain s :: "unit agent_state" where "an_phase s = AgentRunning" using sample_agent_start by blast
  with closed_docker_channel_wedges_agent [of failing_hub "cf_agent sample_agent_config" "[]" s s
      "[FlushTick, AgentCancelled]"]
  show ?thesis by auto
qed

text \<open>
  The pauses between connection attempts are 1, 2, 4, 8, 16, 32 and then 60 seconds for ever; and
  whatever address is configured, the agent connects over plain \<open>http\<close>, also to an \<open>https://\<close> address.
\<close>

lemma connect_backoff:
  "snd (connect_loop 1 rs) = map (\<lambda>i. min (2 ^ i) 60) [0..<length (snd (connect_loop 1 rs))]
   \<and> starts_with (hub_endpoint addr) ''http://''
   \<and> hub_endpoint (''https://'' @ host) = ''http://'' @ trim_start_matches host ''https://''"
proof -
  have "trim_start_matches (''https://'' @ host) ''http://'' = ''https://'' @ host"
    by (subst trim_start_matches.simps) (simp add: starts_with_def)
  moreover have "trim_start_matches (''https://'' @ host) ''https://'' = trim_start_matches host ''https://''"
    by (subst trim_start_matches.simps) (simp add: starts_with_def)
  ultimately show ?thesis
    using connect_loop_pauses [of 1 rs] pause_value by (simp add: hub_endpoint_def starts_with_def)
qed

end
