(* ===== verification/Scanner.thy ===== *)
theory Scanner
  imports Pipeline LogRepo
begin

text \<open>
  The scanner, \<open>src/src/log_scanner/scanner.rs\<close>: the loop that batches processed lines and flushes
  them to a sink. Every turn of the loop polls the channel, the cancel token and the timer; a
  \<open>poll_view\<close> says which of them are ready. The sink is an interface (locale \<open>log_sink\<close>), interpreted
  on the repository here and on the agent's gRPC sink where that is modelled.
\<close>

section \<open>Sinks\<close>

text \<open>
  The sink sees the state of the resolver, which it may share with the pipeline (the agent's does, to
  look up what an id stands for).
\<close>

type_synonym ('s, 'k) sink = "'s \<Rightarrow> 'k \<Rightarrow> insert_log_entry list \<Rightarrow> (sentinel_error + nat) \<times> 'k"

definition batch_size_default :: nat where "batch_size_default = 100"
definition batch_interval_secs :: nat where "batch_interval_secs = 1"

section \<open>The loop\<close>

record poll_view =
  pv_event :: "(sentinel_error + tail_line) option"
  pv_cancelled :: bool
  pv_tick :: bool

datatype selected = SelEvent "sentinel_error + tail_line" | SelCancelled | SelTick | SelPending

text \<open>
  \<open>select!\<close> with \<open>biased\<close>: events first, then cancellation, then the timer. A closed channel yields
  \<open>None\<close>, which disables the first branch.
\<close>

definition select :: "bool \<Rightarrow> poll_view \<Rightarrow> selected" where
  "select timer v =
     (case pv_event v of
        Some e \<Rightarrow> SelEvent e
      | None \<Rightarrow> if pv_cancelled v then SelCancelled
                else if timer \<and> pv_tick v then SelTick else SelPending)"

definition flush_batch :: "('s, 'k) sink \<Rightarrow> 's \<Rightarrow> insert_log_entry list \<Rightarrow> 'k \<Rightarrow> insert_log_entry list \<times> 'k" where
  "flush_batch sink s batch k =
     (if batch = [] then (batch, k)
      else (case sink s k batch of (Inr _, k') \<Rightarrow> ([], k') | (Inl _, k') \<Rightarrow> (batch, k')))"

record ('s, 'k) scan_state =
  sc_batch :: "insert_log_entry list"
  sc_resolver :: 's
  sc_sink :: 'k

record 's scan_config =
  cg_env :: parse_env
  cg_filter :: noise_filter
  cg_resolve :: "'s resolver"
  cg_batch_size :: nat
  cg_timer :: bool

definition scanner_flush :: "('s, 'k) sink \<Rightarrow> ('s, 'k) scan_state \<Rightarrow> ('s, 'k) scan_state" where
  "scanner_flush sink st =
     (case flush_batch sink (sc_resolver st) (sc_batch st) (sc_sink st) of
        (b, k) \<Rightarrow> st \<lparr> sc_batch := b, sc_sink := k \<rparr>)"

definition process_event ::
  "'s scan_config \<Rightarrow> sentinel_error + tail_line \<Rightarrow> ('s, 'k) scan_state \<Rightarrow> ('s, 'k) scan_state" where
  "process_event cg e st =
     (case e of
        Inl _ \<Rightarrow> st
      | Inr line \<Rightarrow>
          (case process_with (cg_env cg) (default_parser (cg_env cg) (tl_file_path line)) (cg_filter cg)
                  (cg_resolve cg) line (sc_resolver st) of
             (r, s') \<Rightarrow>
               st \<lparr> sc_batch := sc_batch st @ (case row_of r of Some x \<Rightarrow> [x] | None \<Rightarrow> []),
                    sc_resolver := s' \<rparr>))"

definition scan_event ::
  "'s scan_config \<Rightarrow> ('s, 'k) sink \<Rightarrow> sentinel_error + tail_line \<Rightarrow> ('s, 'k) scan_state \<Rightarrow> ('s, 'k) scan_state"
  where
  "scan_event cg sink e st =
     (let st' = process_event cg e st
      in if cg_batch_size cg \<le> length (sc_batch st') then scanner_flush sink st' else st')"

text \<open>\<open>run\<close> over the views it gets to see; the flag says that it has returned (\<open>Ok(())\<close>).\<close>

fun scan_run ::
  "'s scan_config \<Rightarrow> ('s, 'k) sink \<Rightarrow> poll_view list \<Rightarrow> ('s, 'k) scan_state \<Rightarrow> bool \<times> ('s, 'k) scan_state" where
  "scan_run cg sink [] st = (False, st)"
| "scan_run cg sink (v # vs) st =
     (case select (cg_timer cg) v of
        SelEvent e \<Rightarrow> scan_run cg sink vs (scan_event cg sink e st)
      | SelCancelled \<Rightarrow> (True, scanner_flush sink st)
      | SelTick \<Rightarrow> scan_run cg sink vs (scanner_flush sink st)
      | SelPending \<Rightarrow> scan_run cg sink vs st)"

section \<open>Rows of a run\<close>

text \<open>The lines taken off the channel until the loop returns.\<close>

fun taken_lines :: "bool \<Rightarrow> poll_view list \<Rightarrow> tail_line list" where
  "taken_lines timer [] = []"
| "taken_lines timer (v # vs) =
     (case select timer v of
        SelEvent (Inr l) \<Rightarrow> l # taken_lines timer vs
      | SelCancelled \<Rightarrow> []
      | _ \<Rightarrow> taken_lines timer vs)"

definition rows_of_lines :: "'s scan_config \<Rightarrow> tail_line list \<Rightarrow> 's \<Rightarrow> insert_log_entry list" where
  "rows_of_lines cg ls s =
     List.map_filter row_of (fst (process_lines (cg_env cg) (cg_filter cg) (cg_resolve cg) ls s))"

lemma rows_of_lines_Nil [simp]: "rows_of_lines cg [] s = []"
  by (simp add: rows_of_lines_def map_filter_def)

lemma rows_of_lines_Cons:
  "rows_of_lines cg (l # ls) s =
     (let (r, s') = process_with (cg_env cg) (default_parser (cg_env cg) (tl_file_path l))
                      (cg_filter cg) (cg_resolve cg) l s
      in (case row_of r of Some x \<Rightarrow> [x] | None \<Rightarrow> []) @ rows_of_lines cg ls s')"
  by (simp add: rows_of_lines_def process_lines_Cons map_filter_simps Let_def case_prod_beta
      del: process_lines.simps split: option.split)

lemma process_event_batch:
  "sc_batch (process_event cg (Inr l) st) @ rows_of_lines cg ls (sc_resolver (process_event cg (Inr l) st))
     = sc_batch st @ rows_of_lines cg (l # ls) (sc_resolver st)"
  by (simp add: process_event_def rows_of_lines_Cons Let_def case_prod_beta)

lemma process_event_sel [simp]:
  "sc_sink (process_event cg e st) = sc_sink st"
  "process_event cg (Inl err) st = st"
  by (simp_all add: process_event_def case_prod_beta split: sum.splits)

lemma scanner_flush_sel [simp]:
  "sc_resolver (scanner_flush sink st) = sc_resolver st"
  by (simp add: scanner_flush_def case_prod_beta)

lemma scan_event_resolver [simp]:
  "sc_resolver (scan_event cg sink e st) = sc_resolver (process_event cg e st)"
  by (simp add: scan_event_def Let_def)

text \<open>
  What the scanner relies on: a successful insert takes over exactly the entries it was given, a
  failed one takes over none. \<open>taken\<close> is the sequence of entries the sink has accepted.
\<close>

locale log_sink =
  fixes sink :: "'s \<Rightarrow> 'k \<Rightarrow> insert_log_entry list \<Rightarrow> (sentinel_error + nat) \<times> 'k"
    and taken :: "'k \<Rightarrow> insert_log_entry list"
  assumes sink_ok: "sink s k es = (Inr n, k') \<Longrightarrow> taken k' = taken k @ es"
    and sink_err: "sink s k es = (Inl e, k') \<Longrightarrow> taken k' = taken k"
begin

text \<open>Nothing is lost, duplicated or reordered: accepted entries, then the pending batch.\<close>

lemma flush_conserves:
  "taken (sc_sink (scanner_flush sink st)) @ sc_batch (scanner_flush sink st) =
     taken (sc_sink st) @ sc_batch st"
  by (auto simp: scanner_flush_def flush_batch_def split: prod.splits sum.splits
      dest: sink_ok sink_err)

lemma scan_event_conserves:
  "taken (sc_sink (scan_event cg sink e st)) @ sc_batch (scan_event cg sink e st) =
     taken (sc_sink st) @ sc_batch (process_event cg e st)"
  by (simp add: scan_event_def Let_def flush_conserves)

lemma run_conserves:
  assumes "scan_run cg sink vs st = (d, st')"
  shows "taken (sc_sink st') @ sc_batch st' =
    taken (sc_sink st) @ sc_batch st @ rows_of_lines cg (taken_lines (cg_timer cg) vs) (sc_resolver st)"
  using assms
proof (induction vs arbitrary: st)
  case (Cons v vs)
  show ?case
  proof (cases "select (cg_timer cg) v")
    case (SelEvent e)
    let ?st = "scan_event cg sink e st"
    from Cons SelEvent have ih: "taken (sc_sink st') @ sc_batch st' = taken (sc_sink ?st) @ sc_batch ?st
        @ rows_of_lines cg (taken_lines (cg_timer cg) vs) (sc_resolver ?st)"
      by simp
    have keep: "taken (sc_sink ?st) @ sc_batch ?st = taken (sc_sink st) @ sc_batch (process_event cg e st)"
      by (rule scan_event_conserves)
    show ?thesis
    proof (cases e)
      case (Inl err)
      with ih keep SelEvent show ?thesis by simp
    next
      case (Inr l)
      let ?ls = "taken_lines (cg_timer cg) vs"
      have "taken (sc_sink st') @ sc_batch st' =
          (taken (sc_sink ?st) @ sc_batch ?st) @ rows_of_lines cg ?ls (sc_resolver ?st)"
        unfolding ih by simp
      also have "\<dots> = taken (sc_sink st) @ sc_batch (process_event cg (Inr l) st)
          @ rows_of_lines cg ?ls (sc_resolver (process_event cg (Inr l) st))"
        unfolding keep unfolding Inr scan_event_resolver append.assoc ..
      also have "\<dots> = taken (sc_sink st) @ sc_batch st @ rows_of_lines cg (l # ?ls) (sc_resolver st)"
        by (simp only: process_event_batch)
      finally show ?thesis using SelEvent Inr by simp
    qed
  next
    case SelCancelled
    with Cons.prems flush_conserves [of st] show ?thesis by auto
  next
    case SelTick
    with Cons.prems Cons.IH [of "scanner_flush sink st"] have
      "taken (sc_sink st') @ sc_batch st' =
        (taken (sc_sink (scanner_flush sink st)) @ sc_batch (scanner_flush sink st))
        @ rows_of_lines cg (taken_lines (cg_timer cg) vs) (sc_resolver st)"
      by simp
    with SelTick show ?thesis unfolding flush_conserves by simp
  next
    case SelPending
    with Cons show ?thesis by simp
  qed
qed simp

text \<open>A run that returns with an empty batch has handed over every row, in order, once.\<close>

lemma run_complete:
  assumes "scan_run cg sink vs st = (d, st')" "sc_batch st' = []"
  shows "taken (sc_sink st') =
    taken (sc_sink st) @ sc_batch st @ rows_of_lines cg (taken_lines (cg_timer cg) vs) (sc_resolver st)"
  using run_conserves [OF assms(1)] assms(2) by simp

end

text \<open>
  A sink that does not fail for a while: in a state that is \<open>healthy n\<close> it takes \<open>n\<close> more batches of
  at most \<open>limit\<close> entries.
\<close>

locale reliable_sink = log_sink +
  fixes healthy :: "nat \<Rightarrow> 'b \<Rightarrow> bool" and limit :: nat
  assumes healthy_ok:
      "healthy (Suc n) k \<Longrightarrow> length es \<le> limit \<Longrightarrow> \<exists>c k'. sink s k es = (Inr c, k') \<and> healthy n k'"
    and healthy_less: "healthy (Suc n) k \<Longrightarrow> healthy n k"
begin

lemma flush_empties:
  assumes "healthy (Suc n) (sc_sink st)" "length (sc_batch st) \<le> limit"
  shows "sc_batch (scanner_flush sink st) = [] \<and> healthy n (sc_sink (scanner_flush sink st))"
  using healthy_ok [OF assms, of "sc_resolver st"] healthy_less [OF assms(1)]
  by (auto simp: scanner_flush_def flush_batch_def split: prod.splits sum.splits)

lemma length_process_event: "length (sc_batch (process_event cg e st)) \<le> Suc (length (sc_batch st))"
  by (auto simp: process_event_def case_prod_beta split: sum.splits option.splits)

lemma scan_event_healthy:
  assumes "healthy (Suc n) (sc_sink st)" "length (sc_batch st) < cg_batch_size cg" "cg_batch_size cg \<le> limit"
  shows "healthy n (sc_sink (scan_event cg sink e st))"
    "length (sc_batch (scan_event cg sink e st)) < cg_batch_size cg"
  using flush_empties [of n "process_event cg e st"] healthy_less [OF assms(1)] assms
    length_process_event [of cg e st]
  by (auto simp: scan_event_def Let_def)

text \<open>With such a sink the pending batch stays below the batch size, and a stop leaves none.\<close>

lemma run_bounded:
  assumes "cg_batch_size cg \<le> limit" "healthy (length vs) (sc_sink st)"
    and "length (sc_batch st) < cg_batch_size cg" "scan_run cg sink vs st = (d, st')"
  shows "length (sc_batch st') < cg_batch_size cg \<and> (d \<longrightarrow> sc_batch st' = [])"
  using assms(2-)
proof (induction vs arbitrary: st)
  case (Cons v vs)
  then have h: "healthy (Suc (length vs)) (sc_sink st)" by simp
  note fl = flush_empties [OF h]
  have le: "length (sc_batch st) \<le> limit" using Cons.prems(2) assms(1) by simp
  show ?case
  proof (cases "select (cg_timer cg) v")
    case (SelEvent e)
    with Cons.prems(3) have "scan_run cg sink vs (scan_event cg sink e st) = (d, st')" by simp
    with scan_event_healthy [OF h Cons.prems(2) assms(1)] show ?thesis by (rule Cons.IH)
  next
    case SelCancelled
    with Cons.prems fl le show ?thesis by auto
  next
    case SelTick
    with Cons.IH [of "scanner_flush sink st"] Cons.prems fl le show ?thesis by simp
  next
    case SelPending
    with Cons healthy_less [OF h] show ?thesis by simp
  qed
qed simp

text \<open>What holds of the state at the start, and is kept by every line taken and every successful flush, holds at the end.\<close>

lemma run_invariant:
  assumes "cg_batch_size cg \<le> limit" "healthy (length vs) (sc_sink st)"
    and "length (sc_batch st) < cg_batch_size cg" "scan_run cg sink vs st = (d, st')"
    and line: "\<And>l st. P l \<Longrightarrow> I st \<Longrightarrow> I (process_event cg (Inr l) st)"
    and flush: "\<And>n st. I st \<Longrightarrow> healthy (Suc n) (sc_sink st) \<Longrightarrow> length (sc_batch st) \<le> limit
      \<Longrightarrow> I (scanner_flush sink st)"
    and "list_all P (taken_lines (cg_timer cg) vs)" "I st"
  shows "I st'"
  using assms(2-4,7,8)
proof (induction vs arbitrary: st)
  case (Cons v vs)
  then have h: "healthy (Suc (length vs)) (sc_sink st)" by simp
  note fl = flush_empties [OF h]
  have le: "length (sc_batch st) \<le> limit" using Cons.prems(2) assms(1) by simp
  show ?case
  proof (cases "select (cg_timer cg) v")
    case (SelEvent e)
    have "I (process_event cg e st)"
      using Cons.prems(4,5) SelEvent line by (cases e) simp_all
    moreover have "length (sc_batch (process_event cg e st)) \<le> limit"
      using length_process_event [of cg e st] Cons.prems(2) assms(1) by simp
    ultimately have "I (scan_event cg sink e st)" using flush h by (simp add: scan_event_def Let_def)
    moreover have "list_all P (taken_lines (cg_timer cg) vs)"
      using Cons.prems(4) SelEvent by (cases e) simp_all
    ultimately show ?thesis
      using Cons.IH [OF scan_event_healthy [OF h Cons.prems(2) assms(1)]] Cons.prems(3) SelEvent by simp
  next
    case SelCancelled
    with Cons.prems flush [OF Cons.prems(5) h le] show ?thesis by simp
  next
    case SelTick
    with Cons.IH [of "scanner_flush sink st"] Cons.prems fl le flush [OF Cons.prems(5) h le] show ?thesis by simp
  next
    case SelPending
    with Cons healthy_less [OF h] show ?thesis by simp
  qed
qed simp

end

section \<open>The repository sink\<close>

definition repository_sink :: "('s, log_db) sink" where
  "repository_sink _ db es = insert_batch db es"

interpretation repo_sink: log_sink repository_sink stored_entries
proof unfold_locales
  show "repository_sink s k es = (Inr n, k') \<Longrightarrow> stored_entries k' = stored_entries k @ es"
    for s k es n k'
    unfolding repository_sink_def by (drule insert_batch_Inr) simp
  show "repository_sink s k es = (Inl e, k') \<Longrightarrow> stored_entries k' = stored_entries k" for s k es e k'
    unfolding repository_sink_def by (drule insert_batch_Inl) (simp add: stored_entries_def)
qed

text \<open>
  A database that answers its next \<open>n\<close> queries, accepts rows and bind parameters of up to \<open>m\<close> entries
  and hands out fresh ids is a sink that does not fail for \<open>n\<close> batches of up to \<open>m\<close> entries.
\<close>

definition db_healthy :: "nat \<Rightarrow> nat \<Rightarrow> log_db \<Rightarrow> bool" where
  "db_healthy m n db \<longleftrightarrow>
     (\<forall>t. pg_clock db \<le> t \<and> t < pg_clock db + n \<longrightarrow> pg_up db t)
     \<and> (\<forall>b\<le>14 * m. ld_binds_ok db b) \<and> (\<forall>e. ld_row_ok db e)
     \<and> inj_on (\<lambda>(t, i). ld_row_uuid db t i) ({..<pg_clock db + n} \<times> {..<m})
     \<and> distinct (map lr_id (ld_rows db))
     \<and> (\<forall>r\<in>set (ld_rows db). \<exists>t<pg_clock db. \<exists>i<m. lr_id r = ld_row_uuid db t i)"

lemma ids_new_rows: "map lr_id (new_rows db es) = map (ld_row_uuid db (pg_clock db)) [0..<length es]"
proof -
  have "map lr_id (new_rows db es) = map (ld_row_uuid db (pg_clock db)) (map fst (zip [0..<length es] es))"
    unfolding new_rows_def map_map by (rule map_cong [OF refl]) (simp add: case_prod_beta)
  then show ?thesis by simp
qed

lemma healthy_row_uuid:
  assumes "db_healthy m (Suc n) db" "t \<le> pg_clock db" "i < m" "t' \<le> pg_clock db" "i' < m"
    and "ld_row_uuid db t i = ld_row_uuid db t' i'"
  shows "t = t' \<and> i = i'"
proof -
  have "inj_on (\<lambda>(t, i). ld_row_uuid db t i) ({..<pg_clock db + Suc n} \<times> {..<m})"
    using assms(1) unfolding db_healthy_def by blast
  from inj_onD [OF this, of "(t, i)" "(t', i')"] assms(2-) show ?thesis by simp
qed

lemma db_healthy_less: "db_healthy m (Suc n) db \<Longrightarrow> db_healthy m n db"
  unfolding db_healthy_def by (auto intro: inj_on_subset)

lemma distinct_new_rows:
  assumes "db_healthy m (Suc n) db" "length es \<le> m"
  shows "distinct (map lr_id (ld_rows db @ new_rows db es))"
proof -
  have "distinct (map lr_id (new_rows db es))"
    unfolding ids_new_rows distinct_map
    using healthy_row_uuid [OF assms(1), of "pg_clock db" _ "pg_clock db"] assms(2)
    by (auto intro!: inj_onI)
  moreover have "lr_id r \<notin> set (map lr_id (new_rows db es))" if "r \<in> set (ld_rows db)" for r
  proof
    assume "lr_id r \<in> set (map lr_id (new_rows db es))"
    then obtain i where "i < length es" and e: "lr_id r = ld_row_uuid db (pg_clock db) i"
      unfolding ids_new_rows by auto
    with assms(2) have i: "i < m" by simp
    obtain t j where "t < pg_clock db" "j < m" "lr_id r = ld_row_uuid db t j"
      using assms(1) \<open>r \<in> set (ld_rows db)\<close> unfolding db_healthy_def by blast
    with i e healthy_row_uuid [OF assms(1), of t j "pg_clock db" i] show False by simp
  qed
  moreover have "distinct (map lr_id (ld_rows db))" using assms(1) by (simp add: db_healthy_def)
  ultimately show ?thesis by auto
qed

lemma healthy_insert:
  assumes "db_healthy m (Suc n) db" "length es \<le> m"
  shows "\<exists>c db'. insert_batch db es = (Inr c, db') \<and> db_healthy m n db'"
proof (cases "es = []")
  case True
  with assms db_healthy_less show ?thesis by (simp add: insert_batch_def)
next
  case False
  note d = distinct_new_rows [OF assms]
  have old: "\<exists>t<Suc (pg_clock db). \<exists>i<m. lr_id r = ld_row_uuid db t i"
    if "r \<in> set (ld_rows db @ new_rows db es)" for r
  proof (cases "r \<in> set (ld_rows db)")
    case True
    with assms(1) show ?thesis unfolding db_healthy_def by (meson less_SucI)
  next
    case False
    with that have "lr_id r \<in> set (map lr_id (new_rows db es))" by simp
    then obtain i where "i < length es" "lr_id r = ld_row_uuid db (pg_clock db) i"
      unfolding ids_new_rows by auto
    with assms(2) show ?thesis by (intro exI [where x = "pg_clock db"] exI [where x = i] conjI) auto
  qed
  let ?db = "tick (db \<lparr> ld_rows := ld_rows db @ new_rows db es \<rparr>)"
  have "ld_binds_ok db (batch_binds es)" "list_all (ld_row_ok db) es" "pg_up db (pg_clock db)"
    using assms by (simp_all add: db_healthy_def batch_binds_def insert_columns_def list_all_iff)
  with False d have "insert_batch db es = (Inr (length es), ?db)"
    by (simp add: insert_batch_def run_query_def)
  moreover have "db_healthy m n ?db"
    using assms(1) d old unfolding db_healthy_def tick_def by auto
  ultimately show ?thesis by blast
qed

interpretation repo_reliable: reliable_sink repository_sink stored_entries "db_healthy m" m for m
  by unfold_locales (simp_all add: repository_sink_def healthy_insert db_healthy_less)

section \<open>Cancellation and the end of the stream\<close>

text \<open>The loop returns only through cancellation; a closed channel does not end it.\<close>

lemma run_stops_only_cancelled:
  "scan_run cg sink vs st = (True, st') \<Longrightarrow> \<exists>v\<in>set vs. pv_cancelled v \<and> pv_event v = None"
proof (induction vs arbitrary: st)
  case (Cons v vs)
  then show ?case
    by (auto simp: select_def split: option.splits if_splits)
qed simp

text \<open>Events already in the channel are taken before the token is looked at.\<close>

lemma taken_before_cancel:
  "taken_lines timer (map (\<lambda>l. \<lparr> pv_event = Some (Inr l), pv_cancelled = c, pv_tick = t \<rparr>) ls @ vs)
     = ls @ taken_lines timer vs"
  by (induction ls) (simp_all add: select_def)

section \<open>What a run stores\<close>

lemma scan_run_returns:
  "fst (scan_run cg sink vs st) = list_ex (\<lambda>v. pv_event v = None \<and> pv_cancelled v) vs"
  by (induction vs arbitrary: st) (auto simp: select_def split: option.split)


text \<open>
  The scanner stores every row once and in order. With a database that answers, a run that is
  stopped by its token has handed over exactly the rows of the lines that it took off the channel, in
  the order of the lines, and none is left in the batch.
\<close>

lemma scan_stores_every_row:
  assumes "db_healthy m (length vs) db" "0 < cg_batch_size cg" "cg_batch_size cg \<le> m"
    and "scan_run cg repository_sink vs \<lparr> sc_batch = [], sc_resolver = r, sc_sink = db \<rparr> = (True, st)"
  shows "stored_entries (sc_sink st) = stored_entries db @ rows_of_lines cg (taken_lines (cg_timer cg) vs) r
    \<and> sc_batch st = []"
  using repo_reliable.run_bounded [OF assms(3) _ _ assms(4)] repo_sink.run_complete [OF assms(4)] assms(1,2)
  by simp

definition sample_scan :: "unit scan_config" where
  "sample_scan = \<lparr> cg_env = sample_parse_env, cg_filter = noise_new, cg_resolve = (\<lambda>s _ _ _. (None, s)),
     cg_batch_size = 2, cg_timer = True \<rparr>"

definition sample_tail_line :: "string \<Rightarrow> tail_line" where
  "sample_tail_line l = \<lparr> tl_file_path = ''/v/auth.log'', tl_line = l, tl_byte_offset = 0 \<rparr>"

definition sample_views :: "poll_view list" where
  "sample_views = map (\<lambda>l. \<lparr> pv_event = Some (Inr (sample_tail_line l)), pv_cancelled = False, pv_tick = False \<rparr>)
     [''a'', ''b'', ''c''] @ [\<lparr> pv_event = None, pv_cancelled = True, pv_tick = False \<rparr>]"

lemma uuid_of_nat_inject: "a < 2 ^ 128 \<Longrightarrow> b < 2 ^ 128 \<Longrightarrow> (of_nat a :: uuid) = of_nat b \<longleftrightarrow> a = b"
  by (simp add: word_of_nat_eq_iff take_bit_nat_eq_self)

lemma sample_db_healthy_upto:
  assumes "m \<le> 1000" "n \<le> 1000"
  shows "db_healthy m n sample_log_db"
proof -
  have "t = t' \<and> i = i'"
    if h: "t < n" "i < m" "t' < n" "i' < m" and e: "(of_nat (1000 * t + i) :: uuid) = of_nat (1000 * t' + i')"
    for t i t' i' :: nat
  proof -
    have "1000 * t + i < 2 ^ 128" "1000 * t' + i' < 2 ^ 128" using h assms by simp_all
    with e have "1000 * t + i = 1000 * t' + i'" by (simp only: uuid_of_nat_inject)
    then have "(1000 * t + i) div 1000 = (1000 * t' + i') div 1000 \<and> (1000 * t + i) mod 1000 = (1000 * t' + i') mod 1000"
      by simp
    with h assms show ?thesis by simp
  qed
  then have "inj_on (\<lambda>(t, i). of_nat (1000 * t + i) :: uuid) ({..<n} \<times> {..<m})"
    unfolding inj_on_def by auto
  then show ?thesis using assms(1) by (auto simp: db_healthy_def sample_log_db_def)
qed

lemma sample_db_healthy: "db_healthy 2 4 sample_log_db"
  by (rule sample_db_healthy_upto) simp_all

lemma rows_of_lines_message:
  assumes "map_sum id (map_option pe_message)
      (lp_parse (default_parser (cg_env cg) (tl_file_path l)) (tl_line l)) = Inr (Some m)"
  shows "\<exists>s'. map le_message (rows_of_lines cg (l # ls) s) = m # map le_message (rows_of_lines cg ls s')"
proof -
  from assms obtain e where e: "lp_parse (default_parser (cg_env cg) (tl_file_path l)) (tl_line l) = Inr (Some e)"
    "pe_message e = m"
    by (auto simp: map_sum_def split: sum.splits)
  then show ?thesis
    by (auto simp: rows_of_lines_Cons process_with_def row_of_def case_prod_beta Let_def)
qed

lemma sample_row_message:
  assumes "visible c"
  shows "\<exists>s'. map le_message (rows_of_lines sample_scan
        (\<lparr> tl_file_path = ''/v/auth.log'', tl_line = [c], tl_byte_offset = n \<rparr> # ls) s)
      = (''[sshd] '' @ [c]) # map le_message (rows_of_lines sample_scan ls s')"
proof -
  have f: "file_name ''/v/auth.log'' = Some ''auth.log''" by code_simp
  show ?thesis
    by (rule rows_of_lines_message) (use sample_parse [OF f assms] in \<open>auto simp: sample_scan_def\<close>)
qed

lemma scan_stores_every_row_witness:
  "map le_message (stored_entries (sc_sink (snd (scan_run sample_scan repository_sink sample_views
     \<lparr> sc_batch = [], sc_resolver = (), sc_sink = sample_log_db \<rparr>)))) = [''[sshd] a'', ''[sshd] b'', ''[sshd] c'']"
proof -
  let ?st = "\<lparr> sc_batch = [], sc_resolver = (), sc_sink = sample_log_db \<rparr>"
  have "fst (scan_run sample_scan repository_sink sample_views ?st)"
    by (simp add: scan_run_returns sample_views_def del: scan_run.simps)
  then obtain st where st: "scan_run sample_scan repository_sink sample_views ?st = (True, st)"
    by (metis prod.collapse)
  have "db_healthy 2 (length sample_views) sample_log_db" using sample_db_healthy by (simp add: sample_views_def eval_nat_numeral)
  from scan_stores_every_row [OF this _ _ st]
  have "stored_entries (sc_sink st) = rows_of_lines sample_scan (taken_lines True sample_views) ()"
    by (simp add: sample_scan_def sample_log_db_def stored_entries_def)
  moreover have "taken_lines True sample_views = map sample_tail_line [''a'', ''b'', ''c'']"
    by (simp add: sample_views_def select_def)
  moreover have "map le_message (rows_of_lines sample_scan (map sample_tail_line [''a'', ''b'', ''c'']) ())
      = [''[sshd] a'', ''[sshd] b'', ''[sshd] c'']"
  proof -
    have "\<exists>s'. map le_message (rows_of_lines sample_scan (sample_tail_line [c] # ls) s)
        = (''[sshd] '' @ [c]) # map le_message (rows_of_lines sample_scan ls s')" if "visible c" for c ls s
      using sample_row_message [OF that] by (simp add: sample_tail_line_def)
    from this [of "CHR ''a''"] this [of "CHR ''b''"] this [of "CHR ''c''"] show ?thesis
      by (simp add: visible_def in_range_def byte_def)
  qed
  ultimately show ?thesis by (simp add: st)
qed

end
