(* ===== verification/AgentLogs.thy ===== *)
theory AgentLogs
  imports Agent Scanner
begin

text \<open>
  Host-log forwarding of the agent, \<open>src/src/agent/logs.rs\<close>: the resolver that hands out local ids and
  records what they stand for, the wire form of an entry, and the sink that sends batches to the hub.
  The hub's service of theory \<open>Ingest\<close> is made a peer, so that both ends of the wire meet here.
\<close>

section \<open>The resolver\<close>

record service_meta =
  me_name :: string
  me_unit_type :: string
  me_virtual_host :: "string option"

record agent_resolver =
  ar_by_name :: "string \<Rightarrow> uuid option"
  ar_by_id :: "uuid \<Rightarrow> service_meta option"
  ar_supply :: "nat \<Rightarrow> uuid"
  ar_next :: nat

definition agent_resolver_new :: "(nat \<Rightarrow> uuid) \<Rightarrow> agent_resolver" where
  "agent_resolver_new ids =
     \<lparr> ar_by_name = Map.empty, ar_by_id = Map.empty, ar_supply = ids, ar_next = 0 \<rparr>"

definition meta_of :: "agent_resolver \<Rightarrow> uuid \<Rightarrow> service_meta option" where
  "meta_of r u = ar_by_id r u"

definition agent_resolve :: "agent_resolver resolver" where
  "agent_resolve r name ut vh =
     (let (u, r') = (case ar_by_name r name of
                       Some u \<Rightarrow> (u, r)
                     | None \<Rightarrow>
                         (let u = ar_supply r (ar_next r)
                          in (u, r \<lparr> ar_by_name := (ar_by_name r)(name \<mapsto> u), ar_next := Suc (ar_next r) \<rparr>)))
      in (Some u, r' \<lparr> ar_by_id := (ar_by_id r')(u \<mapsto>
            \<lparr> me_name = name, me_unit_type = ut, me_virtual_host = vh \<rparr>) \<rparr>))"

interpretation agent_res: total_resolver agent_resolve ar_by_name
  by unfold_locales (auto simp: agent_resolve_def Let_def split: option.splits)

text \<open>
  As long as the ids drawn are distinct (for the first \<open>b\<close> of them), an id stands for one name: the
  table by id inverts the table by name.
\<close>

definition agent_resolver_ok :: "nat \<Rightarrow> agent_resolver \<Rightarrow> bool" where
  "agent_resolver_ok b r \<longleftrightarrow>
     inj_on (ar_supply r) {..<b} \<and> ar_next r \<le> b
     \<and> (\<forall>n u. ar_by_name r n = Some u \<longrightarrow> (\<exists>i<ar_next r. u = ar_supply r i))
     \<and> (\<forall>n u. ar_by_name r n = Some u \<longrightarrow> (\<exists>m. ar_by_id r u = Some m \<and> me_name m = n))"

lemma agent_resolver_new_ok: "inj_on ids {..<b} \<Longrightarrow> agent_resolver_ok b (agent_resolver_new ids)"
  by (simp add: agent_resolver_ok_def agent_resolver_new_def)

lemma agent_resolve_meta:
  "fst (agent_resolve r n ut vh) = Some u \<Longrightarrow>
   meta_of (snd (agent_resolve r n ut vh)) u = Some \<lparr> me_name = n, me_unit_type = ut, me_virtual_host = vh \<rparr>"
  by (auto simp: agent_resolve_def meta_of_def Let_def split: option.splits)

lemma agent_resolver_inj:
  assumes "agent_resolver_ok b r" "ar_by_name r n = Some u" "ar_by_name r m = Some u"
  shows "m = n"
proof -
  obtain x y where "ar_by_id r u = Some x" "me_name x = n" "ar_by_id r u = Some y" "me_name y = m"
    using assms unfolding agent_resolver_ok_def by blast
  then show ?thesis by simp
qed

lemma agent_resolve_ok:
  assumes "agent_resolver_ok b r" "ar_next r < b"
  shows "agent_resolver_ok b (snd (agent_resolve r n ut vh))"
proof -
  let ?m = "\<lparr> me_name = n, me_unit_type = ut, me_virtual_host = vh \<rparr>"
  note ok = assms(1) [unfolded agent_resolver_ok_def]
  show ?thesis
  proof (cases "ar_by_name r n")
    case (Some u)
    have eq: "snd (agent_resolve r n ut vh) = r \<lparr> ar_by_id := (ar_by_id r)(u \<mapsto> ?m) \<rparr>"
      using Some by (simp add: agent_resolve_def)
    have "\<exists>x. ((ar_by_id r)(u \<mapsto> ?m)) v = Some x \<and> me_name x = m" if "ar_by_name r m = Some v" for m v
      using ok that agent_resolver_inj [OF assms(1) Some] by (cases "v = u") auto
    with ok show ?thesis unfolding eq agent_resolver_ok_def by simp
  next
    case None
    let ?u = "ar_supply r (ar_next r)"
    have fresh: "ar_by_name r m \<noteq> Some ?u" for m
    proof
      assume "ar_by_name r m = Some ?u"
      then obtain i where "i < ar_next r" "?u = ar_supply r i" using ok by blast
      moreover have "ar_next r = i"
        using inj_onD [OF conjunct1 [OF ok] \<open>?u = ar_supply r i\<close>] \<open>i < ar_next r\<close> assms(2) by simp
      ultimately show False by simp
    qed
    have eq: "snd (agent_resolve r n ut vh) = r \<lparr> ar_by_name := (ar_by_name r)(n \<mapsto> ?u),
        ar_next := Suc (ar_next r), ar_by_id := (ar_by_id r)(?u \<mapsto> ?m) \<rparr>"
      using None by (simp add: agent_resolve_def Let_def)
    have meta: "\<exists>x. ((ar_by_id r)(?u \<mapsto> ?m)) v = Some x \<and> me_name x = m"
      if "((ar_by_name r)(n \<mapsto> ?u)) m = Some v" for m v
      using ok that fresh [of m] by (cases "m = n") auto
    have drawn: "\<exists>i<Suc (ar_next r). v = ar_supply r i"
      if "((ar_by_name r)(n \<mapsto> ?u)) m = Some v" for m v
    proof (cases "m = n")
      case True
      with that show ?thesis by auto
    next
      case False
      with that ok obtain i where "i < ar_next r" "v = ar_supply r i" by auto
      then show ?thesis by (auto intro: less_SucI)
    qed
    show ?thesis unfolding eq agent_resolver_ok_def using ok meta drawn assms(2) by simp
  qed
qed

section \<open>The wire form\<close>

definition entry_to_proto :: "insert_log_entry \<Rightarrow> agent_resolver \<Rightarrow> proto_entry" where
  "entry_to_proto e r =
     (let meta = Option.bind (le_service_id e) (meta_of r)
      in \<lparr> pl_timestamp_ms = timestamp_millis (le_timestamp e), pl_level = le_level e,
           pl_message = le_message e, pl_raw_line = le_raw_line e, pl_client_ip = le_client_ip e,
           pl_request_path = le_request_path e, pl_status_code = map_option ucast (le_status_code e),
           pl_response_time_ms = le_response_time_ms e, pl_is_noise = le_is_noise e,
           pl_noise_reason = le_noise_reason e, pl_threat_level = le_threat_level e,
           pl_threat_categories = le_threat_categories e,
           pl_service_name = (case meta of None \<Rightarrow> [] | Some m \<Rightarrow> me_name m),
           pl_service_unit_type = (case meta of None \<Rightarrow> [] | Some m \<Rightarrow> me_unit_type m),
           pl_virtual_host = Option.bind meta me_virtual_host \<rparr>)"

section \<open>The sink\<close>

text \<open>\<open>gk_taken\<close> is the history of entries that the sink has reported as inserted.\<close>

record 'p grpc_sink =
  gk_client :: "'p hub_client"
  gk_taken :: "insert_log_entry list"

definition grpc_insert_batch :: "'p hub_peer \<Rightarrow> (agent_resolver, 'p grpc_sink) sink" where
  "grpc_insert_batch peer r k es =
     (case client_send_request peer
             \<lparr> lq_lines = [], lq_parsed_lines = map (\<lambda>e. entry_to_proto e r) es \<rparr> (gk_client k) of
        (Inl e, c) \<Rightarrow> (Inl (ServiceError (''log forward failed: '' @ e)), k \<lparr> gk_client := c \<rparr>)
      | (Inr _, c) \<Rightarrow> (Inr (length es), k \<lparr> gk_client := c, gk_taken := gk_taken k @ es \<rparr>))"

interpretation grpc: log_sink "grpc_insert_batch peer" gk_taken for peer
  by unfold_locales (auto simp: grpc_insert_batch_def split: prod.splits sum.splits)

text \<open>\<open>build_agent_pipeline\<close> and the batching of \<open>spawn_log_forwarding\<close>.\<close>

definition agent_scan_config :: "parse_env \<Rightarrow> config \<Rightarrow> agent_resolver scan_config" where
  "agent_scan_config env cfg =
     \<lparr> cg_env = env, cg_filter = noise_from_config (cf_noise_filter cfg), cg_resolve = agent_resolve,
       cg_batch_size = max 1 (min max_lines_per_request (ag_log_batch_size (cf_agent cfg))),
       cg_timer = True \<rparr>"

section \<open>The hub as the peer\<close>

definition hub_peer ::
  "('h, 'l) hub_env \<Rightarrow> datetime \<Rightarrow> datetime \<Rightarrow> clock_readings \<Rightarrow> string option \<Rightarrow> 'l hub hub_peer" where
  "hub_peer env now now' clk remote =
     \<lparr> hp_send_metrics = (\<lambda>h key m.
         map_prod (map_sum snd (\<lambda>_. ())) id
           (send_metrics env now now' \<lparr> gr_api_key = Some key, gr_remote = remote, gr_message = Some m \<rparr> h)),
       hp_send_logs = (\<lambda>h key rq.
         map_prod (map_sum snd (\<lambda>_. ())) id
           (send_logs env clk \<lparr> gr_api_key = Some key, gr_remote = remote, gr_message = rq \<rparr> h)) \<rparr>"

section \<open>Across the wire\<close>

lemma ucast_back: "(ucast (ucast w :: 32 word) :: 16 word) = w" for w :: "16 word"
  by (rule bit_word_eqI) (simp add: bit_simps)

lemma ucast_zero: "(ucast w :: 32 word) = 0 \<longleftrightarrow> w = 0" for w :: "16 word"
  using ucast_back [of w] by (metis ucast_0)

lemma entry_to_proto_ingest:
  "pi_entry (parsed_to_ingest ts (entry_to_proto e r) host) =
     e \<lparr> le_service_id := None, le_timestamp := ts, le_message := sanitize_message (le_message e),
         le_raw_line := map_option sanitize_message (le_raw_line e),
         le_status_code := (if le_status_code e = Some 0 then None else le_status_code e),
         le_source_host := Some host \<rparr>"
  by (cases "le_status_code e")
    (simp_all add: parsed_to_ingest_def entry_to_proto_def Let_def unwrap_or_def ucast_zero ucast_back)

lemma entry_to_proto_service:
  "le_service_id e = Some u \<Longrightarrow> meta_of r u = Some m \<Longrightarrow>
   pi_service_name (parsed_to_ingest ts (entry_to_proto e r) host) = me_name m
   \<and> pi_service_unit_type (parsed_to_ingest ts (entry_to_proto e r) host) = me_unit_type m
   \<and> pi_virtual_host (parsed_to_ingest ts (entry_to_proto e r) host) = me_virtual_host m"
  by (simp add: parsed_to_ingest_def entry_to_proto_def Let_def)

lemma grpc_insert_Inr:
  "grpc_insert_batch peer r k es = (Inr n, k') \<longleftrightarrow>
     n = length es
     \<and> (\<exists>c. client_send_request peer \<lparr> lq_lines = [], lq_parsed_lines = map (\<lambda>e. entry_to_proto e r) es \<rparr>
            (gk_client k) = (Inr (), c)
         \<and> k' = k \<lparr> gk_client := c, gk_taken := gk_taken k @ es \<rparr>)"
  by (auto simp: grpc_insert_batch_def split: prod.splits sum.splits)

text \<open>What the hub does with a batch that it answers with success.\<close>

lemma send_logs_Inr:
  assumes "send_logs env clk rq s = (Inr a, s')"
  shows "\<exists>host. stored_entries (hb_logs s') = stored_entries (hb_logs s)
      @ is_entries (ingest_all (check_request (he_ms_ok env) clk host (gr_message rq)) (hb_services s))
    \<and> length (lq_lines (gr_message rq)) + length (lq_parsed_lines (gr_message rq)) \<le> 1000
    \<and> unat (ack_count a) =
        length (is_entries (ingest_all (check_request (he_ms_ok env) clk host (gr_message rq)) (hb_services s)))"
proof -
  obtain x s1 where au: "authorize env rq s = (x, s1)" by force
  with assms obtain p ag host where "x = Inr p"
    and st: "store_logs (he_ms_ok env) clk host (gr_message rq) s1 = (Inr a, s')"
    by (auto simp: send_logs_def split: sum.splits)
  have "hb_logs s1 = hb_logs s" "hb_services s1 = hb_services s" using authorize_frame [OF au] by auto
  with store_logs_Inr [OF st] show ?thesis by auto
qed

lemma hub_peer_logs:
  "hp_send_logs (hub_peer env now now' clk remote) h key rq =
     map_prod (map_sum snd (\<lambda>_. ())) id
       (send_logs env clk \<lparr> gr_api_key = Some key, gr_remote = remote, gr_message = rq \<rparr> h)"
  by (simp add: hub_peer_def)

lemma send_logs_too_many:
  assumes "max_lines_per_request < length (lq_lines (gr_message rq)) + length (lq_parsed_lines (gr_message rq))"
  shows "\<exists>e. fst (send_logs env clk rq s) = Inl e"
proof -
  obtain x s1 where au: "authorize env rq s = (x, s1)" by force
  show ?thesis
  proof (cases x)
    case (Inl e)
    with au show ?thesis by (simp add: send_logs_def)
  next
    case (Inr p)
    with au assms show ?thesis
      by (auto simp: send_logs_def store_logs_too_many split: sum.split)
  qed
qed

lemma grpc_too_many:
  assumes "max_lines_per_request < length es"
  shows "\<exists>e k'. grpc_insert_batch (hub_peer env now now' clk remote) r k es = (Inl e, k')"
proof -
  let ?rq = "\<lparr> lq_lines = [], lq_parsed_lines = map (\<lambda>e. entry_to_proto e r) es \<rparr>"
  obtain e where "fst (send_logs env clk \<lparr> gr_api_key = Some (hc_api_key (gk_client k)), gr_remote = remote,
      gr_message = ?rq \<rparr> (hc_peer (gk_client k))) = Inl e"
    using send_logs_too_many [of "\<lparr> gr_api_key = Some (hc_api_key (gk_client k)), gr_remote = remote,
      gr_message = ?rq \<rparr>" env clk "hc_peer (gk_client k)"] assms by auto
  then show ?thesis
    by (simp add: grpc_insert_batch_def client_send_request_def hub_peer_logs case_prod_beta)
qed

lemma flush_oversized:
  assumes "max_lines_per_request < length (sc_batch st)"
  shows "sc_batch (scanner_flush (grpc_insert_batch (hub_peer env now now' clk remote)) st) = sc_batch st"
    "gk_taken (sc_sink (scanner_flush (grpc_insert_batch (hub_peer env now now' clk remote)) st)) =
       gk_taken (sc_sink st)"
  using grpc.flush_conserves [of "hub_peer env now now' clk remote" st]
    grpc_too_many [OF assms, of env now now' clk remote "sc_resolver st" "sc_sink st"] assms
  by (auto simp: scanner_flush_def flush_batch_def split: prod.splits sum.splits)

lemma oversized_run:
  assumes "scan_run cg (grpc_insert_batch (hub_peer env now now' clk remote)) vs st = (d, st')"
  shows "max_lines_per_request < length (sc_batch st) \<Longrightarrow>
    gk_taken (sc_sink st') = gk_taken (sc_sink st) \<and> length (sc_batch st) \<le> length (sc_batch st')"
  using assms
proof (induction vs arbitrary: st)
  case (Cons v vs)
  let ?sink = "grpc_insert_batch (hub_peer env now now' clk remote)"
  show ?case
  proof (cases "select (cg_timer cg) v")
    case (SelEvent e)
    let ?p = "process_event cg e st"
    have grow: "length (sc_batch st) \<le> length (sc_batch ?p)"
      by (simp add: process_event_def case_prod_beta split: sum.split)
    then have big: "max_lines_per_request < length (sc_batch ?p)" using Cons.prems(1) by linarith
    have "sc_batch (scan_event cg ?sink e st) = sc_batch ?p"
      "gk_taken (sc_sink (scan_event cg ?sink e st)) = gk_taken (sc_sink st)"
      using flush_oversized [OF big, of env now now' clk remote] by (simp_all add: scan_event_def Let_def)
    with Cons.IH [of "scan_event cg ?sink e st"] Cons.prems SelEvent big grow show ?thesis by simp
  next
    case SelCancelled
    with Cons.prems flush_oversized [OF Cons.prems(1), of env now now' clk remote] show ?thesis by auto
  next
    case SelTick
    with Cons.prems Cons.IH [of "scanner_flush ?sink st"] flush_oversized [OF Cons.prems(1), of env now now' clk remote]
    show ?thesis by simp
  next
    case SelPending
    with Cons show ?thesis by simp
  qed
qed simp

lemma vocabulary_levels: "level_as_str l \<in> set levels" "threat_level_as_str t \<in> set threat_levels"
  by (cases l; simp add: levels_def) (cases t; simp add: threat_levels_def)

lemma category_token: "sized_token unit_char 64 (category_as_str c)"
  by (cases c) (simp_all add: sized_token_def unit_char_def is_ascii_lowercase_def is_ascii_digit_def
      in_range_def byte_def)

lemma status_widened:
  "0 \<le> sint (ucast w :: 32 word) \<and> sint (ucast w :: 32 word) \<le> 599 \<longleftrightarrow> unat w \<le> 599" for w :: "16 word"
proof -
  have u: "uint w < 65536" "(0::int) \<le> uint w" using uint_lt2p [of w] by simp_all
  have "take_bit 32 (uint w) = uint w"
    using u by (subst take_bit_int_eq_self_iff) simp
  moreover have "signed_take_bit 31 (uint w) = uint w"
  proof (subst signed_take_bit_int_eq_self_iff, intro conjI)
    show "- (2 ^ 31) \<le> uint w" by (rule order_trans [OF _ u(2)]) simp
    show "uint w < 2 ^ 31" using u(1) by simp
  qed
  ultimately have "sint (ucast w :: 32 word) = uint w" by (simp add: sint_uint unsigned_ucast_eq)
  moreover obtain n where "unat w = n" "uint w = int n" by simp
  ultimately show ?thesis by simp
qed

lemma categories_few:
  assumes "distinct cs"
  shows "length (cs :: threat_category list) \<le> 9"
proof -
  let ?all = "[SqlInjection, Xss, PathTraversal, CommandInjection, BruteForce, Scanner, SensitiveFile,
    TlsError, SuspiciousPattern]"
  have "c \<in> set ?all" for c by (cases c) simp_all
  then have "card (set cs) \<le> card (set ?all)" by (intro card_mono) auto
  also have "\<dots> \<le> length ?all" by (rule card_length)
  finally show ?thesis using assms by (simp add: distinct_card)
qed

section \<open>Properties\<close>

text \<open>
  C17: What the agent parsed is what the hub stores. An entry that the agent has resolved, sent and the
  hub has accepted arrives with every structured field unchanged; its instant is cut to milliseconds
  (or replaced when chrono cannot represent it), its texts are shortened to the hub's limit, a status
  of 0 is dropped, the host is the one of the key, and the service travels by name.
\<close>

theorem agent_entry_survives_the_wire:
  assumes "agent_resolve r0 n ut vh = (le_service_id e, r)"
    and "validate_parsed_entry ms_ok now now' (entry_to_proto e r) host = Inr i"
  shows "pi_entry i = e \<lparr> le_service_id := None,
      le_timestamp := ts_from_ms ms_ok now (timestamp_millis (le_timestamp e)),
      le_message := sanitize_message (le_message e),
      le_raw_line := map_option sanitize_message (le_raw_line e),
      le_status_code := (if le_status_code e = Some 0 then None else le_status_code e),
      le_source_host := Some host \<rparr>
    \<and> (pi_service_name i, pi_service_unit_type i, pi_virtual_host i) = (n, ut, vh)"
proof -
  have i: "i = parsed_to_ingest (ts_from_ms ms_ok now (timestamp_millis (le_timestamp e))) (entry_to_proto e r) host"
    using assms(2) by (simp add: validate_parsed_entry_Inr entry_to_proto_def Let_def)
  obtain u where u: "le_service_id e = Some u"
    using agent_res.resolve_total [of r0 n ut vh] assms(1) by auto
  have "meta_of r u = Some \<lparr> me_name = n, me_unit_type = ut, me_virtual_host = vh \<rparr>"
    using agent_resolve_meta [of r0 n ut vh u] assms(1) u by simp
  from entry_to_proto_service [OF u this] show ?thesis
    unfolding i entry_to_proto_ingest by simp
qed

definition sample_entry :: "uuid option \<Rightarrow> insert_log_entry" where
  "sample_entry sid =
     \<lparr> le_service_id = sid, le_timestamp = 5000000, le_level = ''warn'', le_message = ''GET / 404'',
       le_raw_line = Some ''GET /'', le_client_ip = None, le_request_path = Some ''/'',
       le_status_code = Some 404, le_response_time_ms = Some 3, le_is_noise = False,
       le_noise_reason = None, le_threat_level = ''none'', le_threat_categories = [],
       le_source_host = None \<rparr>"

definition sample_resolver :: agent_resolver where
  "sample_resolver = agent_resolver_new of_nat"

lemma sample_resolve:
  "agent_resolve sample_resolver ''api.example'' ''nginx-vhost'' (Some ''api.example'') =
     (Some 0, snd (agent_resolve sample_resolver ''api.example'' ''nginx-vhost'' (Some ''api.example'')))"
  by (simp add: agent_resolve_def sample_resolver_def agent_resolver_new_def)

lemma sample_tokens: "sized_token container_char 64 ''api.example''" "sized_token unit_char 64 ''nginx-vhost''"
  by code_simp+

lemma sample_accepted:
  "validate_parsed_entry (\<lambda>_. True) 0 0 (entry_to_proto (sample_entry (Some 0))
      (snd (agent_resolve sample_resolver ''api.example'' ''nginx-vhost'' (Some ''api.example'')))) ''web1''
     = Inr (parsed_to_ingest 5000000 (entry_to_proto (sample_entry (Some 0))
      (snd (agent_resolve sample_resolver ''api.example'' ''nginx-vhost'' (Some ''api.example'')))) ''web1'')"
  by (simp add: validate_parsed_entry_Inr entry_acceptable_def entry_to_proto_def Let_def sample_entry_def
      timestamp_millis_def ts_from_ms_def ns_per_ms_def ns_per_s_def levels_def threat_levels_def
      agent_resolve_def sample_resolver_def agent_resolver_new_def meta_of_def sample_tokens byte_def)

theorem agent_entry_survives_the_wire_witness:
  "pi_service_name (parsed_to_ingest 5000000 (entry_to_proto (sample_entry (Some 0))
      (snd (agent_resolve sample_resolver ''api.example'' ''nginx-vhost'' (Some ''api.example'')))) ''web1'')
     = ''api.example''"
  using agent_entry_survives_the_wire [OF _ sample_accepted, of sample_resolver "''api.example''"
      "''nginx-vhost''" "Some ''api.example''"] sample_resolve
  by (simp add: sample_entry_def)

lemma pipeline_row_accepted_iff:
  assumes "entry_ip_ok e"
  shows "entry_acceptable ts now (entry_to_proto (build_entry sid e fr (classify ulow e)) r) \<longleftrightarrow>
     now - 2592001 * ns_per_s < ts \<and> ts < now + 301 * ns_per_s
     \<and> (\<forall>q. md_request_path (pe_metadata e) = Some q \<longrightarrow> length q \<le> 2048 \<and> \<not> has_control q)
     \<and> (\<forall>q. noise_reason_of fr = Some q \<longrightarrow> length q \<le> 128 \<and> \<not> has_control q)
     \<and> (\<forall>w. md_status_code (pe_metadata e) = Some w \<longrightarrow> unat w \<le> 599)
     \<and> (\<forall>w. md_response_time_ms (pe_metadata e) = Some w \<longrightarrow> 0 \<le> sint w)
     \<and> (\<exists>m. Option.bind sid (meta_of r) = Some m \<and> sized_token container_char 64 (me_name m)
          \<and> sized_token unit_char 64 (me_unit_type m)
          \<and> (\<forall>v. me_virtual_host m = Some v \<longrightarrow> sized_token container_char 64 v))"
proof -
  let ?row = "build_entry sid e fr (classify ulow e)"
  have ips: "\<forall>ip. md_client_ip (pe_metadata e) = Some ip \<longrightarrow> parse_ip (show_ip ip) \<noteq> None"
    using assms by (simp add: entry_ip_ok_def parse_show_ip)
  have lvl: "le_level ?row \<in> set levels" "le_threat_level ?row \<in> set threat_levels"
    using vocabulary_levels by (simp_all add: build_entry_def Let_def)
  have cats: "length (le_threat_categories ?row) \<le> 16"
    "list_all (sized_token unit_char 64) (le_threat_categories ?row)"
    using le_trans [OF categories_few [OF tr_categories_distinct [of pattern_rules ulow e]], of 16]
      category_token
    by (simp_all add: classify_def list_all_iff)
  have status: "0 \<le> sint (ucast w :: 32 word) \<and> sint (ucast w :: 32 word) \<le> 599 \<longleftrightarrow> unat w \<le> 599"
    for w :: "16 word" by (simp add: status_widened)
  have none: "\<not> sized_token container_char 64 []" by (simp add: sized_token_def)
  have codes: "(\<forall>v :: 32 word. map_option ucast x = Some v \<longrightarrow> 0 \<le> sint v \<and> sint v \<le> 599) \<longleftrightarrow>
      (\<forall>w. x = Some w \<longrightarrow> unat w \<le> 599)" for x :: "16 word option"
    proof (cases x)
    case (Some a)
    show ?thesis unfolding Some using status [of a] by auto
  qed simp
  show ?thesis
    using lvl cats none codes ips
    by (cases "Option.bind sid (meta_of r)")
      (simp_all add: entry_acceptable_def entry_to_proto_def Let_def, blast)
qed


definition sample_parsed :: "16 word \<Rightarrow> parsed_log_entry" where
  "sample_parsed w =
     \<lparr> pe_timestamp = 0, pe_source_name = ''nginx'', pe_level = Info, pe_message = ''GET / 600'', pe_raw = ''GET / 600'',
       pe_metadata = default_metadata \<lparr> md_status_code := Some w \<rparr> \<rparr>"


text \<open>
  A success of the sink only says that the hub answered. The whole batch counts as inserted at the
  agent, while the hub has stored just those entries that pass its validation, in order; the others
  are gone on both sides.
\<close>

lemma sink_counts_refused_entries:
  assumes "grpc_insert_batch (hub_peer env now now' clk remote) r k es = (Inr n, k')"
  shows "n = length es \<and> length es \<le> 1000 \<and> gk_taken k' = gk_taken k @ es
    \<and> (\<exists>host. map (\<lambda>e. e \<lparr> le_service_id := None \<rparr>) (stored_entries (hb_logs (hc_peer (gk_client k')))) =
        map (\<lambda>e. e \<lparr> le_service_id := None \<rparr>)
          (stored_entries (hb_logs (hc_peer (gk_client k)))
           @ accepted_entries (check_request (he_ms_ok env) clk host
               \<lparr> lq_lines = [], lq_parsed_lines = map (\<lambda>e. entry_to_proto e r) es \<rparr>)))"
proof -
  let ?rq = "\<lparr> lq_lines = [], lq_parsed_lines = map (\<lambda>e. entry_to_proto e r) es \<rparr>"
  let ?h = "hc_peer (gk_client k)"
  let ?g = "\<lparr> gr_api_key = Some (hc_api_key (gk_client k)), gr_remote = remote, gr_message = ?rq \<rparr>"
  from assms obtain a where s: "send_logs env clk ?g ?h = (Inr a, hc_peer (gk_client k'))"
    and k': "n = length es" "gk_taken k' = gk_taken k @ es"
    by (cases "send_logs env clk ?g ?h"; cases "fst (send_logs env clk ?g ?h)")
      (auto simp: grpc_insert_Inr client_send_request_def hub_peer_logs)
  from send_logs_Inr [OF s] obtain host where
    "stored_entries (hb_logs (hc_peer (gk_client k'))) = stored_entries (hb_logs ?h)
      @ is_entries (ingest_all (check_request (he_ms_ok env) clk host ?rq) (hb_services ?h))"
    "length es \<le> 1000" by auto
  with k' ingest_all_entries(1) [of "check_request (he_ms_ok env) clk host ?rq" "hb_services ?h"]
  show ?thesis by auto
qed

text \<open>
  C31: Once the scanner's pending batch is longer than the hub's limit of 1000 entries per request, host
  log forwarding is over: every later flush sends the whole batch, the hub refuses it, and not one of
  the pending or later entries is ever delivered, whatever happens.
\<close>

theorem oversized_batch_wedges_forwarding:
  assumes "scan_run cg (grpc_insert_batch (hub_peer env now now' clk remote)) vs st = (d, st')"
    and "1000 < length (sc_batch st)"
  shows "gk_taken (sc_sink st') = gk_taken (sc_sink st) \<and> 1000 < length (sc_batch st')"
  using oversized_run [OF assms(1)] assms(2) by (simp add: max_lines_per_request_def)

definition sample_sink :: "unit hub grpc_sink" where
  "sample_sink =
     \<lparr> gk_client = \<lparr> hc_peer = sample_hub, hc_api_key = sample_agent_key, hc_metrics = [], hc_requests = [] \<rparr>,
       gk_taken = [] \<rparr>"

text \<open>An entry without a service: refused by the hub, inserted for the agent.\<close>

lemma sample_refused:
  "\<exists>k'. grpc_insert_batch (hub_peer sample_hub_env 0 0 (\<lambda>_. (0, 0)) None) sample_resolver sample_sink
     [sample_entry None] = (Inr 1, k') \<and> stored_entries (hb_logs (hc_peer (gk_client k'))) = []"
proof -
  let ?p = "entry_to_proto (sample_entry None) sample_resolver"
  let ?rq = "\<lparr> lq_lines = [], lq_parsed_lines = [?p] \<rparr>"
  have "validate_parsed_entry (\<lambda>_. True) 0 0 ?p ''web1'' \<noteq> Inr i" for i
    by (simp add: validate_parsed_entry_Inr entry_acceptable_def entry_to_proto_def sample_entry_def
        sized_token_def)
  then obtain e where v: "validate_parsed_entry (\<lambda>_. True) 0 0 ?p ''web1'' = Inl e"
    by (cases "validate_parsed_entry (\<lambda>_. True) 0 0 ?p ''web1''") auto
  have auth: "authorize sample_hub_env \<lparr> gr_api_key = Some sample_agent_key, gr_remote = None, gr_message = rq \<rparr>
      sample_hub = (Inr sample_agent_principal, sample_hub)" for rq :: logs_request
    by (simp add: authorize_def sample_hub_env_def sample_hub_def check_ip_budget_def
        authenticate_hit [OF sample_agent_key_id] cache_get_def entry_fresh_def)
  have "store_logs (\<lambda>_. True) (\<lambda>_. (0, 0)) ''web1'' ?rq sample_hub =
      (Inr \<lparr> ack_accepted = True, ack_count = 0 \<rparr>, sample_hub)"
    by (simp add: store_logs_def max_lines_per_request_def check_request_def checked_parsed_def v
        ingest_all_def ingest_one_def Let_def)
  moreover have "stored_entries (hb_logs sample_hub) = []"
    by (simp add: sample_hub_def sample_log_db_def stored_entries_def)
  ultimately show ?thesis
    by (simp add: grpc_insert_batch_def client_send_request_def hub_peer_logs send_logs_def sample_sink_def
        auth require_agent_def agent_identity_def sample_agent_principal_def)
      (simp add: sample_hub_env_def)
qed

lemma sink_counts_refused_entries_witness:
  "\<exists>k' host. grpc_insert_batch (hub_peer sample_hub_env 0 0 (\<lambda>_. (0, 0)) None) sample_resolver sample_sink
       [sample_entry None] = (Inr 1, k') \<and> gk_taken k' = [sample_entry None]
     \<and> accepted_entries (check_request (\<lambda>_. True) (\<lambda>_. (0, 0)) host
         \<lparr> lq_lines = [], lq_parsed_lines = [entry_to_proto (sample_entry None) sample_resolver] \<rparr>) = []"
proof -
  obtain k' where g: "grpc_insert_batch (hub_peer sample_hub_env 0 0 (\<lambda>_. (0, 0)) None) sample_resolver
      sample_sink [sample_entry None] = (Inr 1, k')" "stored_entries (hb_logs (hc_peer (gk_client k'))) = []"
    using sample_refused by blast
  from sink_counts_refused_entries [OF g(1)] g(2) obtain host where "gk_taken k' = [sample_entry None]"
    "accepted_entries (check_request (\<lambda>_. True) (\<lambda>_. (0, 0)) host
       \<lparr> lq_lines = [], lq_parsed_lines = [entry_to_proto (sample_entry None) sample_resolver] \<rparr>) = []"
    by (auto simp: sample_sink_def sample_hub_env_def)
  with g(1) show ?thesis by blast
qed

theorem oversized_batch_wedges_forwarding_witness:
  "gk_taken (sc_sink (snd (scan_run (agent_scan_config sample_parse_env default_config)
       (grpc_insert_batch (hub_peer sample_hub_env 0 0 (\<lambda>_. (0, 0)) None))
       [\<lparr> pv_event = None, pv_cancelled = False, pv_tick = True \<rparr>]
       \<lparr> sc_batch = replicate 1001 (sample_entry None), sc_resolver = sample_resolver, sc_sink = sample_sink \<rparr>)))
     = []"
proof -
  let ?st = "\<lparr> sc_batch = replicate 1001 (sample_entry None), sc_resolver = sample_resolver, sc_sink = sample_sink \<rparr>"
  have "1000 < length (sc_batch ?st)" by simp
  from oversized_batch_wedges_forwarding [OF prod.collapse [symmetric] this,
      of "agent_scan_config sample_parse_env default_config" sample_hub_env 0 0 "\<lambda>_. (0, 0)" None
      "[\<lparr> pv_event = None, pv_cancelled = False, pv_tick = True \<rparr>]"]
  show ?thesis by (simp add: sample_sink_def del: scan_run.simps replicate.simps)
qed

end
