(* ===== verification/Tailer.thy ===== *)
theory Tailer
  imports Sources LogEntry
begin

text \<open>
  The file tailer: the per-file state machine of \<open>src/src/log_scanner/tailer/state.rs\<close> and the
  \<open>FileTailer\<close> that drives it, \<open>src/src/log_scanner/tailer/mod.rs\<close>. A step sees one snapshot of the
  file system. The line channel accepts events until its receiver is gone; \<open>ch_left\<close> says after how
  many events that happens (\<open>None\<close>: never).
\<close>

section \<open>Surroundings\<close>

type_synonym tail_event = "sentinel_error + tail_line"

record chan =
  ch_sent :: "tail_event list"
  ch_left :: "nat option"

text \<open>\<open>tx.send(event).await\<close>, with \<open>is_ok()\<close> of its result.\<close>

definition chan_send :: "tail_event \<Rightarrow> chan \<Rightarrow> bool \<times> chan" where
  "chan_send e ch =
     (if ch_left ch = Some 0 then (False, ch)
      else (True, \<lparr> ch_sent = ch_sent ch @ [e], ch_left = map_option (\<lambda>n. n - 1) (ch_left ch) \<rparr>))"

record fs_view =
  fv_is_file :: "path \<Rightarrow> bool"
  fv_read :: "path \<Rightarrow> string + string"
  fv_read_dir :: "path \<Rightarrow> string + path list"

definition invalid_utf8 :: string where
  "invalid_utf8 = ''stream did not contain valid UTF-8''"

text \<open>\<open>read_to_string\<close> from a position: an IO error, or an error when the bytes are not UTF-8.\<close>

definition read_from :: "fs_view \<Rightarrow> path \<Rightarrow> nat \<Rightarrow> sentinel_error + string" where
  "read_from fs p pos =
     (case fv_read fs p of
        Inl e \<Rightarrow> Inl (Io e)
      | Inr bytes \<Rightarrow> if utf8_ok (drop pos bytes) then Inr (drop pos bytes) else Inl (Io invalid_utf8))"

record log_watch_config =
  lc_directory :: path
  lc_pattern :: "string \<Rightarrow> bool"

text \<open>\<open>LogWatchConfig::new\<close>; the glob compiler is an argument.\<close>

definition log_watch_config_new ::
  "(string \<Rightarrow> string + (string \<Rightarrow> bool)) \<Rightarrow> path \<Rightarrow> string \<Rightarrow> sentinel_error + log_watch_config" where
  "log_watch_config_new compile d pat =
     map_sum (\<lambda>e. ConfigError (''invalid log watch pattern '' @ [CHR 0x27] @ pat @ [CHR 0x27] @ '': '' @ e))
       (\<lambda>p. \<lparr> lc_directory = d, lc_pattern = p \<rparr>) (compile pat)"

section \<open>The state machine\<close>

record tailer_state =
  ts_positions :: "path \<Rightarrow> nat option"
  ts_tailed :: "path set"

definition tailer_state_new :: "path list \<Rightarrow> tailer_state" where
  "tailer_state_new fs = \<lparr> ts_positions = Map.empty, ts_tailed = set fs \<rparr>"

definition mk_line :: "path \<Rightarrow> nat \<Rightarrow> string \<Rightarrow> tail_line" where
  "mk_line p off l = \<lparr> tl_file_path = p, tl_line = l, tl_byte_offset = off \<rparr>"

text \<open>The loop over \<open>content.lines()\<close>: whether every send succeeded, and the offset reached.\<close>

fun emit_lines :: "path \<Rightarrow> nat \<Rightarrow> string list \<Rightarrow> chan \<Rightarrow> bool \<times> nat \<times> chan" where
  "emit_lines p off [] ch = (True, off, ch)"
| "emit_lines p off (l # ls) ch =
     (case chan_send (Inr (mk_line p off l)) ch of
        (False, ch') \<Rightarrow> (False, off, ch')
      | (True, ch') \<Rightarrow> emit_lines p (off + length l + 1) ls ch')"

definition read_existing_lines ::
  "fs_view \<Rightarrow> path \<Rightarrow> tailer_state \<Rightarrow> chan \<Rightarrow> (sentinel_error + unit) \<times> tailer_state \<times> chan" where
  "read_existing_lines fs p s ch =
     (case read_from fs p 0 of
        Inl e \<Rightarrow> (Inl e, s, ch)
      | Inr content \<Rightarrow>
          (case emit_lines p 0 (lines content) ch of
             (_, off, ch') \<Rightarrow> (Inr (), s \<lparr> ts_positions := (ts_positions s)(p \<mapsto> off) \<rparr>, ch')))"

definition matches_pattern :: "path \<Rightarrow> (string \<Rightarrow> bool) \<Rightarrow> bool" where
  "matches_pattern p pat = (case file_name p of Some n \<Rightarrow> pat n | None \<Rightarrow> False)"

definition discover_entry_log ::
  "fs_view \<Rightarrow> log_watch_config \<Rightarrow> path \<Rightarrow> tailer_state \<times> chan \<Rightarrow> tailer_state \<times> chan" where
  "discover_entry_log fs cfg p st =
     (case st of (s, ch) \<Rightarrow>
       if \<not> fv_is_file fs p then st
       else (case file_name p of
               None \<Rightarrow> st
             | Some n \<Rightarrow>
                 if \<not> matches_pattern p (lc_pattern cfg) \<or> is_rotated_log n then st
                 else if p \<in> ts_tailed s then st
                 else (case read_existing_lines fs p (s \<lparr> ts_tailed := insert p (ts_tailed s) \<rparr>) ch of
                         (_, s', ch') \<Rightarrow> (s', ch'))))"

definition discover_existing_logs ::
  "fs_view \<Rightarrow> log_watch_config \<Rightarrow> tailer_state \<Rightarrow> chan \<Rightarrow> (sentinel_error + unit) \<times> tailer_state \<times> chan"
  where
  "discover_existing_logs fs cfg s ch =
     (case fv_read_dir fs (lc_directory cfg) of
        Inl e \<Rightarrow> (Inl (Io e), s, ch)
      | Inr entries \<Rightarrow>
          (case fold (discover_entry_log fs cfg) entries (s, ch) of (s', ch') \<Rightarrow> (Inr (), s', ch')))"

text \<open>Event kinds of the notify crate, as far as the code tells them apart.\<close>

datatype event_kind = CreateEvent | ModifyData | ModifyName | RemoveEvent | OtherEvent

record fs_event =
  ev_kind :: event_kind
  ev_paths :: "path list"

definition find_matching_config ::
  "path \<Rightarrow> log_watch_config list \<Rightarrow> path set \<Rightarrow> log_watch_config option" where
  "find_matching_config p cfgs dirs =
     find (\<lambda>c. lc_directory c \<in> dirs \<and> path_starts_with p (lc_directory c)) cfgs"

text \<open>
  \<open>wait_for_file_stability\<close> over the sizes that \<open>metadata\<close> reports at its checks; the result is the
  number of sleeps.
\<close>

fun stability_checks :: "nat \<Rightarrow> nat option list \<Rightarrow> nat \<Rightarrow> nat" where
  "stability_checks 0 sizes last_size = 0"
| "stability_checks (Suc k) sizes last_size =
     (case sizes of
        Some sz # rest \<Rightarrow>
          if sz = last_size \<and> 0 < last_size then 0 else Suc (stability_checks k rest sz)
      | None # rest \<Rightarrow> Suc (stability_checks k rest last_size)
      | [] \<Rightarrow> Suc (stability_checks k [] last_size))"

definition wait_for_file_stability :: "nat option list \<Rightarrow> nat" where
  "wait_for_file_stability sizes = stability_checks 10 sizes 0"

text \<open>What the body of the loop over \<open>event.paths\<close> does next.\<close>

datatype flow = Next | Return "sentinel_error + unit"

definition handle_modify ::
  "fs_view \<Rightarrow> path \<Rightarrow> tailer_state \<Rightarrow> chan \<Rightarrow> flow \<times> tailer_state \<times> chan" where
  "handle_modify fs p s ch =
     (case ts_positions s p of
        None \<Rightarrow> (Next, s, ch)
      | Some pos \<Rightarrow>
          (case read_from fs p pos of
             Inl e \<Rightarrow> (Return (Inl e), s, ch)
           | Inr content \<Rightarrow>
               (case emit_lines p pos (lines content) ch of
                  (False, _, ch') \<Rightarrow> (Return (Inr ()), s, ch')
                | (True, off, ch') \<Rightarrow> (Next, s \<lparr> ts_positions := (ts_positions s)(p \<mapsto> off) \<rparr>, ch'))))"

definition handle_create ::
  "fs_view \<Rightarrow> log_watch_config list \<Rightarrow> path set \<Rightarrow> path \<Rightarrow> tailer_state \<Rightarrow> chan \<Rightarrow> tailer_state \<times> chan"
  where
  "handle_create fs cfgs dirs p s ch =
     (case find_matching_config p cfgs dirs of
        None \<Rightarrow> (s, ch)
      | Some cfg \<Rightarrow>
          if \<not> matches_pattern p (lc_pattern cfg) then (s, ch)
          else (case read_existing_lines fs p
                       \<lparr> ts_positions = (ts_positions s)(p \<mapsto> 0), ts_tailed = insert p (ts_tailed s) \<rparr> ch of
                  (_, s', ch') \<Rightarrow> (s', ch')))"

definition handle_path ::
  "fs_view \<Rightarrow> log_watch_config list \<Rightarrow> path set \<Rightarrow> event_kind \<Rightarrow> path \<Rightarrow> tailer_state \<Rightarrow> chan \<Rightarrow>
   flow \<times> tailer_state \<times> chan" where
  "handle_path fs cfgs dirs kind p s ch =
     (if \<not> fv_is_file fs p then (Next, s, ch)
      else (case file_name p of
              None \<Rightarrow> (Next, s, ch)
            | Some n \<Rightarrow>
                if kind = ModifyData \<and> p \<in> ts_tailed s then handle_modify fs p s ch
                else if kind = CreateEvent \<and> \<not> is_rotated_log n then
                  (case handle_create fs cfgs dirs p s ch of (s', ch') \<Rightarrow> (Next, s', ch'))
                else if kind = RemoveEvent \<or> (kind = ModifyName \<and> is_rotated_log n) then
                  (Next, \<lparr> ts_positions = (ts_positions s)(p := None), ts_tailed = ts_tailed s - {p} \<rparr>, ch)
                else (Next, s, ch)))"

fun handle_paths ::
  "fs_view \<Rightarrow> log_watch_config list \<Rightarrow> path set \<Rightarrow> event_kind \<Rightarrow> path list \<Rightarrow> tailer_state \<Rightarrow> chan \<Rightarrow>
   (sentinel_error + unit) \<times> tailer_state \<times> chan" where
  "handle_paths fs cfgs dirs kind [] s ch = (Inr (), s, ch)"
| "handle_paths fs cfgs dirs kind (p # ps) s ch =
     (case handle_path fs cfgs dirs kind p s ch of
        (Return r, s', ch') \<Rightarrow> (r, s', ch')
      | (Next, s', ch') \<Rightarrow> handle_paths fs cfgs dirs kind ps s' ch')"

definition handle_event ::
  "fs_view \<Rightarrow> log_watch_config list \<Rightarrow> path set \<Rightarrow> fs_event \<Rightarrow> tailer_state \<Rightarrow> chan \<Rightarrow>
   (sentinel_error + unit) \<times> tailer_state \<times> chan" where
  "handle_event fs cfgs dirs ev s ch = handle_paths fs cfgs dirs (ev_kind ev) (ev_paths ev) s ch"

section \<open>The tailer\<close>

record file_tailer =
  ft_watching :: bool
  ft_files :: "path list"
  ft_watch_configs :: "log_watch_config list"
  ft_cancelled :: bool
  ft_started :: bool

definition file_tailer_new :: file_tailer where
  "file_tailer_new =
     \<lparr> ft_watching = False, ft_files = [], ft_watch_configs = [], ft_cancelled = False, ft_started = False \<rparr>"

definition with_files :: "path list \<Rightarrow> file_tailer \<Rightarrow> file_tailer" where
  "with_files fs t = t \<lparr> ft_files := fs \<rparr>"

definition with_watch_directory ::
  "(string \<Rightarrow> string + (string \<Rightarrow> bool)) \<Rightarrow> path \<Rightarrow> string \<Rightarrow> file_tailer \<Rightarrow> sentinel_error + file_tailer"
  where
  "with_watch_directory compile d pat t =
     and_then (log_watch_config_new compile d pat) (\<lambda>c.
       Inr (t \<lparr> ft_watch_configs := ft_watch_configs t @ [c] \<rparr>))"

fun with_directories ::
  "(string \<Rightarrow> string + (string \<Rightarrow> bool)) \<Rightarrow> log_directory_config list \<Rightarrow> file_tailer \<Rightarrow>
   sentinel_error + file_tailer" where
  "with_directories compile [] t = Inr t"
| "with_directories compile (d # ds) t =
     and_then (with_watch_directory compile (dir_path d) (dir_pattern d) t) (with_directories compile ds)"

definition from_watch_config ::
  "(string \<Rightarrow> string + (string \<Rightarrow> bool)) \<Rightarrow> log_watching_config \<Rightarrow> sentinel_error + file_tailer" where
  "from_watch_config compile cfg =
     and_then (with_directories compile (lw_directories cfg) file_tailer_new) (\<lambda>t.
       Inr (if lw_files cfg \<noteq> [] then with_files (lw_files cfg) t else t))"

text \<open>The initial reads of the tailing task; errors go down the channel.\<close>

definition report ::
  "(sentinel_error + unit) \<times> tailer_state \<times> chan \<Rightarrow> tailer_state \<times> chan" where
  "report x = (case x of (Inl e, s, ch) \<Rightarrow> (s, snd (chan_send (Inl e) ch)) | (Inr _, s, ch) \<Rightarrow> (s, ch))"

definition initial_reads :: "fs_view \<Rightarrow> file_tailer \<Rightarrow> chan \<Rightarrow> tailer_state \<times> chan" where
  "initial_reads fs t ch =
     (let st = fold (\<lambda>p (s, ch). report (read_existing_lines fs p s ch)) (ft_files t)
                 (tailer_state_new (ft_files t), ch)
      in fold (\<lambda>cfg (s, ch). report (discover_existing_logs fs cfg s ch)) (ft_watch_configs t) st)"

text \<open>
  One turn of the \<open>select!\<close> in the tailing loop: cancellation, a delivered event with the file system
  it meets, or anything else (a watcher error, a closed bridge), which ends the loop.
\<close>

datatype loop_input = Cancelled | Delivered fs_view fs_event | WatchError string | BridgeClosed

fun tail_loop ::
  "log_watch_config list \<Rightarrow> path set \<Rightarrow> loop_input list \<Rightarrow> tailer_state \<Rightarrow> chan \<Rightarrow> tailer_state \<times> chan"
  where
  "tail_loop cfgs dirs [] s ch = (s, ch)"
| "tail_loop cfgs dirs (Delivered fs ev # is) s ch =
     (case report (handle_event fs cfgs dirs ev s ch) of (s', ch') \<Rightarrow> tail_loop cfgs dirs is s' ch')"
| "tail_loop cfgs dirs (Cancelled # is) s ch = (s, ch)"
| "tail_loop cfgs dirs (WatchError e # is) s ch = (s, ch)"
| "tail_loop cfgs dirs (BridgeClosed # is) s ch = (s, ch)"

text \<open>
  \<open>start\<close>: \<open>watch_ok\<close> says whether the watcher could be created and every existing target watched.
  The stream is what the task has sent when the inputs are used up.
\<close>

definition tailer_start ::
  "(file_tailer \<Rightarrow> sentinel_error + unit) \<Rightarrow> fs_view \<Rightarrow> loop_input list \<Rightarrow> nat option \<Rightarrow> file_tailer \<Rightarrow>
   sentinel_error + file_tailer \<times> tailer_state \<times> chan" where
  "tailer_start watch_ok fs inputs left t =
     (if ft_started t then Inl (Internal ''Tailer already started'')
      else and_then (watch_ok t) (\<lambda>_.
        let t' = t \<lparr> ft_watching := True, ft_started := True \<rparr>;
            dirs = set (map lc_directory (ft_watch_configs t));
            (s, ch) = initial_reads fs t \<lparr> ch_sent = [], ch_left = left \<rparr>
        in Inr (t', tail_loop (ft_watch_configs t) dirs inputs s ch)))"

definition tailer_stop :: "file_tailer \<Rightarrow> file_tailer" where
  "tailer_stop t = t \<lparr> ft_cancelled := True \<rparr>"

definition is_running :: "file_tailer \<Rightarrow> bool" where
  "is_running t \<longleftrightarrow> ft_started t \<and> \<not> ft_cancelled t"

text \<open>
  The handler that bridges the watcher's thread to the task: a full channel of capacity 128 drops
  the event.
\<close>

definition bridge_event :: "'e \<Rightarrow> 'e list \<Rightarrow> 'e list" where
  "bridge_event e q = (if length q < 128 then q @ [e] else q)"

section \<open>Emission\<close>

text \<open>The events of a text: its lines with the offsets the code assigns them.\<close>

fun tail_lines :: "path \<Rightarrow> nat \<Rightarrow> string list \<Rightarrow> tail_line list" where
  "tail_lines p off [] = []"
| "tail_lines p off (l # ls) = mk_line p off l # tail_lines p (off + length l + 1) ls"

lemma mk_line_sel [simp]:
  "tl_line (mk_line p off l) = l" "tl_file_path (mk_line p off l) = p"
  "tl_byte_offset (mk_line p off l) = off"
  by (simp_all add: mk_line_def)

lemma map_tl_line_tail_lines [simp]: "map tl_line (tail_lines p off ls) = ls"
  by (induction ls arbitrary: off) simp_all

lemma tail_lines_append:
  "tail_lines p off (xs @ ys) =
     tail_lines p off xs @ tail_lines p (off + (\<Sum>l\<leftarrow>xs. length l + 1)) ys"
  by (induction xs arbitrary: off) (simp_all add: algebra_simps)

definition open_chan :: "chan \<Rightarrow> bool" where
  "open_chan ch \<longleftrightarrow> ch_left ch = None"

definition sends :: "chan \<Rightarrow> tail_event list \<Rightarrow> chan" where
  "sends ch es = ch \<lparr> ch_sent := ch_sent ch @ es \<rparr>"

lemma sends_simps [simp]:
  "open_chan (sends ch es) = open_chan ch"
  "ch_sent (sends ch es) = ch_sent ch @ es"
  "sends (sends ch es) es' = sends ch (es @ es')"
  "sends ch [] = ch"
  by (simp_all add: sends_def open_chan_def)

lemma chan_send_open: "open_chan ch \<Longrightarrow> chan_send e ch = (True, sends ch [e])"
  by (simp add: chan_send_def open_chan_def sends_def)

lemma emit_lines_open:
  "open_chan ch \<Longrightarrow>
   emit_lines p off ls ch =
     (True, off + (\<Sum>l\<leftarrow>ls. length l + 1), sends ch (map Inr (tail_lines p off ls)))"
  by (induction ls arbitrary: off ch) (simp_all add: chan_send_open)

text \<open>With a receiver that may go away, what is sent is still a prefix of the lines.\<close>

lemma emit_lines_prefix:
  "emit_lines p off ls ch = (ok, off', ch') \<Longrightarrow>
   \<exists>k. ch_sent ch' = ch_sent ch @ map Inr (take k (tail_lines p off ls)) \<and> (ok \<longrightarrow> k = length ls)"
proof (induction ls arbitrary: off ch)
  case Nil
  then show ?case by auto
next
  case (Cons l ls)
  show ?case
  proof (cases "ch_left ch = Some 0")
    case True
    with Cons.prems show ?thesis by (auto simp: chan_send_def intro: exI [where x = 0])
  next
    case False
    then obtain ch1 where c: "chan_send (Inr (mk_line p off l)) ch = (True, ch1)"
      "ch_sent ch1 = ch_sent ch @ [Inr (mk_line p off l)]"
      by (simp add: chan_send_def)
    with Cons.prems have "emit_lines p (off + length l + 1) ls ch1 = (ok, off', ch')" by simp
    from Cons.IH [OF this] obtain k where
      "ch_sent ch' = ch_sent ch1 @ map Inr (take k (tail_lines p (off + length l + 1) ls))"
      "ok \<longrightarrow> k = length ls"
      by blast
    with c show ?thesis by (intro exI [where x = "Suc k"]) simp
  qed
qed

lemma read_existing_open:
  assumes "open_chan ch" "read_from fs p 0 = Inr content"
  shows "read_existing_lines fs p s ch =
    (Inr (), s \<lparr> ts_positions := (ts_positions s)(p \<mapsto> lines_span content) \<rparr>,
     sends ch (map Inr (tail_lines p 0 (lines content))))"
  using assms by (simp add: read_existing_lines_def emit_lines_open lines_span_def)

lemma handle_modify_open:
  assumes "open_chan ch" "ts_positions s p = Some pos" "read_from fs p pos = Inr content"
  shows "handle_modify fs p s ch =
    (Next, s \<lparr> ts_positions := (ts_positions s)(p \<mapsto> pos + lines_span content) \<rparr>,
     sends ch (map Inr (tail_lines p pos (lines content))))"
  using assms by (simp add: handle_modify_def emit_lines_open lines_span_def)

text \<open>Invalid UTF-8 after the position: nothing is sent and the position stays.\<close>

lemma handle_modify_invalid:
  assumes "ts_positions s p = Some pos" "fv_read fs p = Inr bytes" "\<not> utf8_ok (drop pos bytes)"
  shows "handle_modify fs p s ch = (Return (Inl (Io invalid_utf8)), s, ch)"
  using assms by (simp add: handle_modify_def read_from_def)

text \<open>A file that shrank below the position is read as empty.\<close>

lemma handle_modify_short:
  assumes "ts_positions s p = Some pos" "fv_read fs p = Inr bytes" "length bytes \<le> pos"
  shows "handle_modify fs p s ch = (Next, s, ch)"
  using assms
  by (simp add: handle_modify_def read_from_def utf8_ok.simps [of "[]"] lines_def fun_upd_idem)

section \<open>Invariants\<close>

text \<open>Positions belong to tailed files; adopted files do not have a rotated name.\<close>

definition tailer_ok :: "path list \<Rightarrow> tailer_state \<Rightarrow> bool" where
  "tailer_ok files s \<longleftrightarrow>
     dom (ts_positions s) \<subseteq> ts_tailed s
     \<and> (\<forall>p\<in>ts_tailed s. p \<in> set files \<or> (\<exists>n. file_name p = Some n \<and> \<not> is_rotated_log n))"

lemma tailer_state_new_ok: "tailer_ok files (tailer_state_new files)"
  by (simp add: tailer_ok_def tailer_state_new_def)

lemma read_existing_frame:
  "read_existing_lines fs p s ch = (r, s', ch') \<Longrightarrow>
   ts_tailed s' = ts_tailed s \<and> (\<forall>q. q \<noteq> p \<longrightarrow> ts_positions s' q = ts_positions s q)
   \<and> (r = Inr () \<longrightarrow> ts_positions s' p \<noteq> None)"
  by (auto simp: read_existing_lines_def split: sum.splits prod.splits)

lemma read_existing_ok:
  assumes "tailer_ok files s" "p \<in> ts_tailed s"
    and "read_existing_lines fs p s ch = (r, s', ch')"
  shows "tailer_ok files s'"
proof -
  have "ts_tailed s' = ts_tailed s" and "\<forall>q. q \<noteq> p \<longrightarrow> ts_positions s' q = ts_positions s q"
    using read_existing_frame [OF assms(3)] by blast+
  then have "dom (ts_positions s') \<subseteq> insert p (dom (ts_positions s))" by (force simp: dom_def)
  with \<open>ts_tailed s' = ts_tailed s\<close> assms(1,2) show ?thesis by (auto simp: tailer_ok_def)
qed

lemma discover_entry_log_ok:
  assumes "tailer_ok files (fst st)"
  shows "tailer_ok files (fst (discover_entry_log fs cfg p st))"
proof -
  obtain s ch where st: "st = (s, ch)" by force
  let ?s = "s \<lparr> ts_tailed := insert p (ts_tailed s) \<rparr>"
  show ?thesis
  proof (cases "fst (discover_entry_log fs cfg p st) = s")
    case False
    then obtain n where n: "file_name p = Some n" "\<not> is_rotated_log n"
      and e: "fst (discover_entry_log fs cfg p st) = fst (snd (read_existing_lines fs p ?s ch))"
      by (auto simp: st discover_entry_log_def case_prod_beta split: if_splits option.splits)
    obtain r s' ch' where rd: "read_existing_lines fs p ?s ch = (r, s', ch')" by (metis prod_cases3)
    have "tailer_ok files ?s" using assms n st by (auto simp: tailer_ok_def)
    then have "tailer_ok files s'" by (rule read_existing_ok [OF _ _ rd]) simp
    with e rd show ?thesis by simp
  qed (use assms st in simp)
qed

lemma fold_ok:
  "tailer_ok files (fst st) \<Longrightarrow> (\<And>x st. tailer_ok files (fst st) \<Longrightarrow> tailer_ok files (fst (f x st)))
   \<Longrightarrow> tailer_ok files (fst (fold f xs st))"
  by (induction xs arbitrary: st) auto

lemma discover_existing_ok:
  assumes "tailer_ok files s"
  shows "tailer_ok files (fst (snd (discover_existing_logs fs cfg s ch)))"
proof -
  have "tailer_ok files (fst (fold (discover_entry_log fs cfg) es (s, ch)))" for es
    by (rule fold_ok) (simp_all add: assms discover_entry_log_ok)
  then show ?thesis
    using assms by (simp add: discover_existing_logs_def case_prod_beta split: sum.splits)
qed

lemma handle_modify_ok:
  "tailer_ok files s \<Longrightarrow> p \<in> ts_tailed s \<Longrightarrow> tailer_ok files (fst (snd (handle_modify fs p s ch)))"
  by (auto simp: handle_modify_def tailer_ok_def split: option.splits sum.splits prod.splits bool.splits)

lemma handle_create_ok:
  assumes "tailer_ok files s" "file_name p = Some n" "\<not> is_rotated_log n"
  shows "tailer_ok files (fst (handle_create fs cfgs dirs p s ch))"
proof -
  let ?s = "\<lparr> ts_positions = (ts_positions s)(p \<mapsto> 0), ts_tailed = insert p (ts_tailed s) \<rparr>"
  have "tailer_ok files ?s" using assms by (auto simp: tailer_ok_def)
  then show ?thesis
    using assms(1)
    by (auto simp: handle_create_def split: option.splits prod.splits
        intro: read_existing_ok [where s = ?s])
qed

lemma handle_path_ok:
  assumes "tailer_ok files s"
  shows "tailer_ok files (fst (snd (handle_path fs cfgs dirs kind p s ch)))"
proof (cases "file_name p")
  case None
  with assms show ?thesis by (simp add: handle_path_def)
next
  case (Some n)
  have "tailer_ok files \<lparr> ts_positions = (ts_positions s)(p := None), ts_tailed = ts_tailed s - {p} \<rparr>"
    using assms by (auto simp: tailer_ok_def)
  with Some assms show ?thesis
    using handle_modify_ok [OF assms] handle_create_ok [OF assms Some]
    by (simp add: handle_path_def case_prod_beta)
qed

lemma handle_paths_ok:
  "tailer_ok files s \<Longrightarrow> tailer_ok files (fst (snd (handle_paths fs cfgs dirs kind ps s ch)))"
proof (induction ps arbitrary: s ch)
  case (Cons p ps)
  obtain f s' ch' where h: "handle_path fs cfgs dirs kind p s ch = (f, s', ch')"
    by (metis prod_cases3)
  with handle_path_ok [OF Cons.prems, of fs cfgs dirs kind p ch] have "tailer_ok files s'" by simp
  with h Cons.IH show ?case by (cases f) simp_all
qed simp

lemma report_ok: "tailer_ok files (fst (snd x)) \<Longrightarrow> tailer_ok files (fst (report x))"
  by (auto simp: report_def split: prod.splits sum.splits)

lemma tail_loop_ok:
  "tailer_ok files s \<Longrightarrow> tailer_ok files (fst (tail_loop cfgs dirs is s ch))"
proof (induction "is" arbitrary: s ch)
  case (Cons i "is")
  show ?case
  proof (cases i)
    case (Delivered fs ev)
    have "tailer_ok files (fst (report (handle_event fs cfgs dirs ev s ch)))"
      unfolding handle_event_def by (intro report_ok handle_paths_ok Cons.prems)
    then show ?thesis using Cons.IH Delivered by (auto split: prod.splits)
  qed (use Cons.prems in simp_all)
qed simp

lemma read_existing_files_ok:
  assumes "set ps \<subseteq> set files"
  shows "tailer_ok files s \<and> set files \<subseteq> ts_tailed s \<Longrightarrow>
    tailer_ok files (fst (fold (\<lambda>p (s, ch). report (read_existing_lines fs p s ch)) ps (s, ch)))"
  using assms
proof (induction ps arbitrary: s ch)
  case (Cons p ps)
  obtain r s' ch' where e: "read_existing_lines fs p s ch = (r, s', ch')" by (metis prod_cases3)
  have "p \<in> ts_tailed s" using Cons.prems by auto
  with Cons.prems(1) e have "tailer_ok files s'" by (auto intro: read_existing_ok)
  moreover have "ts_tailed s' = ts_tailed s" using read_existing_frame [OF e] by simp
  moreover have "\<exists>c. report (r, s', ch') = (s', c)" by (cases r) (simp_all add: report_def)
  ultimately show ?case using Cons e by auto
qed simp

lemma initial_reads_ok: "tailer_ok (ft_files t) (fst (initial_reads fs t ch))"
proof -
  let ?st = "fold (\<lambda>p (s, ch). report (read_existing_lines fs p s ch)) (ft_files t)
    (tailer_state_new (ft_files t), ch)"
  have "tailer_ok (ft_files t) (fst ?st)"
    by (rule read_existing_files_ok) (simp_all add: tailer_state_new_ok, simp add: tailer_state_new_def)
  then have "tailer_ok (ft_files t)
      (fst (fold (\<lambda>cfg (s, ch). report (discover_existing_logs fs cfg s ch)) (ft_watch_configs t) ?st))"
    by (rule fold_ok) (auto intro!: report_ok discover_existing_ok simp: case_prod_beta)
  then show ?thesis by (simp add: initial_reads_def Let_def)
qed

section \<open>A growing file\<close>

definition one_file :: "path \<Rightarrow> string \<Rightarrow> fs_view" where
  "one_file p c =
     \<lparr> fv_is_file = (\<lambda>q. q = p), fv_read = (\<lambda>q. if q = p then Inr c else Inl ''not found''),
       fv_read_dir = (\<lambda>_. Inl ''not found'') \<rparr>"

definition data_event :: "path \<Rightarrow> fs_event" where
  "data_event p = \<lparr> ev_kind = ModifyData, ev_paths = [p] \<rparr>"

text \<open>The file grows chunk by chunk, with one data event after each chunk.\<close>

fun grow_inputs :: "path \<Rightarrow> string \<Rightarrow> string list \<Rightarrow> loop_input list" where
  "grow_inputs p c [] = []"
| "grow_inputs p c (x # xs) = Delivered (one_file p (c @ x)) (data_event p) # grow_inputs p (c @ x) xs"

lemma handle_data_event:
  assumes "file_name p \<noteq> None" "p \<in> ts_tailed s"
  shows "handle_event (one_file p c) cfgs dirs (data_event p) s ch =
    (case handle_modify (one_file p c) p s ch of
       (Return r, s', ch') \<Rightarrow> (r, s', ch') | (Next, s', ch') \<Rightarrow> (Inr (), s', ch'))"
  using assms
  by (auto simp: handle_event_def data_event_def handle_path_def one_file_def
      split: prod.splits flow.splits)

definition whole_lines :: "string \<Rightarrow> bool" where
  "whole_lines x \<longleftrightarrow> \<not> unterminated x \<and> CR \<notin> set x \<and> utf8_ok x"

lemma grow_step:
  assumes "file_name p \<noteq> None" "p \<in> ts_tailed s" "open_chan ch"
    and "ts_positions s p = Some (length c)" "utf8_ok x"
  shows "handle_event (one_file p (c @ x)) cfgs dirs (data_event p) s ch =
    (Inr (), s \<lparr> ts_positions := (ts_positions s)(p \<mapsto> length c + lines_span x) \<rparr>,
     sends ch (map Inr (tail_lines p (length c) (lines x))))"
proof -
  have "read_from (one_file p (c @ x)) p (length c) = Inr x"
    using assms(5) by (simp add: read_from_def one_file_def)
  then show ?thesis
    using assms by (simp add: handle_data_event handle_modify_open)
qed

lemma tail_loop_grow:
  assumes "file_name p \<noteq> None" "list_all whole_lines xs"
  shows "p \<in> ts_tailed s \<Longrightarrow> open_chan ch \<Longrightarrow> ts_positions s p = Some (length c) \<Longrightarrow>
    tail_loop cfgs dirs (grow_inputs p c xs) s ch =
      (s \<lparr> ts_positions := (ts_positions s)(p \<mapsto> length c + length (concat xs)) \<rparr>,
       sends ch (map Inr (tail_lines p (length c) (lines (concat xs)))))"
  using assms(2)
proof (induction xs arbitrary: s ch c)
  case Nil
  then show ?case by (simp add: lines_def fun_upd_idem)
next
  case (Cons x xs)
  then have xs: "list_all whole_lines xs" and "whole_lines x" by simp_all
  then have x: "utf8_ok x" "lines_span x = length x"
    by (simp_all add: whole_lines_def lines_span_terminated)
  have lf: "x = [] \<or> last x = LF" using Cons.prems(4) by (auto simp: whole_lines_def unterminated_def)
  let ?s = "s \<lparr> ts_positions := (ts_positions s)(p \<mapsto> length c + length x) \<rparr>"
  let ?ch = "sends ch (map Inr (tail_lines p (length c) (lines x)))"
  have "tail_loop cfgs dirs (grow_inputs p c (x # xs)) s ch =
    tail_loop cfgs dirs (grow_inputs p (c @ x) xs) ?s ?ch"
    using grow_step [OF assms(1) Cons.prems(1,2,3) x(1)] x(2) by (simp add: report_def)
  also have "\<dots> = (?s \<lparr> ts_positions := (ts_positions ?s)(p \<mapsto> length (c @ x) + length (concat xs)) \<rparr>,
      sends ?ch (map Inr (tail_lines p (length (c @ x)) (lines (concat xs)))))"
    by (rule Cons.IH) (use Cons.prems xs in simp_all)
  also have "\<dots> = (s \<lparr> ts_positions := (ts_positions s)(p \<mapsto> length c + length (concat (x # xs))) \<rparr>,
      sends ch (map Inr (tail_lines p (length c) (lines (concat (x # xs))))))"
    using x(2) lines_append [OF lf, of "concat xs"]
    by (simp add: tail_lines_append lines_span_def algebra_simps)
  finally show ?case .
qed

text \<open>From the start on: one explicit file, its existing content, then the growth.\<close>

lemma start_single_file:
  assumes "file_name p \<noteq> None" "list_all whole_lines (c # xs)"
    and "ft_started t = False" "ft_files t = [p]" "ft_watch_configs t = []" "watch_ok t = Inr ()"
  shows "\<exists>t' s ch. tailer_start watch_ok (one_file p c) (grow_inputs p c xs) None t = Inr (t', s, ch)
    \<and> ch_sent ch = map Inr (tail_lines p 0 (lines (c @ concat xs)))
    \<and> ts_positions s p = Some (length (c @ concat xs)) \<and> is_running t' = (\<not> ft_cancelled t)"
proof -
  have c: "utf8_ok c" "lines_span c = length c" "c = [] \<or> last c = LF"
    using assms(2) by (auto simp: whole_lines_def lines_span_terminated unterminated_def)
  have "read_from (one_file p c) p 0 = Inr c" using c by (simp add: read_from_def one_file_def)
  then have init: "initial_reads (one_file p c) t \<lparr> ch_sent = [], ch_left = None \<rparr> =
    (\<lparr> ts_positions = [p \<mapsto> length c], ts_tailed = {p} \<rparr>,
     sends \<lparr> ch_sent = [], ch_left = None \<rparr> (map Inr (tail_lines p 0 (lines c))))"
    using assms(4,5) c(2)
    by (simp add: initial_reads_def read_existing_open open_chan_def tailer_state_new_def report_def)
  have "tail_loop [] {} (grow_inputs p c xs) \<lparr> ts_positions = [p \<mapsto> length c], ts_tailed = {p} \<rparr>
      (sends \<lparr> ch_sent = [], ch_left = None \<rparr> (map Inr (tail_lines p 0 (lines c)))) =
    (\<lparr> ts_positions = [p \<mapsto> length c + length (concat xs)], ts_tailed = {p} \<rparr>,
     sends \<lparr> ch_sent = [], ch_left = None \<rparr> (map Inr (tail_lines p 0 (lines (c @ concat xs)))))"
    using assms(1,2) c lines_append [OF c(3), of "concat xs"]
    by (subst tail_loop_grow)
      (simp_all add: open_chan_def sends_def tail_lines_append lines_span_def)
  then show ?thesis
    using assms(3,5,6) init by (simp add: tailer_start_def is_running_def)
qed

section \<open>What does not happen\<close>

text \<open>A path that is gone is skipped whatever the event says, so a removal changes nothing.\<close>

lemma handle_path_gone:
  "\<not> fv_is_file fs p \<Longrightarrow> handle_path fs cfgs dirs kind p s ch = (Next, s, ch)"
  by (simp add: handle_path_def)

lemma handle_event_gone:
  "\<forall>p\<in>set (ev_paths ev). \<not> fv_is_file fs p \<Longrightarrow>
   handle_event fs cfgs dirs ev s ch = (Inr (), s, ch)"
proof -
  have "\<forall>p\<in>set ps. \<not> fv_is_file fs p \<Longrightarrow> handle_paths fs cfgs dirs k ps s ch = (Inr (), s, ch)" for ps k
    by (induction ps) (simp_all add: handle_path_gone)
  then show "\<forall>p\<in>set (ev_paths ev). \<not> fv_is_file fs p \<Longrightarrow> ?thesis" by (simp add: handle_event_def)
qed

text \<open>A file that no watched directory covers is only ever read through its position.\<close>

lemma handle_path_unadopted:
  assumes "ts_positions s p = None" "find_matching_config p cfgs dirs = None"
  shows "snd (snd (handle_path fs cfgs dirs kind p s ch)) = ch"
    "ts_positions (fst (snd (handle_path fs cfgs dirs kind p s ch))) p = None"
  using assms
  by (auto simp: handle_path_def handle_modify_def handle_create_def split: option.splits)

lemma handle_paths_unadopted:
  assumes "find_matching_config p cfgs dirs = None"
  shows "ts_positions s p = None \<Longrightarrow> set ps \<subseteq> {p} \<Longrightarrow>
    snd (snd (handle_paths fs cfgs dirs kind ps s ch)) = ch
    \<and> ts_positions (fst (snd (handle_paths fs cfgs dirs kind ps s ch))) p = None"
proof (induction ps arbitrary: s)
  case (Cons q ps)
  then have q: "q = p" by simp
  obtain f s' ch' where h: "handle_path fs cfgs dirs kind p s ch = (f, s', ch')" by (metis prod_cases3)
  with handle_path_unadopted [OF Cons.prems(1) assms, of fs kind ch]
  have "ch' = ch" "ts_positions s' p = None" by simp_all
  then show ?case using Cons q h by (cases f) simp_all
qed simp

section \<open>Bounded waiting\<close>

lemma stability_checks_le: "stability_checks k sizes l \<le> k"
  by (induction k sizes l rule: stability_checks.induct) (auto split: list.splits option.splits)

lemma stability_empty:
  "set sizes \<subseteq> {None, Some 0} \<Longrightarrow> stability_checks k sizes 0 = k"
proof (induction k arbitrary: sizes)
  case (Suc k)
  then show ?case by (cases sizes) auto
qed simp

section \<open>What a tailed file yields\<close>



text \<open>
  C15: A line read before it is complete loses a byte. When the file ends in the middle of a line at a
  read, the position is put one byte past its end; the next read starts behind the first byte that was
  appended, so the rest of the line is delivered as a line of its own without that byte.
\<close>

theorem partial_line_loses_a_byte:
  assumes "file_name p \<noteq> None" "unterminated c" "CR \<notin> set c" "utf8_ok c" "utf8_ok x"
    and "watch_ok (with_files [p] file_tailer_new) = Inr ()"
  shows "\<exists>t s ch. tailer_start watch_ok (one_file p c)
        [Delivered (one_file p (c @ b # x)) (data_event p)] None (with_files [p] file_tailer_new) = Inr (t, s, ch)
    \<and> ch_sent ch = map Inr (tail_lines p 0 (lines c) @ tail_lines p (length c + 1) (lines x))"
proof -
  let ?t = "with_files [p] file_tailer_new"
  let ?ch = "sends \<lparr> ch_sent = [], ch_left = None \<rparr> (map Inr (tail_lines p 0 (lines c)))"
  let ?s = "\<lparr> ts_positions = [p \<mapsto> length c + 1], ts_tailed = {p} \<rparr>"
  have span: "lines_span c = length c + 1"
    using lines_span_size [of c] crlf_count_noCR [OF assms(3)] assms(2) by simp
  have "read_from (one_file p c) p 0 = Inr c" using assms(4) by (simp add: read_from_def one_file_def)
  then have init: "initial_reads (one_file p c) ?t \<lparr> ch_sent = [], ch_left = None \<rparr> = (?s, ?ch)"
    by (simp add: with_files_def file_tailer_new_def initial_reads_def read_existing_open open_chan_def
        tailer_state_new_def report_def span)
  have op: "open_chan ?ch" by (simp add: sends_def open_chan_def)
  have "read_from (one_file p (c @ b # x)) p (length c + 1) = Inr x"
    using assms(5) by (simp add: read_from_def one_file_def)
  then have "handle_event (one_file p (c @ b # x)) cfgs dirs (data_event p) ?s ?ch =
      (Inr (), ?s \<lparr> ts_positions := [p \<mapsto> length c + 1 + lines_span x] \<rparr>,
       sends ?ch (map Inr (tail_lines p (length c + 1) (lines x))))" for cfgs dirs
    using assms(1) handle_modify_open [of ?ch ?s p "length c + 1" "one_file p (c @ b # x)" x] op
    by (simp add: handle_data_event)
  then show ?thesis
    using init assms(6) by (simp add: tailer_start_def report_def) (simp add: with_files_def file_tailer_new_def)
qed

theorem partial_line_loses_a_byte_witness:
  "\<exists>t s ch. tailer_start (\<lambda>_. Inr ()) (one_file ''/l/a.log'' ''par'')
      [Delivered (one_file ''/l/a.log'' (''par'' @ CHR ''t'' # ''ial'' @ [LF])) (data_event ''/l/a.log'')] None
      (with_files [''/l/a.log''] file_tailer_new) = Inr (t, s, ch)
    \<and> map (map_sum id tl_line) (ch_sent ch) = [Inr ''par'', Inr ''ial'']"
proof -
  have f: "file_name ''/l/a.log'' \<noteq> None" by code_simp
  have u: "unterminated ''par''" "utf8_ok ''par''" "utf8_ok (''ial'' @ [LF])" by code_simp+
  have c: "CR \<notin> set ''par''" by code_simp
  have l: "lines ''par'' = [''par'']" "lines (''ial'' @ [LF]) = [''ial'']" by code_simp+
  from partial_line_loses_a_byte [OF f u(1) c u(2,3), of "\<lambda>_. Inr ()" "CHR ''t''"] l show ?thesis by auto
qed

end
