(* ===== verification/Daemon.thy ===== *)
theory Daemon
  imports Scanner Tailer Config KeysCli
begin

text \<open>
  The daemon and the start of the program: process supervision by a PID file
  (\<open>src/src/daemon/process.rs\<close>), the daemon's loop (\<open>src/src/daemon/run.rs\<close>), config loading
  (\<open>src/src/setup.rs\<close>) and the choice of a mode (\<open>src/src/main.rs\<close>). The loop is composed of the
  tailer, the line channel and the scanner as the code composes them.
\<close>

section \<open>The PID file\<close>

text \<open>
  What the process sees of its machine. \<open>os_create\<close> says whether a file can be created, \<open>os_write\<close>
  whether it can be written; \<open>os_mkdir_all\<close> yields the directories it created. \<open>os_ps\<close> is the exit of
  \<open>ps -p\<close>, \<open>None\<close> when \<open>ps\<close> cannot be run.
\<close>

record os_view =
  os_pid_env :: "path option"
  os_temp_dir :: path
  os_pid :: "32 word"
  os_files :: "path \<Rightarrow> string option"
  os_dirs :: "path set"
  os_create :: "path \<Rightarrow> bool"
  os_write :: "path \<Rightarrow> string + unit"
  os_mkdir_all :: "path \<Rightarrow> string + path set"
  os_ps :: "nat \<Rightarrow> bool option"

definition default_pid_file :: path where "default_pid_file = ''/run/sentinel.pid''"

definition u32_max :: nat where "u32_max = 4294967295"

text \<open>\<open>Path::parent\<close>.\<close>

definition path_of :: "string list \<Rightarrow> path" where
  "path_of cs =
     (case cs of
        [] \<Rightarrow> []
      | c # ds \<Rightarrow> if c = ''/'' then c @ join ''/'' ds else join ''/'' cs)"

definition path_parent :: "path \<Rightarrow> path option" where
  "path_parent p =
     (case rev (components p) of [] \<Rightarrow> None | c # cs \<Rightarrow> if c = ''/'' then None else Some (path_of (rev cs)))"

definition fallback_pid_file :: "os_view \<Rightarrow> path" where
  "fallback_pid_file s = path_join (os_temp_dir s) ''sentinel.pid''"

definition probe_file :: "os_view \<Rightarrow> path \<Rightarrow> path" where
  "probe_file s dir = path_join dir (''.sentinel-probe-'' @ show_nat (unat (os_pid s)))"

text \<open>The probe is created (truncating a file of that name) and removed again.\<close>

definition dir_is_writable :: "path \<Rightarrow> os_view \<Rightarrow> bool \<times> os_view" where
  "dir_is_writable dir s =
     (if os_create s (probe_file s dir)
      then (True, s \<lparr> os_files := (os_files s)(probe_file s dir := None) \<rparr>) else (False, s))"

definition resolve_pid_file :: "path \<Rightarrow> os_view \<Rightarrow> path \<times> os_view" where
  "resolve_pid_file primary s =
     (case (case path_parent primary of
              None \<Rightarrow> (False, s)
            | Some dir \<Rightarrow> if dir \<in> os_dirs s then dir_is_writable dir s else (False, s)) of
        (usable, s') \<Rightarrow> (if usable then primary else fallback_pid_file s, s'))"

definition pid_file_path :: "os_view \<Rightarrow> path \<times> os_view" where
  "pid_file_path s =
     (case os_pid_env s of None \<Rightarrow> resolve_pid_file default_pid_file s | Some p \<Rightarrow> (p, s))"

definition is_daemon_running_at :: "path \<Rightarrow> os_view \<Rightarrow> bool" where
  "is_daemon_running_at p s =
     (case os_files s p of
        None \<Rightarrow> False
      | Some content \<Rightarrow>
          utf8_ok content
          \<and> (case parse_uint u32_max (trim content) of
               None \<Rightarrow> False | Some pid \<Rightarrow> os_ps s pid = Some True))"

definition is_daemon_running :: "os_view \<Rightarrow> bool \<times> os_view" where
  "is_daemon_running s = (case pid_file_path s of (p, s') \<Rightarrow> (is_daemon_running_at p s', s'))"

definition daemon_args :: "path \<Rightarrow> string list" where
  "daemon_args config_path = [''--daemon'', ''--config'', config_path]"

text \<open>
  \<open>ensure_daemon_running\<close>. \<open>spawn\<close> starts the program with arguments; its result is the machine as it
  is 500 ms later.
\<close>

definition ensure_daemon_running ::
  "string + path \<Rightarrow> (path \<Rightarrow> string list \<Rightarrow> os_view \<Rightarrow> string + os_view) \<Rightarrow> path \<Rightarrow> os_view \<Rightarrow>
   (sentinel_error + unit) \<times> os_view" where
  "ensure_daemon_running current_exe spawn config_path s =
     (case is_daemon_running s of
        (True, s1) \<Rightarrow> (Inr (), s1)
      | (False, s1) \<Rightarrow>
          (case current_exe of
             Inl e \<Rightarrow> (Inl (Io e), s1)
           | Inr exe \<Rightarrow>
               (case spawn exe (daemon_args config_path) s1 of
                  Inl e \<Rightarrow> (Inl (ServiceError (''Failed to start daemon: '' @ e)), s1)
                | Inr s2 \<Rightarrow>
                    (case is_daemon_running s2 of
                       (True, s3) \<Rightarrow> (Inr (), s3)
                     | (False, s3) \<Rightarrow> (Inl (ServiceError ''Daemon failed to start''), s3)))))"

definition write_pid_file_at :: "path \<Rightarrow> os_view \<Rightarrow> (sentinel_error + unit) \<times> os_view" where
  "write_pid_file_at p s =
     (case (case path_parent p of None \<Rightarrow> Inr {} | Some parent \<Rightarrow> os_mkdir_all s parent) of
        Inl e \<Rightarrow> (Inl (Io e), s)
      | Inr ds \<Rightarrow>
          (let s1 = s \<lparr> os_dirs := os_dirs s \<union> ds \<rparr>
           in case os_write s1 p of
                Inl e \<Rightarrow> (Inl (Io e), s1)
              | Inr _ \<Rightarrow> (Inr (), s1 \<lparr> os_files := (os_files s1)(p \<mapsto> show_nat (unat (os_pid s1))) \<rparr>)))"

definition write_pid_file :: "os_view \<Rightarrow> (sentinel_error + unit) \<times> os_view" where
  "write_pid_file s = (case pid_file_path s of (p, s') \<Rightarrow> write_pid_file_at p s')"

text \<open>The result of the removal is ignored; here it removes the file when the file can be removed.\<close>

definition remove_pid_file_at :: "(path \<Rightarrow> bool) \<Rightarrow> path \<Rightarrow> os_view \<Rightarrow> os_view" where
  "remove_pid_file_at removable p s =
     (if removable p then s \<lparr> os_files := (os_files s)(p := None) \<rparr> else s)"

definition remove_pid_file :: "(path \<Rightarrow> bool) \<Rightarrow> os_view \<Rightarrow> os_view" where
  "remove_pid_file removable s = (case pid_file_path s of (p, s') \<Rightarrow> remove_pid_file_at removable p s')"

section \<open>The daemon's loop\<close>

definition build_tailer ::
  "(string \<Rightarrow> string + (string \<Rightarrow> bool)) \<Rightarrow> config \<Rightarrow> sentinel_error + file_tailer" where
  "build_tailer compile cfg = from_watch_config compile (cf_log_watching cfg)"

text \<open>\<open>Drop\<close> of a tailer cancels its token.\<close>

definition file_tailer_drop :: "file_tailer \<Rightarrow> file_tailer" where
  "file_tailer_drop t = t \<lparr> ft_watching := False, ft_cancelled := True \<rparr>"

text \<open>
  The turns of the tailing loop: what was delivered \<open>early\<close>, while the statement that starts the
  tailer is executed, and what comes \<open>later\<close>, when the loop meets the tailer as that statement left it.
\<close>

definition loop_turns :: "file_tailer \<Rightarrow> loop_input list \<Rightarrow> loop_input list \<Rightarrow> loop_input list" where
  "loop_turns t early later = early @ (if ft_cancelled t then [Cancelled] else []) @ later"

text \<open>
  The scanner's side of the line channel: at each poll the oldest event is ready or not yet; a
  closed or empty channel gives none.
\<close>

record poll =
  po_ready :: bool
  po_cancelled :: bool
  po_tick :: bool

fun feed :: "tail_event list \<Rightarrow> poll list \<Rightarrow> poll_view list" where
  "feed es [] = []"
| "feed [] (p # ps) = \<lparr> pv_event = None, pv_cancelled = po_cancelled p, pv_tick = po_tick p \<rparr> # feed [] ps"
| "feed (e # es) (p # ps) =
     (if po_ready p
      then \<lparr> pv_event = Some e, pv_cancelled = po_cancelled p, pv_tick = po_tick p \<rparr> # feed es ps
      else \<lparr> pv_event = None, pv_cancelled = po_cancelled p, pv_tick = po_tick p \<rparr> # feed (e # es) ps)"

text \<open>\<open>build_pipeline\<close> with the scanner's constants.\<close>

definition daemon_scan_config :: "parse_env \<Rightarrow> config \<Rightarrow> db_resolver scan_config" where
  "daemon_scan_config env cfg =
     \<lparr> cg_env = env, cg_filter = noise_from_config (cf_noise_filter cfg), cg_resolve = db_resolve,
       cg_batch_size = batch_size_default, cg_timer = True \<rparr>"

definition daemon_scan_state :: "services_db \<Rightarrow> log_db \<Rightarrow> (db_resolver, log_db) scan_state" where
  "daemon_scan_state sdb ldb =
     \<lparr> sc_batch = [], sc_resolver = db_resolver_new sdb, sc_sink = ldb \<rparr>"

text \<open>
  \<open>daemon_loop\<close>. The tailer is a temporary of the statement that starts it, so it is dropped at the
  end of that statement, before the scanner runs.
\<close>

definition daemon_loop ::
  "(string \<Rightarrow> string + (string \<Rightarrow> bool)) \<Rightarrow> (file_tailer \<Rightarrow> sentinel_error + unit) \<Rightarrow> parse_env \<Rightarrow> config \<Rightarrow>
   fs_view \<Rightarrow> loop_input list \<Rightarrow> loop_input list \<Rightarrow> poll list \<Rightarrow> services_db \<Rightarrow> log_db \<Rightarrow>
   sentinel_error + bool \<times> (db_resolver, log_db) scan_state" where
  "daemon_loop compile watch_ok env cfg fs early later polls sdb ldb =
     and_then (build_tailer compile cfg) (\<lambda>t.
     and_then (tailer_start watch_ok fs (loop_turns (file_tailer_drop t) early later) None t)
       (\<lambda>(_, _, rx). Inr (scan_run (daemon_scan_config env cfg) repository_sink (feed (ch_sent rx) polls)
                           (daemon_scan_state sdb ldb))))"

text \<open>
  \<open>run_daemon\<close>: after the PID file is written the process waits for a signal or for its task;
  \<open>ended\<close> is the machine as it is then. In every case the PID file is removed.
\<close>

definition run_daemon ::
  "(path \<Rightarrow> bool) \<Rightarrow> (os_view \<Rightarrow> os_view) \<Rightarrow> os_view \<Rightarrow> (sentinel_error + unit) \<times> os_view" where
  "run_daemon removable ended s =
     (case write_pid_file s of
        (Inl e, s1) \<Rightarrow> (Inl e, s1)
      | (Inr _, s1) \<Rightarrow> (Inr (), remove_pid_file removable (ended s1)))"

section \<open>Starting the program\<close>

definition load_config ::
  "(path \<Rightarrow> bool) \<Rightarrow> (path \<Rightarrow> string + string) \<Rightarrow> (string \<Rightarrow> string + config) \<Rightarrow> (path \<Rightarrow> string) \<Rightarrow>
   path \<Rightarrow> sentinel_error + config" where
  "load_config exists read_to_string from_yaml display p =
     (if exists p then
        (if \<not> utf8_ok p
         then Inl (ConfigError (''config path '' @ [CHR 0x27] @ display p @ [CHR 0x27] @ '' is not valid UTF-8''))
         else config_load read_to_string from_yaml p)
      else Inr default_config)"

record cli =
  cli_tui :: bool
  cli_daemon :: bool
  cli_hub :: bool
  cli_agent :: bool
  cli_config :: path
  cli_command :: "hub_key_action option"

text \<open>The \<open>conflicts_with_all\<close> of the flags: what clap lets through.\<close>

definition cli_accepted :: "cli \<Rightarrow> bool" where
  "cli_accepted c \<longleftrightarrow>
     \<not> (cli_tui c \<and> (cli_daemon c \<or> cli_hub c \<or> cli_agent c))
     \<and> \<not> (cli_hub c \<and> (cli_daemon c \<or> cli_tui c \<or> cli_agent c))
     \<and> \<not> (cli_agent c \<and> (cli_daemon c \<or> cli_tui c \<or> cli_hub c))"

text \<open>What \<open>run\<close> starts: the agent without a database, a key command, or a mode on a pool.\<close>

datatype 'pool started =
    StartAgent config
  | StartHubKey hub_key_action string
  | StartTui config 'pool
  | StartHub config 'pool
  | StartDaemon config 'pool

definition main_run ::
  "(path \<Rightarrow> sentinel_error + config) \<Rightarrow> string option \<Rightarrow> (string \<Rightarrow> sentinel_error + 'pool) \<Rightarrow>
   (path \<Rightarrow> sentinel_error + unit) \<Rightarrow> cli \<Rightarrow> sentinel_error + 'pool started" where
  "main_run load database_url pool ensure c =
     and_then (load (cli_config c)) (\<lambda>cfg.
       if cli_agent c then Inr (StartAgent cfg)
       else and_then (ok_or (ConfigError ''DATABASE_URL environment variable not set'') database_url) (\<lambda>url.
         case cli_command c of
           Some action \<Rightarrow> Inr (StartHubKey action url)
         | None \<Rightarrow>
             and_then (pool url) (\<lambda>p.
               if cli_tui c then and_then (ensure (cli_config c)) (\<lambda>_. Inr (StartTui cfg p))
               else if cli_hub c then Inr (StartHub cfg p)
               else Inr (StartDaemon cfg p))))"

section \<open>Facts about the PID file\<close>

lemma trim_digits:
  assumes "list_all is_ascii_digit ds"
  shows "trim ds = ds"
proof (rule trim_visible)
  have "visible c" if "c \<in> set ds" for c
    using that assms by (auto simp: list_all_iff visible_def is_ascii_digit_def in_range_def)
  then show "ds = [] \<or> visible (hd ds) \<and> visible (last ds)"
    by (cases "ds = []") simp_all
qed

lemma utf8_digits: "list_all is_ascii_digit ds \<Longrightarrow> utf8_ok ds"
proof (induction ds)
  case Nil
  then show ?case by (simp add: utf8_ok.simps [of "[]"])
next
  case (Cons c ds)
  then have "byte c < 128" by (simp add: is_ascii_digit_def in_range_def)
  with Cons show ?case by (subst utf8_ok.simps) simp
qed

lemma pid_text: "parse_uint u32_max (trim (show_nat (unat (w :: 32 word)))) = Some (unat w)"
proof -
  have "unat w < 2 ^ 32" using unsigned_less [of w, where 'a = nat] by simp
  then have "unat w \<le> u32_max" by (simp add: u32_max_def)
  then show ?thesis using show_nat_digits [of "unat w"] by (simp add: trim_digits parse_uint_show_nat)
qed

lemma running_own_pid:
  "os_files s p = Some (show_nat (unat (os_pid s))) \<Longrightarrow>
   is_daemon_running_at p s \<longleftrightarrow> os_ps s (unat (os_pid s)) = Some True"
  using show_nat_digits [of "unat (os_pid s)"]
  by (simp add: is_daemon_running_at_def pid_text utf8_digits)

text \<open>Looking up the path twice gives the same path and changes nothing further.\<close>

lemma dir_is_writable_again:
  "dir_is_writable d s = (b, s') \<Longrightarrow> dir_is_writable d s' = (b, s')"
  by (auto simp: dir_is_writable_def probe_file_def fun_upd_idem split: if_splits)

lemma dir_is_writable_frame:
  "dir_is_writable d s = (b, s') \<Longrightarrow>
   os_dirs s' = os_dirs s \<and> os_temp_dir s' = os_temp_dir s \<and> os_pid_env s' = os_pid_env s
   \<and> os_pid s' = os_pid s \<and> os_ps s' = os_ps s"
  by (auto simp: dir_is_writable_def split: if_splits)

lemma resolve_pid_file_again:
  assumes "resolve_pid_file q s = (p, s')"
  shows "resolve_pid_file q s' = (p, s') \<and> os_pid_env s' = os_pid_env s"
proof (cases "\<exists>d. path_parent q = Some d \<and> d \<in> os_dirs s")
  case True
  then obtain d where d: "path_parent q = Some d" "d \<in> os_dirs s" by blast
  obtain b s1 where w: "dir_is_writable d s = (b, s1)" by force
  have "p = (if b then q else fallback_pid_file s)" "s' = s1"
    using assms d w by (simp_all add: resolve_pid_file_def)
  with d dir_is_writable_again [OF w] dir_is_writable_frame [OF w] show ?thesis
    by (simp add: resolve_pid_file_def fallback_pid_file_def)
next
  case False
  with assms show ?thesis by (auto simp: resolve_pid_file_def split: option.splits)
qed

lemma pid_file_path_again: "pid_file_path s = (p, s') \<Longrightarrow> pid_file_path s' = (p, s')"
  using resolve_pid_file_again [of default_pid_file s p s']
  by (simp add: pid_file_path_def split: option.splits)

lemma is_daemon_running_again:
  "is_daemon_running s = (b, s') \<Longrightarrow> is_daemon_running s' = (b, s')"
  by (auto simp: is_daemon_running_def pid_file_path_again split: prod.splits)

text \<open>
  The PID file tells whether its writer lives. After \<open>write_pid_file_at\<close> has succeeded, the
  liveness check at that path is exactly the answer of \<open>ps\<close> for the writer's id, whatever the id; after
  the removal the check is negative.
\<close>

lemma pid_file_roundtrip:
  assumes "write_pid_file_at p s = (Inr (), s')"
  shows "is_daemon_running_at p s' = (os_ps s (unat (os_pid s)) = Some True)
    \<and> (removable p \<longrightarrow> \<not> is_daemon_running_at p (remove_pid_file_at removable p s'))"
proof -
  have f: "os_files s' p = Some (show_nat (unat (os_pid s')))" "os_ps s' = os_ps s" "os_pid s' = os_pid s"
    using assms by (auto simp: write_pid_file_at_def Let_def split: sum.splits option.splits)
  have "removable p \<Longrightarrow> \<not> is_daemon_running_at p (remove_pid_file_at removable p s')"
    by (simp add: is_daemon_running_at_def remove_pid_file_at_def)
  with f running_own_pid [OF f(1)] show ?thesis by simp
qed

definition sample_os :: os_view where
  "sample_os =
     \<lparr> os_pid_env = Some ''/tmp/s.pid'', os_temp_dir = ''/tmp'', os_pid = 4711, os_files = Map.empty,
       os_dirs = {''/tmp''}, os_create = (\<lambda>_. True), os_write = (\<lambda>_. Inr ()),
       os_mkdir_all = (\<lambda>_. Inr {}), os_ps = (\<lambda>pid. Some (pid = 4711 \<or> pid = 815)) \<rparr>"

lemma pid_file_roundtrip_witness:
  "is_daemon_running_at ''/tmp/s.pid'' (snd (write_pid_file_at ''/tmp/s.pid'' sample_os))
   \<and> \<not> is_daemon_running_at ''/tmp/s.pid''
         (remove_pid_file_at (\<lambda>_. True) ''/tmp/s.pid'' (snd (write_pid_file_at ''/tmp/s.pid'' sample_os)))"
proof -
  have "write_pid_file_at ''/tmp/s.pid'' sample_os =
      (Inr (), snd (write_pid_file_at ''/tmp/s.pid'' sample_os))"
    by (simp add: write_pid_file_at_def sample_os_def Let_def split: option.split)
  from pid_file_roundtrip [OF this, of "\<lambda>_. True"] show ?thesis by (simp add: sample_os_def)
qed

text \<open>
  \<open>ensure_daemon_running\<close> succeeds only when a live process holds the PID file afterwards. When one
  held it before, nothing is started; otherwise the one program started is the current executable
  with \<open>--daemon --config\<close> and the caller's config path.
\<close>

lemma ensure_daemon_running_sound:
  assumes "ensure_daemon_running exe spawn cfg_path s = (Inr (), s')"
  shows "is_daemon_running s' = (True, s')
    \<and> (is_daemon_running s = (True, s')
       \<or> (\<exists>e s1 s2. exe = Inr e \<and> is_daemon_running s = (False, s1)
            \<and> spawn e [''--daemon'', ''--config'', cfg_path] s1 = Inr s2
            \<and> is_daemon_running s2 = (True, s')))"
  using assms is_daemon_running_again
  by (auto simp: ensure_daemon_running_def daemon_args_def split: prod.splits bool.splits sum.splits)

lemma ensure_daemon_running_sound_witness:
  "is_daemon_running (snd (ensure_daemon_running (Inr ''/bin/sentinel'')
       (\<lambda>_ _ s. Inr (s \<lparr> os_files := [''/tmp/s.pid'' \<mapsto> show_nat (unat (os_pid s))] \<rparr>)) ''c.yaml'' sample_os))
   = (True, snd (ensure_daemon_running (Inr ''/bin/sentinel'')
       (\<lambda>_ _ s. Inr (s \<lparr> os_files := [''/tmp/s.pid'' \<mapsto> show_nat (unat (os_pid s))] \<rparr>)) ''c.yaml'' sample_os))"
proof -
  let ?spawn = "\<lambda>(_ :: path) (_ :: string list) (s :: os_view).
    (Inr (s \<lparr> os_files := [''/tmp/s.pid'' \<mapsto> show_nat (unat (os_pid s))] \<rparr>) :: string + os_view)"
  let ?s2 = "sample_os \<lparr> os_files := [''/tmp/s.pid'' \<mapsto> show_nat (unat (os_pid sample_os))] \<rparr>"
  have 1: "is_daemon_running sample_os = (False, sample_os)"
    by (simp add: is_daemon_running_def pid_file_path_def is_daemon_running_at_def sample_os_def)
  have "is_daemon_running_at ''/tmp/s.pid'' ?s2"
    by (subst running_own_pid) (simp_all add: sample_os_def)
  then have 2: "is_daemon_running ?s2 = (True, ?s2)"
    by (simp add: is_daemon_running_def pid_file_path_def sample_os_def)
  have "ensure_daemon_running (Inr ''/bin/sentinel'') ?spawn ''c.yaml'' sample_os = (Inr (), ?s2)"
    by (simp only: ensure_daemon_running_def 1 2 prod.case bool.case sum.case)
  from ensure_daemon_running_sound [OF this] this show ?thesis by simp
qed

text \<open>
  A second daemon hides the first. The daemon does not look whether a live daemon already holds
  the PID file: it overwrites the file and removes it when it stops. Then no daemon is visible any
  more although the first one is still alive, and the terminal interface would start a third.
\<close>

lemma second_daemon_hides_the_first:
  assumes "is_daemon_running s = (True, s)" "os_pid_env s = Some p" "removable p"
    and "run_daemon removable (\<lambda>m. m) s = (Inr (), s')"
  shows "os_ps s' = os_ps s \<and> \<not> fst (is_daemon_running s')"
proof -
  obtain s1 where w: "write_pid_file s = (Inr (), s1)" "s' = remove_pid_file removable s1"
    using assms(4) by (auto simp: run_daemon_def split: prod.splits sum.splits)
  then have "os_pid_env s1 = Some p" "os_ps s1 = os_ps s"
    using assms(2)
    by (auto simp: write_pid_file_def pid_file_path_def write_pid_file_at_def Let_def
        split: sum.splits option.splits)
  then show ?thesis
    using w(2) assms(3)
    by (simp add: remove_pid_file_def pid_file_path_def remove_pid_file_at_def is_daemon_running_def
        is_daemon_running_at_def)
qed

lemma second_daemon_hides_the_first_witness:
  "os_ps sample_os 815 = Some True
   \<and> \<not> fst (is_daemon_running (snd (run_daemon (\<lambda>_. True) (\<lambda>m. m)
            (sample_os \<lparr> os_files := [''/tmp/s.pid'' \<mapsto> show_nat 815] \<rparr>))))"
proof -
  let ?s = "sample_os \<lparr> os_files := [''/tmp/s.pid'' \<mapsto> show_nat 815] \<rparr>"
  have "parse_uint u32_max (trim (show_nat 815)) = Some 815" "utf8_ok (show_nat 815)"
    using show_nat_digits [of 815]
    by (simp_all add: trim_digits utf8_digits parse_uint_show_nat u32_max_def)
  then have "is_daemon_running ?s = (True, ?s)"
    by (simp add: is_daemon_running_def pid_file_path_def is_daemon_running_at_def sample_os_def)
  moreover have "os_pid_env ?s = Some ''/tmp/s.pid''" by (simp add: sample_os_def)
  moreover have "run_daemon (\<lambda>_. True) (\<lambda>m. m) ?s = (Inr (), snd (run_daemon (\<lambda>_. True) (\<lambda>m. m) ?s))"
    by (simp add: run_daemon_def write_pid_file_def pid_file_path_def write_pid_file_at_def sample_os_def
        Let_def split: option.split)
  ultimately show ?thesis
    using second_daemon_hides_the_first [of ?s "''/tmp/s.pid''" "\<lambda>_. True"] by (simp add: sample_os_def)
qed

section \<open>What the daemon reads\<close>

definition good_lines :: "tail_event list \<Rightarrow> tail_line list" where
  "good_lines es = List.map_filter (case_sum (\<lambda>_. None) Some) es"

lemma good_lines_simps [simp]:
  "good_lines [] = []"
  "good_lines (Inl e # es) = good_lines es"
  "good_lines (Inr l # es) = l # good_lines es"
  "good_lines (es @ es') = good_lines es @ good_lines es'"
  "good_lines (map Inr ls) = ls"
proof -
  show 1: "good_lines [] = []" and 2: "good_lines (Inl e # es) = good_lines es" for e es
    by (simp_all add: good_lines_def map_filter_simps)
  show 3: "good_lines (Inr l # es) = l # good_lines es" for l es
    by (simp add: good_lines_def map_filter_simps)
  show "good_lines (es @ es') = good_lines es @ good_lines es'" for es es'
  proof (induction es)
    case (Cons e es)
    then show ?case using 2 3 by (cases e) simp_all
  qed (use 1 in simp)
  show "good_lines (map Inr ls) = ls" for ls
    by (induction ls) (simp_all add: 1 3)
qed

text \<open>The scanner takes the good lines off the channel in order, up to where it stops.\<close>

lemma taken_feed: "\<exists>k. taken_lines timer (feed es ps) = take k (good_lines es)"
proof (induction es ps rule: feed.induct)
  case (2 p ps)
  then show ?case by (auto simp: select_def split: selected.splits)
next
  case (3 e es p ps)
  show ?case
  proof (cases "po_ready p")
    case True
    then obtain k where k: "taken_lines timer (feed es ps) = take k (good_lines es)" using 3 by blast
    show ?thesis
    proof (cases e)
      case (Inl x)
      with True k show ?thesis by (auto simp: select_def)
    next
      case (Inr l)
      with True k show ?thesis by (intro exI [where x = "Suc k"]) (simp add: select_def)
    qed
  next
    case False
    then obtain k where "taken_lines timer (feed (e # es) ps) = take k (good_lines (e # es))"
      using 3 by blast
    moreover have "\<exists>k. [] = take k (good_lines (e # es))" by (intro exI [where x = 0]) simp
    ultimately show ?thesis using False by (auto simp: select_def split: selected.splits)
  qed
qed simp

text \<open>A cancelled tailer delivers nothing that comes later.\<close>

lemma tail_loop_dropped:
  "tail_loop cfgs dirs (early @ Cancelled # later) s ch = tail_loop cfgs dirs early s ch"
proof (induction early arbitrary: s ch)
  case (Cons i "is")
  then show ?case by (cases i) (simp_all add: case_prod_beta)
qed simp

lemma loop_turns_drop: "loop_turns (file_tailer_drop t) early later = early @ Cancelled # later"
  by (simp add: loop_turns_def file_tailer_drop_def)

lemma tailer_start_dropped:
  "tailer_start watch_ok fs (loop_turns (file_tailer_drop t) early later) left u =
   tailer_start watch_ok fs early left u"
  by (simp add: tailer_start_def loop_turns_drop tail_loop_dropped)

lemma tailer_start_Inr:
  "tailer_start watch_ok fs [] left t = Inr (t', s, ch) \<Longrightarrow>
   (s, ch) = initial_reads fs t \<lparr> ch_sent = [], ch_left = left \<rparr>"
  by (auto simp: tailer_start_def Let_def and_then_Inr_conv split: if_splits prod.splits)

text \<open>
  C30: The daemon does not follow its logs. Whatever happens to the files after the start, every row it
  ever stores or holds comes, in order and once, from the lines that the files held when the tailer
  read them first: the tailer is dropped, and with it its token cancelled, at the end of the statement
  that starts it.
\<close>

theorem daemon_only_reads_existing_lines:
  assumes "daemon_loop compile watch_ok env cfg fs [] later polls sdb ldb = Inr (d, st)"
  shows "\<exists>t k. build_tailer compile cfg = Inr t
    \<and> stored_entries (sc_sink st) @ sc_batch st =
        stored_entries ldb
        @ rows_of_lines (daemon_scan_config env cfg)
            (take k (good_lines (ch_sent (snd (initial_reads fs t \<lparr> ch_sent = [], ch_left = None \<rparr>)))))
            (db_resolver_new sdb)"
proof -
  let ?cg = "daemon_scan_config env cfg"
  obtain t t' s rx where t: "build_tailer compile cfg = Inr t"
    and start: "tailer_start watch_ok fs [] None t = Inr (t', s, rx)"
    and run: "scan_run ?cg repository_sink (feed (ch_sent rx) polls) (daemon_scan_state sdb ldb) = (d, st)"
    using assms
    by (auto simp: daemon_loop_def and_then_Inr_conv tailer_start_dropped)
  obtain k where k: "taken_lines (cg_timer ?cg) (feed (ch_sent rx) polls) = take k (good_lines (ch_sent rx))"
    using taken_feed by blast
  have "rx = snd (initial_reads fs t \<lparr> ch_sent = [], ch_left = None \<rparr>)"
    using tailer_start_Inr [OF start] by (metis snd_conv)
  with k repo_sink.run_conserves [OF run] t show ?thesis
    by (auto simp: daemon_scan_state_def)
qed

text \<open>An empty log that grows after the start.\<close>

definition sample_daemon_config :: config where
  "sample_daemon_config =
     default_config \<lparr> cf_log_watching := \<lparr> lw_directories = [], lw_files = [''/var/log/auth.log''] \<rparr> \<rparr>"

theorem daemon_only_reads_existing_lines_witness:
  "\<exists>d st. daemon_loop (\<lambda>_. Inr (\<lambda>_. True)) (\<lambda>_. Inr ()) sample_parse_env sample_daemon_config
       (one_file ''/var/log/auth.log'' []) [] (grow_inputs ''/var/log/auth.log'' [] [''login'' @ [LF]])
       [\<lparr> po_ready = True, po_cancelled = False, po_tick = True \<rparr>] sample_services_db sample_log_db
       = Inr (d, st)
     \<and> stored_entries (sc_sink st) @ sc_batch st = []"
proof -
  let ?f = "''/var/log/auth.log''"
  let ?go = "daemon_loop (\<lambda>_. Inr (\<lambda>_. True)) (\<lambda>_. Inr ()) sample_parse_env sample_daemon_config
    (one_file ?f []) [] (grow_inputs ?f [] [''login'' @ [LF]])
    [\<lparr> po_ready = True, po_cancelled = False, po_tick = True \<rparr>] sample_services_db sample_log_db"
  let ?t = "with_files [?f] file_tailer_new"
  have t: "build_tailer (\<lambda>_. Inr (\<lambda>_. True)) sample_daemon_config = Inr ?t"
    by (simp add: build_tailer_def from_watch_config_def sample_daemon_config_def)
  have "snd (initial_reads (one_file ?f []) ?t \<lparr> ch_sent = [], ch_left = None \<rparr>) = \<lparr> ch_sent = [], ch_left = None \<rparr>"
    by (simp add: initial_reads_def with_files_def file_tailer_new_def tailer_state_new_def one_file_def
        read_existing_lines_def read_from_def utf8_ok.simps [of "[]"] lines_def report_def)
  moreover have "\<exists>x. ?go = Inr x"
    by (simp add: daemon_loop_def t tailer_start_dropped)
      (simp add: tailer_start_def Let_def case_prod_beta with_files_def file_tailer_new_def)
  then obtain d st where g: "?go = Inr (d, st)" by (metis surj_pair)
  ultimately have "stored_entries (sc_sink st) @ sc_batch st = stored_entries sample_log_db"
    using daemon_only_reads_existing_lines [OF g] t by auto
  with g show ?thesis by (auto simp: stored_entries_def sample_log_db_def)
qed

end
