(* ===== verification/DockerLogs.thy ===== *)
theory DockerLogs
  imports Agent
begin

text \<open>
  Docker container logs at the agent, \<open>src/src/agent/docker_logs.rs\<close>: discovery of the containers,
  reading of what was appended to their logs, the JSON envelopes, and the thread that drains the
  watcher's events. The JSON grammar and chrono's RFC 3339 parser are arguments; what the derived
  deserializers do with a JSON value is modelled.
\<close>

section \<open>JSON values\<close>

datatype json =
    JNull | JBool bool | JNumber string | JString string | JArray "json list"
  | JObject "(string \<times> json) list"

text \<open>
  A field of a struct: repeated (an error), missing, or present. Unknown fields are ignored.
\<close>

datatype field = Repeated | Missing | Present json

definition field_of :: "string \<Rightarrow> (string \<times> json) list \<Rightarrow> field" where
  "field_of k fs =
     (case filter (\<lambda>(k', _). k' = k) fs of [] \<Rightarrow> Missing | [(_, v)] \<Rightarrow> Present v | _ \<Rightarrow> Repeated)"

fun de_string :: "json \<Rightarrow> string option" where
  "de_string (JString s) = Some s"
| "de_string _ = None"

fun de_option_string :: "json \<Rightarrow> string option option" where
  "de_option_string (JString s) = Some (Some s)"
| "de_option_string JNull = Some None"
| "de_option_string _ = None"

definition option_field :: "field \<Rightarrow> string option option" where
  "option_field f = (case f of Repeated \<Rightarrow> None | Missing \<Rightarrow> Some None | Present v \<Rightarrow> de_option_string v)"

definition default_field :: "field \<Rightarrow> string option" where
  "default_field f = (case f of Repeated \<Rightarrow> None | Missing \<Rightarrow> Some [] | Present v \<Rightarrow> de_string v)"

record container_config =
  cc_name :: "string option"
  cc_log_path :: "string option"

definition container_config_new :: "string option option \<Rightarrow> string option option \<Rightarrow> container_config option" where
  "container_config_new n l =
     Option.bind n (\<lambda>n. Option.bind l (\<lambda>l. Some \<lparr> cc_name = n, cc_log_path = l \<rparr>))"

fun de_container_config :: "json \<Rightarrow> container_config option" where
  "de_container_config (JObject fs) =
     container_config_new (option_field (field_of ''name'' fs)) (option_field (field_of ''log_path'' fs))"
| "de_container_config (JArray [n, l]) = container_config_new (de_option_string n) (de_option_string l)"
| "de_container_config _ = None"

record envelope =
  en_log :: string
  en_stream :: string
  en_time :: "string option"

definition envelope_new :: "string option \<Rightarrow> string option \<Rightarrow> string option option \<Rightarrow> envelope option" where
  "envelope_new l s t =
     Option.bind l (\<lambda>l. Option.bind s (\<lambda>s. Option.bind t (\<lambda>t.
       Some \<lparr> en_log = l, en_stream = s, en_time = t \<rparr>)))"

fun de_envelope :: "json \<Rightarrow> envelope option" where
  "de_envelope (JObject fs) =
     envelope_new (default_field (field_of ''log'' fs)) (default_field (field_of ''stream'' fs))
       (option_field (field_of ''time'' fs))"
| "de_envelope (JArray [l, s, t]) = envelope_new (de_string l) (de_string s) (de_option_string t)"
| "de_envelope _ = None"

section \<open>Discovery\<close>

record docker_log_line =
  dl_timestamp_ms :: int
  dl_container :: string
  dl_stream :: string
  dl_message :: string

record tailed =
  ta_name :: string
  ta_log_path :: path
  ta_offset :: nat

text \<open>What a scan of the container tree meets; an entry of the directory may fail to be read.\<close>

record docker_view =
  dk_read_dir :: "path \<Rightarrow> string + (string + path) list"
  dk_read :: "path \<Rightarrow> string option"
  dk_len :: "path \<Rightarrow> nat option"

definition default_docker_root :: path where "default_docker_root = ''/var/lib/docker/containers''"

text \<open>\<open>trim_start_matches\<close> and \<open>trim_end_matches\<close> of a character.\<close>

definition trim_start_char :: "char \<Rightarrow> string \<Rightarrow> string" where
  "trim_start_char c = dropWhile (\<lambda>x. x = c)"

definition trim_end_char :: "char \<Rightarrow> string \<Rightarrow> string" where
  "trim_end_char c s = rev (dropWhile (\<lambda>x. x = c) (rev s))"

definition unwrap_or_default :: "string option \<Rightarrow> string" where
  "unwrap_or_default x = (case x of None \<Rightarrow> [] | Some s \<Rightarrow> s)"

definition docker_entry ::
  "(string \<Rightarrow> json option) \<Rightarrow> docker_view \<Rightarrow> string list \<Rightarrow> string + path \<Rightarrow> tailed list" where
  "docker_entry from_json v names entry =
     (case entry of
        Inl _ \<Rightarrow> []
      | Inr dir \<Rightarrow>
          (case dk_read v (path_join dir ''config.v2.json'') of
             None \<Rightarrow> []
           | Some raw \<Rightarrow>
               (case Option.bind (from_json raw) de_container_config of
                  None \<Rightarrow> []
                | Some cfg \<Rightarrow>
                    (let short = trim_start_char (CHR ''/'') (unwrap_or_default (cc_name cfg))
                     in if short \<notin> set names then []
                        else (case cc_log_path cfg of
                                None \<Rightarrow> []
                              | Some p \<Rightarrow>
                                  [\<lparr> ta_name = short, ta_log_path = p,
                                     ta_offset = (case dk_len v p of None \<Rightarrow> 0 | Some n \<Rightarrow> n) \<rparr>])))))"

definition docker_discover ::
  "(string \<Rightarrow> json option) \<Rightarrow> docker_view \<Rightarrow> path \<Rightarrow> string list \<Rightarrow> string + tailed list" where
  "docker_discover from_json v base names =
     (if names = [] then Inr []
      else map_sum id (\<lambda>es. concat (map (docker_entry from_json v names) es)) (dk_read_dir v base))"

section \<open>Reading\<close>

text \<open>
  \<open>parse_envelope\<close>. The caller is said to fill in the container; \<open>now_ms\<close> is the clock used when the
  envelope has no readable time.
\<close>

record docker_env =
  de_from_json :: "string \<Rightarrow> json option"
  de_rfc3339 :: "string \<Rightarrow> datetime option"
  de_now_ms :: int

definition parse_envelope :: "docker_env \<Rightarrow> string \<Rightarrow> docker_log_line option" where
  "parse_envelope env raw =
     Option.bind (Option.bind (de_from_json env raw) de_envelope) (\<lambda>e.
       if en_log e = [] then None
       else Some
         \<lparr> dl_timestamp_ms =
             (case Option.bind (en_time e) (de_rfc3339 env) of
                None \<Rightarrow> de_now_ms env | Some t \<Rightarrow> timestamp_millis t),
           dl_container = [],
           dl_stream = (if en_stream e = [] then ''stdout'' else en_stream e),
           dl_message = trim_end_char CR (trim_end_char LF (en_log e)) \<rparr>)"

text \<open>
  What an opened log shows: its size when asked for, and its bytes when read, which may be more. Seek
  and read may fail.
\<close>

record log_view =
  lv_size :: "nat option"
  lv_bytes :: string
  lv_seek_ok :: bool
  lv_read_ok :: bool

definition read_new_lines ::
  "docker_env \<Rightarrow> log_view option \<Rightarrow> tailed \<Rightarrow> docker_log_line list \<times> tailed" where
  "read_new_lines env view t =
     (case Option.bind view (\<lambda>v. map_option (Pair v) (lv_size v)) of
        None \<Rightarrow> ([], t)
      | Some (v, len) \<Rightarrow>
          (let t = (if len < ta_offset t then t \<lparr> ta_offset := 0 \<rparr> else t)
           in if len = ta_offset t then ([], t)
              else if \<not> lv_seek_ok v then ([], t)
              else let buf = drop (ta_offset t) (lv_bytes v)
                   in if \<not> lv_read_ok v \<or> \<not> utf8_ok buf then ([], t)
                      else (List.map_filter (parse_envelope env) (lines buf), t \<lparr> ta_offset := len \<rparr>)))"

section \<open>The drain thread\<close>

text \<open>A turn of the thread: what \<open>recv_timeout\<close> returns, and what it then finds in the logs.\<close>

datatype raw_turn = RawEvent "path list" "path \<Rightarrow> log_view option" | RawTimeout | RawDisconnected

record drain_state =
  dr_tailed :: "path \<Rightarrow> tailed option"
  dr_sent :: "docker_log_line list"
  dr_left :: "nat option"

text \<open>\<open>blocking_send\<close> fails once the receiver is gone, after \<open>dr_left\<close> more lines.\<close>

fun send_docker :: "docker_log_line list \<Rightarrow> drain_state \<Rightarrow> bool \<times> drain_state" where
  "send_docker [] s = (True, s)"
| "send_docker (l # ls) s =
     (if dr_left s = Some 0 then (False, s)
      else send_docker ls (s \<lparr> dr_sent := dr_sent s @ [l], dr_left := map_option (\<lambda>n. n - 1) (dr_left s) \<rparr>))"

fun drain_paths ::
  "docker_env \<Rightarrow> (path \<Rightarrow> log_view option) \<Rightarrow> path list \<Rightarrow> drain_state \<Rightarrow> bool \<times> drain_state" where
  "drain_paths env views [] s = (True, s)"
| "drain_paths env views (p # ps) s =
     (case dr_tailed s p of
        None \<Rightarrow> drain_paths env views ps s
      | Some t \<Rightarrow>
          (case read_new_lines env (views (ta_log_path t)) t of
             (ls, t') \<Rightarrow>
               (case send_docker ls (s \<lparr> dr_tailed := (dr_tailed s)(p \<mapsto> t') \<rparr>) of
                  (False, s') \<Rightarrow> (False, s')
                | (True, s') \<Rightarrow> drain_paths env views ps s')))"

text \<open>The loop; the flag of a turn is the token when the loop condition is evaluated.\<close>

fun drain_thread :: "docker_env \<Rightarrow> (bool \<times> raw_turn) list \<Rightarrow> drain_state \<Rightarrow> drain_state" where
  "drain_thread env [] s = s"
| "drain_thread env ((True, _) # ts) s = s"
| "drain_thread env ((False, RawTimeout) # ts) s = drain_thread env ts s"
| "drain_thread env ((False, RawDisconnected) # ts) s = s"
| "drain_thread env ((False, RawEvent ps views) # ts) s =
     (case drain_paths env views ps s of (True, s') \<Rightarrow> drain_thread env ts s' | (False, s') \<Rightarrow> s')"

text \<open>
  \<open>start\<close>: the watcher is a local variable, so it is dropped when the function returns, and with it the
  handler that owns the sender of the raw channel. Events sent \<open>early\<close>, before the return, are still
  delivered; then the channel is disconnected, whatever would come \<open>later\<close>.
\<close>

definition docker_start ::
  "string + unit \<Rightarrow> docker_env \<Rightarrow> (bool \<times> raw_turn) list \<Rightarrow> (bool \<times> raw_turn) list \<Rightarrow> nat option \<Rightarrow> tailed list \<Rightarrow>
   string + drain_state" where
  "docker_start watcher env early later left containers =
     map_sum id (\<lambda>_.
       drain_thread env (early @ (False, RawDisconnected) # later)
         \<lparr> dr_tailed = map_of (rev (map (\<lambda>t. (ta_log_path t, t)) containers)), dr_sent = [], dr_left = left \<rparr>)
       watcher"

definition tail_containers ::
  "string + unit \<Rightarrow> docker_env \<Rightarrow> docker_view \<Rightarrow> (bool \<times> raw_turn) list \<Rightarrow> (bool \<times> raw_turn) list \<Rightarrow> nat option \<Rightarrow>
   path \<Rightarrow> string list \<Rightarrow> string + drain_state" where
  "tail_containers watcher env v early later left base names =
     and_then (docker_discover (de_from_json env) v base names)
       (docker_start watcher env early later left)"

text \<open>
  The agent's side (\<open>src/src/agent/mod.rs\<close>): a pump owns the sender of the loop's channel, forwards the
  lines and ends. When the discovery fails the sender stays with \<open>run\<close>, so the channel remains open and
  empty.
\<close>

definition pending_of :: "docker_log_line \<Rightarrow> pending_line" where
  "pending_of l =
     \<lparr> pn_timestamp_ms = dl_timestamp_ms l, pn_container = dl_container l, pn_stream = dl_stream l,
       pn_message = dl_message l \<rparr>"

definition docker_inputs :: "string + drain_state \<Rightarrow> agent_input list" where
  "docker_inputs r =
     (case r of
        Inl _ \<Rightarrow> []
      | Inr d \<Rightarrow> map (\<lambda>l. DockerLine (pending_of l)) (dr_sent d) @ [DockerClosed])"

section \<open>Facts\<close>

lemma parse_envelope_Some:
  "parse_envelope env raw = Some l \<Longrightarrow> dl_container l = [] \<and> dl_stream l \<noteq> []"
  by (auto simp: parse_envelope_def bind_eq_Some_conv split: if_splits)

lemma in_map_filter: "x \<in> set (List.map_filter f xs) \<longleftrightarrow> (\<exists>y\<in>set xs. f y = Some x)"
  by (induction xs) (auto simp: map_filter_simps split: option.splits)

lemma map_filter_append: "List.map_filter f (xs @ ys) = List.map_filter f xs @ List.map_filter f ys"
  by (induction xs) (auto simp: map_filter_simps split: option.splits)

lemma read_new_lines_container:
  "l \<in> set (fst (read_new_lines env view t)) \<Longrightarrow> dl_container l = []"
  by (auto simp: read_new_lines_def Let_def in_map_filter dest: parse_envelope_Some
      split: option.splits if_splits)

definition unnamed :: "drain_state \<Rightarrow> bool" where
  "unnamed s \<longleftrightarrow> (\<forall>l\<in>set (dr_sent s). dl_container l = [])"

lemma send_docker_unnamed:
  "unnamed s \<Longrightarrow> \<forall>l\<in>set ls. dl_container l = [] \<Longrightarrow> unnamed (snd (send_docker ls s))"
proof (induction ls arbitrary: s)
  case (Cons l ls)
  have "unnamed (s \<lparr> dr_sent := dr_sent s @ [l], dr_left := map_option (\<lambda>n. n - 1) (dr_left s) \<rparr>)"
    using Cons.prems by (auto simp: unnamed_def)
  with Cons show ?case by simp
qed simp

lemma drain_paths_unnamed: "unnamed s \<Longrightarrow> unnamed (snd (drain_paths env views ps s))"
proof (induction ps arbitrary: s)
  case (Cons p ps)
  show ?case
  proof (cases "dr_tailed s p")
    case (Some t)
    obtain ls t' where r: "read_new_lines env (views (ta_log_path t)) t = (ls, t')" by force
    let ?s = "s \<lparr> dr_tailed := (dr_tailed s)(p \<mapsto> t') \<rparr>"
    obtain b s' where d: "send_docker ls ?s = (b, s')" by force
    have "\<forall>l\<in>set ls. dl_container l = []" using read_new_lines_container r by (metis fst_conv)
    moreover have "unnamed ?s" using Cons.prems by (simp add: unnamed_def)
    ultimately have "unnamed s'" using send_docker_unnamed [of ?s ls] d by simp
    with Some r d Cons.IH show ?thesis by (cases b) simp_all
  qed (use Cons in simp)
qed simp

lemma drain_thread_unnamed: "unnamed s \<Longrightarrow> unnamed (drain_thread env ts s)"
proof (induction env ts s rule: drain_thread.induct)
  case (5 env ps views ts s)
  obtain b s' where d: "drain_paths env views ps s = (b, s')" by force
  with drain_paths_unnamed [OF 5(2), of env views ps] have "unnamed s'" by simp
  with 5(1) d show ?case by (cases b) auto
qed simp_all

text \<open>Nothing that comes after the disconnection is looked at.\<close>

lemma drain_thread_disconnected:
  "drain_thread env (early @ (c, RawDisconnected) # later) s = drain_thread env early s"
proof (induction env early s rule: drain_thread.induct)
  case (1 env s)
  then show ?case by (cases c) simp_all
next
  case (5 env ps views ts s)
  then show ?case by (auto split: prod.splits bool.splits)
qed simp_all

lemma tail_containers_Inr:
  assumes "tail_containers watcher env v early later left base names = Inr s"
  obtains ts where "docker_discover (de_from_json env) v base names = Inr ts" "watcher = Inr ()"
    "s = drain_thread env early
       \<lparr> dr_tailed = map_of (rev (map (\<lambda>t. (ta_log_path t, t)) ts)), dr_sent = [], dr_left = left \<rparr>"
  using assms
  by (cases watcher)
    (auto simp: tail_containers_def and_then_Inr_conv docker_start_def drain_thread_disconnected)

lemma tail_containers_unnamed:
  "tail_containers watcher env v early later left base names = Inr s \<Longrightarrow> unnamed s"
  by (erule tail_containers_Inr, simp only:, rule drain_thread_unnamed) (simp add: unnamed_def)

text \<open>What the hub does with a line that has no container.\<close>

lemma unnamed_line_refused:
  "ll_container l = [] \<Longrightarrow> \<exists>e. checked_line ms_ok t host l = Inl e"
  by (simp add: checked_line_def validate_log_line_def container_def check_def sized_token_def)

lemma ingest_refused:
  assumes "\<forall>r\<in>set rs. \<exists>e. r = Inl e"
  shows "is_entries (ingest_all rs db) = [] \<and> is_services (ingest_all rs db) = db"
proof -
  have "is_entries (fold ingest_one rs st) = is_entries st \<and> is_services (fold ingest_one rs st) = is_services st" for st
    using assms by (induction rs arbitrary: st) (auto simp: ingest_one_def)
  then show ?thesis by (simp add: ingest_all_def)
qed

section \<open>A growing log\<close>

definition whole_view :: "string \<Rightarrow> log_view option" where
  "whole_view c = Some \<lparr> lv_size = Some (length c), lv_bytes = c, lv_seek_ok = True, lv_read_ok = True \<rparr>"

text \<open>The log holds \<open>c\<close> and grows chunk by chunk, with one read after each chunk.\<close>

fun read_growth :: "docker_env \<Rightarrow> string \<Rightarrow> string list \<Rightarrow> tailed \<Rightarrow> docker_log_line list \<times> tailed" where
  "read_growth env c [] t = ([], t)"
| "read_growth env c (x # xs) t =
     (case read_new_lines env (whole_view (c @ x)) t of
        (ls, t') \<Rightarrow> map_prod (append ls) id (read_growth env (c @ x) xs t'))"

lemma read_new_lines_chunk:
  assumes "ta_offset t = length c" "utf8_ok x"
  shows "read_new_lines env (whole_view (c @ x)) t =
    (List.map_filter (parse_envelope env) (lines x), t \<lparr> ta_offset := length (c @ x) \<rparr>)"
  using assms
  by (cases "x = []")
    (simp_all add: read_new_lines_def whole_view_def Let_def lines_def map_filter_simps)

lemma read_growth_eq:
  assumes "list_all (\<lambda>x. utf8_ok x \<and> (x = [] \<or> last x = LF)) xs"
  shows "ta_offset t = length c \<Longrightarrow> read_growth env c xs t =
    (List.map_filter (parse_envelope env) (lines (concat xs)), t \<lparr> ta_offset := length c + length (concat xs) \<rparr>)"
  using assms
proof (induction xs arbitrary: c t)
  case Nil
  then show ?case by (simp add: lines_def map_filter_simps)
next
  case (Cons x xs)
  then have x: "utf8_ok x" "x = [] \<or> last x = LF" by simp_all
  let ?t = "t \<lparr> ta_offset := length (c @ x) \<rparr>"
  have "read_growth env (c @ x) xs ?t = (List.map_filter (parse_envelope env) (lines (concat xs)),
      ?t \<lparr> ta_offset := length (c @ x) + length (concat xs) \<rparr>)"
    by (rule Cons.IH) (use Cons.prems in simp_all)
  with read_new_lines_chunk [OF Cons.prems(1) x(1)] lines_append [OF x(2)] show ?case
    by (simp add: map_filter_append add.assoc)
qed

section \<open>Properties\<close>


definition sample_docker_env :: docker_env where
  "sample_docker_env =
     \<lparr> de_from_json = (\<lambda>raw. Some (JObject [(''log'', JString (raw @ [LF]))])), de_rfc3339 = (\<lambda>_. None),
       de_now_ms = 0 \<rparr>"

definition sample_tailed :: tailed where
  "sample_tailed = \<lparr> ta_name = ''app'', ta_log_path = ''/l'', ta_offset = 0 \<rparr>"


text \<open>
  C36: No Docker line is ever stored. The container of a line is never filled in, and the hub refuses a
  line without one: whatever lines of the drain thread a request carries, it leaves the hub's log
  entries and services as they are.
\<close>

theorem docker_lines_never_stored:
  assumes "tail_containers watcher env v early later left base names = Inr s" "set ls \<subseteq> set (dr_sent s)"
  shows "hb_logs (snd (store_logs ms_ok clk host
            \<lparr> lq_lines = map (to_log_line \<circ> pending_of) ls, lq_parsed_lines = [] \<rparr> h)) = hb_logs h
    \<and> hb_services (snd (store_logs ms_ok clk host
            \<lparr> lq_lines = map (to_log_line \<circ> pending_of) ls, lq_parsed_lines = [] \<rparr> h)) = hb_services h"
proof -
  let ?rq = "\<lparr> lq_lines = map (to_log_line \<circ> pending_of) ls, lq_parsed_lines = [] \<rparr>"
  have "\<forall>l\<in>set (lq_lines ?rq). ll_container l = []"
    using tail_containers_unnamed [OF assms(1)] assms(2)
    by (auto simp: unnamed_def to_log_line_def pending_of_def)
  then have "\<forall>r\<in>set (check_request ms_ok clk host ?rq). \<exists>e. r = Inl e"
    by (auto simp: check_request_def unnamed_line_refused dest!: set_zip_rightD)
  from ingest_refused [OF this, of "hb_services h"]
  show ?thesis by (simp add: store_logs_def Let_def)
qed

text \<open>A container whose log gains a line while the tailing is started.\<close>

definition sample_docker_view :: docker_view where
  "sample_docker_view =
     \<lparr> dk_read_dir = (\<lambda>_. Inr [Inr ''/c'']), dk_read = (\<lambda>_. Some ''cfg''), dk_len = (\<lambda>_. Some 0) \<rparr>"

definition sample_config_env :: docker_env where
  "sample_config_env = sample_docker_env \<lparr> de_from_json := (\<lambda>raw.
     if raw = ''cfg'' then Some (JObject [(''name'', JString ''/app''), (''log_path'', JString ''/l'')])
     else Some (JObject [(''log'', JString (raw @ [LF]))])) \<rparr>"

lemma sample_docker_sent:
  "map_sum id dr_sent (tail_containers (Inr ()) sample_config_env sample_docker_view
     [(False, RawEvent [''/l''] (\<lambda>_. whole_view (''hi'' @ [LF])))] [] None default_docker_root [''app'']) =
   Inr [\<lparr> dl_timestamp_ms = 0, dl_container = [], dl_stream = ''stdout'', dl_message = ''hi'' \<rparr>]"
  by code_simp

theorem docker_lines_never_stored_witness:
  "\<forall>h :: unit hub. hb_logs (snd (store_logs (\<lambda>_. True) (\<lambda>_. (0, 0)) ''web1''
      \<lparr> lq_lines = map (to_log_line \<circ> pending_of)
          [\<lparr> dl_timestamp_ms = 0, dl_container = [], dl_stream = ''stdout'', dl_message = ''hi'' \<rparr>],
        lq_parsed_lines = [] \<rparr> h)) = hb_logs h"
proof
  fix h :: "unit hub"
  let ?l = "\<lparr> dl_timestamp_ms = 0, dl_container = [], dl_stream = ''stdout'', dl_message = ''hi'' \<rparr>"
  obtain s where s: "tail_containers (Inr ()) sample_config_env sample_docker_view
     [(False, RawEvent [''/l''] (\<lambda>_. whole_view (''hi'' @ [LF])))] [] None default_docker_root [''app''] = Inr s"
    and l: "dr_sent s = [?l]"
    using sample_docker_sent by (auto simp: map_sum_def split: sum.splits)
  show "hb_logs (snd (store_logs (\<lambda>_. True) (\<lambda>_. (0, 0)) ''web1''
      \<lparr> lq_lines = map (to_log_line \<circ> pending_of) [?l], lq_parsed_lines = [] \<rparr> h)) = hb_logs h"
    by (rule conjunct1 [OF docker_lines_never_stored [OF s]]) (simp add: l)
qed

text \<open>
  The discovery finds no container that Docker has written. Docker spells the keys \<open>Name\<close> and
  \<open>LogPath\<close>; the deserializer asks for \<open>name\<close> and \<open>log_path\<close>. A container is only found when its config
  has the lower-case key, so with configs that do not, and no empty name configured, nothing is
  tailed.
\<close>

lemma docker_discovery_finds_nothing:
  assumes "\<forall>dir raw. dk_read v (path_join dir ''config.v2.json'') = Some raw \<longrightarrow>
      (\<exists>fs. from_json raw = Some (JObject fs) \<and> ''name'' \<notin> fst ` set fs)"
    and "[] \<notin> set names" "docker_discover from_json v base names = Inr ts"
  shows "ts = []"
proof -
  have "docker_entry from_json v names entry = []" for entry
  proof (cases entry)
    case (Inr dir)
    show ?thesis
    proof (cases "dk_read v (path_join dir ''config.v2.json'')")
      case (Some raw)
      then obtain fs where fs: "from_json raw = Some (JObject fs)" "''name'' \<notin> fst ` set fs"
        using assms(1) by blast
      from fs(2) have "filter (\<lambda>(k', _). k' = ''name'') fs = []" by (force simp: filter_empty_conv)
      then have "field_of ''name'' fs = Missing" by (simp add: field_of_def)
      then have "cc_name c = None" if "de_container_config (JObject fs) = Some c" for c
        using that by (auto simp: option_field_def container_config_new_def bind_eq_Some_conv)
      with Inr Some fs(1) assms(2) show ?thesis
        by (auto simp: docker_entry_def unwrap_or_default_def trim_start_char_def Let_def split: option.split)
    qed (simp add: docker_entry_def Inr)
  qed (simp add: docker_entry_def)
  then show ?thesis
    using assms(3) by (auto simp: docker_discover_def map_sum_def split: if_splits sum.splits)
qed

definition sample_docker_json :: "string \<Rightarrow> json option" where
  "sample_docker_json raw =
     Some (JObject [(''Name'', JString ''/app''), (''LogPath'', JString ''/l'')])"

lemma docker_discovery_finds_nothing_witness:
  "docker_discover sample_docker_json sample_docker_view default_docker_root [''app''] = Inr []"
proof -
  have "\<exists>ts. docker_discover sample_docker_json sample_docker_view default_docker_root [''app''] = Inr ts"
    by (simp add: docker_discover_def sample_docker_view_def)
  then obtain ts where ts: "docker_discover sample_docker_json sample_docker_view default_docker_root [''app''] = Inr ts"
    by blast
  from docker_discovery_finds_nothing [OF _ _ ts] have "ts = []" by (simp add: sample_docker_json_def)
  with ts show ?thesis by simp
qed

text \<open>
  Docker forwarding ends when it has begun, and the agent with it. The watcher does not survive
  the function that starts it, so what happens to the logs later changes nothing; and when the
  discovery succeeds, even with no container to tail, the agent takes the lines read until then, after
  which it sends neither metrics nor logs any more and ignores its cancellation.
\<close>

lemma docker_forwarding_wedges_agent:
  assumes "tail_containers watcher env v early [] left base names = Inr d"
    and "agent_run peer cfg (map (\<lambda>l. DockerLine (pending_of l)) (dr_sent d)) s = Some s0"
    and "an_phase s0 = AgentRunning"
  shows "agent_run peer cfg (docker_inputs (tail_containers watcher env v early later left base names) @ after) s
    = Some (s0 \<lparr> an_phase := AgentPending \<rparr>)"
proof -
  have "docker_start watcher env early later left ts = docker_start watcher env early [] left ts" for ts
    by (simp add: docker_start_def drain_thread_disconnected)
  then have "tail_containers watcher env v early later left base names =
      tail_containers watcher env v early [] left base names"
    by (cases "docker_discover (de_from_json env) v base names") (simp_all add: tail_containers_def)
  with assms show ?thesis
    by (simp add: docker_inputs_def agent_run_append agent_step_def agent_stuck)
qed

lemma docker_forwarding_wedges_agent_witness:
  "\<exists>s. an_phase s = AgentRunning
     \<and> agent_run failing_hub (cf_agent sample_agent_config)
         (docker_inputs (tail_containers (Inr ()) sample_config_env sample_docker_view []
            [(False, RawEvent [''/l''] (\<lambda>_. whole_view (''hi'' @ [LF])))] None default_docker_root
            [''app'']) @ [FlushTick, AgentCancelled]) s
       = Some (s \<lparr> an_phase := AgentPending \<rparr>)"
proof -
  obtain s :: "unit agent_state" where s: "an_phase s = AgentRunning" using sample_agent_start by blast
  have "map_sum id dr_sent (tail_containers (Inr ()) sample_config_env sample_docker_view [] [] None
      default_docker_root [''app'']) = Inr []"
    by code_simp
  then obtain d where d: "tail_containers (Inr ()) sample_config_env sample_docker_view [] [] None
      default_docker_root [''app''] = Inr d" "dr_sent d = []"
    by (auto simp: map_sum_def split: sum.splits)
  have "agent_run failing_hub (cf_agent sample_agent_config)
      (map (\<lambda>l. DockerLine (pending_of l)) (dr_sent d)) s = Some s"
    by (simp add: d(2))
  from docker_forwarding_wedges_agent [OF d(1) this s] s show ?thesis by blast
qed

end
