(* ===== verification/LogQuery.thy ===== *)
theory LogQuery
  imports Sources Classifier LogRepo "HOL-Library.Product_Lexorder"
begin

text \<open>
  What the terminal interface reads: the queries of
  \<open>src/src/db/repositories/log_query_repo.rs\<close> over log entries joined with services, and the data
  sources of \<open>src/src/tui/data\<close>, in memory and on Postgres. What the viewer relies on is the locale
  \<open>log_data_source\<close>; both sources interpret it.
\<close>

section \<open>The queries\<close>

record viewer_db = pg +
  vb_services :: "service list"
  vb_entries :: "log_entry list"

record log_entry_row =
  er_id :: uuid
  er_timestamp :: datetime
  er_level :: string
  er_message :: string
  er_raw_line :: "string option"
  er_source_name :: string
  er_threat_level :: string
  er_threat_categories :: "string list"

text \<open>The \<open>WHERE\<close> clause on the service of an entry.\<close>

definition service_matches :: "source_kind \<Rightarrow> string \<Rightarrow> service \<Rightarrow> bool" where
  "service_matches kind n s =
     (case kind of
        Vhost \<Rightarrow> sv_virtual_host s = Some n
      | SystemLog \<Rightarrow> sv_name s = n \<and> sv_virtual_host s = None)"

definition entry_row :: "string \<Rightarrow> log_entry \<Rightarrow> log_entry_row" where
  "entry_row n r =
     (let e = lr_entry r
      in \<lparr> er_id = lr_id r, er_timestamp = le_timestamp e, er_level = le_level e, er_message = le_message e,
           er_raw_line = le_raw_line e, er_source_name = n, er_threat_level = le_threat_level e,
           er_threat_categories = le_threat_categories e \<rparr>)"

definition source_rows :: "source_kind \<Rightarrow> string \<Rightarrow> viewer_db \<Rightarrow> log_entry_row list" where
  "source_rows kind n db =
     concat (map (\<lambda>s. map (entry_row n) (filter (\<lambda>r. le_service_id (lr_entry r) = Some (sv_id s)) (vb_entries db)))
       (filter (service_matches kind n) (vb_services db)))"

definition row_key :: "log_entry_row \<Rightarrow> datetime \<times> uuid" where
  "row_key r = (er_timestamp r, er_id r)"

text \<open>\<open>ORDER BY le.timestamp DESC, le.id DESC\<close>\<close>

definition newest_first :: "log_entry_row list \<Rightarrow> log_entry_row list" where
  "newest_first rs = rev (sort_key row_key rs)"

text \<open>\<open>LIMIT\<close>; Postgres refuses a negative one.\<close>

definition limited :: "int \<Rightarrow> log_entry_row list \<Rightarrow> viewer_db \<Rightarrow> (sentinel_error + log_entry_row list) \<times> viewer_db"
  where
  "limited lmt rs db = (if lmt < 0 then (Inl (db_fail db), db) else (Inr (take (nat lmt) rs), db))"

definition count_entries ::
  "source_kind \<Rightarrow> string list \<Rightarrow> viewer_db \<Rightarrow> (sentinel_error + (string \<times> int) list) \<times> viewer_db" where
  "count_entries kind names = run_query (\<lambda>db.
     (Inr (filter (\<lambda>(_, c). 0 < c)
        (map (\<lambda>n. (n, int (length (source_rows kind n db)))) (remdups names))), db))"

definition recent_entries ::
  "source_kind \<Rightarrow> string \<Rightarrow> int \<Rightarrow> viewer_db \<Rightarrow> (sentinel_error + log_entry_row list) \<times> viewer_db" where
  "recent_entries kind n lmt = run_query (\<lambda>db. limited lmt (newest_first (source_rows kind n db)) db)"

definition newer_entries ::
  "source_kind \<Rightarrow> string \<Rightarrow> datetime \<Rightarrow> uuid \<Rightarrow> int \<Rightarrow> viewer_db \<Rightarrow>
   (sentinel_error + log_entry_row list) \<times> viewer_db" where
  "newer_entries kind n since since_id lmt = run_query (\<lambda>db.
     limited lmt (newest_first (filter (\<lambda>r. (since, since_id) < row_key r) (source_rows kind n db))) db)"

section \<open>The display model\<close>

record display_log_entry =
  dy_id :: uuid
  dy_timestamp :: datetime
  dy_level :: log_level
  dy_threat_level :: threat_level
  dy_message :: string
  dy_raw :: string
  dy_source_name :: string
  dy_threat_categories :: "string list"

record source_info =
  si_source :: source
  si_entry_count :: nat

definition source_info_new :: "source_kind \<Rightarrow> string \<Rightarrow> nat \<Rightarrow> source_info" where
  "source_info_new kind n c =
     \<lparr> si_source = (case kind of Vhost \<Rightarrow> vhost n | SystemLog \<Rightarrow> system_log n), si_entry_count = c \<rparr>"

definition entry_key :: "display_log_entry \<Rightarrow> datetime \<times> uuid" where
  "entry_key e = (dy_timestamp e, dy_id e)"

definition row_to_display :: "log_entry_row \<Rightarrow> display_log_entry" where
  "row_to_display r =
     \<lparr> dy_id = er_id r, dy_timestamp = er_timestamp r, dy_level = level_from_db (er_level r),
       dy_threat_level = threat_level_from_db (er_threat_level r), dy_message = er_message r,
       dy_raw = (case er_raw_line r of None \<Rightarrow> [] | Some s \<Rightarrow> s), dy_source_name = er_source_name r,
       dy_threat_categories = er_threat_categories r \<rparr>"

text \<open>The operations of the trait \<open>LogDataSource\<close>.\<close>

record 'd data_ops =
  do_sources :: "'d \<Rightarrow> (sentinel_error + source_info list) \<times> 'd"
  do_recent :: "source \<Rightarrow> int \<Rightarrow> 'd \<Rightarrow> (sentinel_error + display_log_entry list) \<times> 'd"
  do_newer :: "source \<Rightarrow> datetime \<Rightarrow> uuid \<Rightarrow> int \<Rightarrow> 'd \<Rightarrow> (sentinel_error + display_log_entry list) \<times> 'd"

section \<open>In memory\<close>

record memory_source =
  ms_vhosts :: "source_info list"
  ms_system_logs :: "source_info list"
  ms_entries :: "string \<Rightarrow> display_log_entry list option"

definition memory_new :: memory_source where
  "memory_new = \<lparr> ms_vhosts = [], ms_system_logs = [], ms_entries = Map.empty \<rparr>"

definition with_sources :: "source_info list \<Rightarrow> source_info list \<Rightarrow> memory_source \<Rightarrow> memory_source" where
  "with_sources vs ss m = m \<lparr> ms_vhosts := vs, ms_system_logs := ss \<rparr>"

definition with_entries :: "string \<Rightarrow> display_log_entry list \<Rightarrow> memory_source \<Rightarrow> memory_source" where
  "with_entries n es m = m \<lparr> ms_entries := (ms_entries m)(n \<mapsto> es) \<rparr>"

definition memory_stock :: "memory_source \<Rightarrow> source \<Rightarrow> display_log_entry list" where
  "memory_stock m s = (case ms_entries m (src_name s) of None \<Rightarrow> [] | Some es \<Rightarrow> es)"

text \<open>\<open>take(usize::try_from(limit).unwrap_or(usize::MAX))\<close>\<close>

definition take_limit :: "int \<Rightarrow> 'a list \<Rightarrow> 'a list" where
  "take_limit lmt es = (if lmt < 0 then es else take (nat lmt) es)"

definition memory_ops :: "memory_source data_ops" where
  "memory_ops =
     \<lparr> do_sources = (\<lambda>m. (Inr (ms_vhosts m @ ms_system_logs m), m)),
       do_recent = (\<lambda>s lmt m. (Inr (take_limit lmt (memory_stock m s)), m)),
       do_newer = (\<lambda>s since since_id lmt m.
         (Inr (take_limit lmt (filter (\<lambda>e. (since, since_id) < entry_key e) (memory_stock m s))), m)) \<rparr>"

section \<open>On Postgres\<close>

record pg_source =
  ps_db :: viewer_db
  ps_fs :: dir_view
  ps_glob :: globber
  ps_watching :: log_watching_config

definition partition_by_kind :: "source list \<Rightarrow> source list \<times> source list" where
  "partition_by_kind ss =
     (filter (\<lambda>s. src_kind s = Vhost) ss, filter (\<lambda>s. src_kind s = SystemLog) ss)"

definition counts_for ::
  "source_kind \<Rightarrow> source list \<Rightarrow> viewer_db \<Rightarrow> (sentinel_error + source_info list) \<times> viewer_db" where
  "counts_for kind ss db =
     (if ss = [] then (Inr [], db)
      else (case count_entries kind (map src_name ss) db of
              (Inl e, db') \<Rightarrow> (Inl e, db')
            | (Inr cs, db') \<Rightarrow>
                (Inr (map (\<lambda>s. source_info_new (src_kind s) (src_name s)
                   (case map_of (rev cs) (src_name s) of None \<Rightarrow> 0 | Some c \<Rightarrow> nat c)) ss), db')))"

definition pg_sources :: "pg_source \<Rightarrow> (sentinel_error + source_info list) \<times> pg_source" where
  "pg_sources p =
     (case partition_by_kind (discover (ps_fs p) (ps_glob p) (ps_watching p)) of
        (vs, ss) \<Rightarrow>
          (case counts_for Vhost vs (ps_db p) of
             (Inl e, db) \<Rightarrow> (Inl e, p \<lparr> ps_db := db \<rparr>)
           | (Inr vis, db) \<Rightarrow>
               (case counts_for SystemLog ss db of
                  (Inl e, db') \<Rightarrow> (Inl e, p \<lparr> ps_db := db' \<rparr>)
                | (Inr sis, db') \<Rightarrow> (Inr (vis @ sis), p \<lparr> ps_db := db' \<rparr>))))"

definition displayed ::
  "pg_source \<Rightarrow> (sentinel_error + log_entry_row list) \<times> viewer_db \<Rightarrow>
   (sentinel_error + display_log_entry list) \<times> pg_source" where
  "displayed p x = map_prod (map_sum id (map row_to_display)) (\<lambda>db. p \<lparr> ps_db := db \<rparr>) x"

definition pg_ops :: "pg_source data_ops" where
  "pg_ops =
     \<lparr> do_sources = pg_sources,
       do_recent = (\<lambda>s lmt p. displayed p (recent_entries (src_kind s) (src_name s) lmt (ps_db p))),
       do_newer = (\<lambda>s since since_id lmt p.
         displayed p (newer_entries (src_kind s) (src_name s) since since_id lmt (ps_db p))) \<rparr>"

section \<open>The contract\<close>

text \<open>
  \<open>stock\<close> is everything a source has, newest first. A query is answered from it, or fails, and never
  changes it.
\<close>

locale log_data_source =
  fixes ops :: "'d data_ops" and stock :: "'d \<Rightarrow> source \<Rightarrow> display_log_entry list"
  assumes recent_ok:
      "0 \<le> lmt \<Longrightarrow> do_recent ops s lmt d = (Inr es, d') \<Longrightarrow> es = take (nat lmt) (stock d s)"
    and newer_ok:
      "0 \<le> lmt \<Longrightarrow> do_newer ops s since since_id lmt d = (Inr es, d') \<Longrightarrow>
       es = take (nat lmt) (filter (\<lambda>e. (since, since_id) < entry_key e) (stock d s))"
    and stock_kept: "stock (snd (do_recent ops s lmt d)) = stock d"
      "stock (snd (do_newer ops s since since_id lmt d)) = stock d"
      "stock (snd (do_sources ops d)) = stock d"

interpretation memory: log_data_source memory_ops memory_stock
  by unfold_locales (simp_all add: memory_ops_def take_limit_def)

definition pg_stock :: "pg_source \<Rightarrow> source \<Rightarrow> display_log_entry list" where
  "pg_stock p s = map row_to_display (newest_first (source_rows (src_kind s) (src_name s) (ps_db p)))"

lemma row_to_display_key [simp]: "entry_key (row_to_display r) = row_key r"
  by (simp add: entry_key_def row_key_def row_to_display_def)

lemma newest_first_filter: "newest_first (filter P rs) = filter P (newest_first rs)"
  by (simp add: newest_first_def filter_sort rev_filter [symmetric])

lemma source_rows_tick [simp]: "source_rows kind n (tick db) = source_rows kind n db"
  by (simp add: source_rows_def tick_def)

lemma limited_Inr:
  "limited lmt rs db = (Inr es, db') \<longleftrightarrow> 0 \<le> lmt \<and> es = take (nat lmt) rs \<and> db' = db"
  by (auto simp: limited_def)

lemma snd_limited [simp]: "snd (limited lmt rs db) = db"
  by (simp add: limited_def)

lemma query_rows [simp]:
  "source_rows kind n (snd (recent_entries k m lmt db)) = source_rows kind n db"
  "source_rows kind n (snd (newer_entries k m since since_id lmt db)) = source_rows kind n db"
  "source_rows kind n (snd (count_entries k names db)) = source_rows kind n db"
  by (simp_all add: recent_entries_def newer_entries_def count_entries_def run_query_def case_prod_beta)

lemma counts_for_rows [simp]: "source_rows kind n (snd (counts_for k ss db)) = source_rows kind n db"
proof (cases "count_entries k (map src_name ss) db")
  case (Pair r db')
  then have "source_rows kind n db' = source_rows kind n db"
    using query_rows(3) [of kind n k "map src_name ss" db] by simp
  with Pair show ?thesis by (cases r) (simp_all add: counts_for_def)
qed

lemma pg_sources_rows:
  "source_rows kind n (ps_db (snd (pg_sources p))) = source_rows kind n (ps_db p)"
proof -
  obtain vs ss where part: "partition_by_kind (discover (ps_fs p) (ps_glob p) (ps_watching p)) = (vs, ss)"
    by force
  obtain r db where 1: "counts_for Vhost vs (ps_db p) = (r, db)" by force
  obtain r' db' where 2: "counts_for SystemLog ss db = (r', db')" by force
  from counts_for_rows [of kind n Vhost vs "ps_db p"] counts_for_rows [of kind n SystemLog ss db] 1 2
  show ?thesis by (cases r; cases r') (simp_all add: pg_sources_def part)
qed

interpretation postgres: log_data_source pg_ops pg_stock
proof unfold_locales
  show "es = take (nat lmt) (pg_stock d s)"
    if "do_recent pg_ops s lmt d = (Inr es, d')" for lmt s d es d'
  proof -
    from that obtain rs where "fst (recent_entries (src_kind s) (src_name s) lmt (ps_db d)) = Inr rs"
      "es = map row_to_display rs"
      by (auto simp: pg_ops_def displayed_def map_prod_def map_sum_def split: prod.splits sum.splits)
    then show ?thesis
      by (auto simp: recent_entries_def run_query_def limited_def pg_stock_def take_map
          split: if_splits)
  qed
  show "es = take (nat lmt) (filter (\<lambda>e. (since, since_id) < entry_key e) (pg_stock d s))"
    if "do_newer pg_ops s since since_id lmt d = (Inr es, d')" for lmt s since since_id d es d'
  proof -
    from that obtain rs where
      "fst (newer_entries (src_kind s) (src_name s) since since_id lmt (ps_db d)) = Inr rs"
      "es = map row_to_display rs"
      by (auto simp: pg_ops_def displayed_def map_prod_def map_sum_def split: prod.splits sum.splits)
    then show ?thesis
      by (auto simp: newer_entries_def run_query_def limited_def pg_stock_def take_map
          newest_first_filter filter_map comp_def split: if_splits)
  qed
qed (simp_all add: pg_ops_def pg_stock_def displayed_def fun_eq_iff pg_sources_rows)

text \<open>Both stocks are in order when their rows are: the query sorts, the memory source is told.\<close>

definition newest_order :: "display_log_entry list \<Rightarrow> bool" where
  "newest_order es \<longleftrightarrow> sorted_wrt (\<lambda>a b. entry_key b \<le> entry_key a) es"

lemma pg_stock_order: "newest_order (pg_stock p s)"
proof -
  have "sorted (map row_key (sort_key row_key rs))" for rs by simp
  then show ?thesis
    by (simp add: newest_order_def pg_stock_def newest_first_def sorted_wrt_map sorted_wrt_rev sorted_map)
qed

end
