(* ===== verification/Viewer.thy ===== *)
theory Viewer
  imports LogQuery
begin

text \<open>
  The log viewer of the terminal interface: its state and actions
  (\<open>src/src/tui/components/log_viewer/mod.rs\<close>), what it draws (\<open>render.rs\<close>, as rows of text and
  styles, with what the list widget of ratatui does to a selection as a parameter), and the event loop with its key map (\<open>src/src/tui/terminal.rs\<close>, \<open>action.rs\<close>, \<open>app.rs\<close>). A
  character typed is its UTF-8 text. Instants are nanoseconds.
\<close>

section \<open>State\<close>

datatype action =
    Quit | Tick | SelectUp | SelectDown | Refresh | ToggleFilter | ClearFilter | LogEntryAdded | ScrollUp
  | ScrollDown | PageUp | PageDown | ScrollToTop | ScrollToBottom | FilterInput string | FilterBackspace
  | LoadOlderEntries | ToggleFocus

datatype panel_focus = HostList | LogList

definition max_entries_per_host :: nat where "max_entries_per_host = 1000"
definition new_entries_per_poll :: int where "new_entries_per_poll = 100"
definition default_poll_interval :: nat where "default_poll_interval = 2000000000"

record viewer =
  vw_virtual_hosts :: "source_info list"
  vw_system_logs :: "source_info list"
  vw_host_sel :: "nat option"
  vw_log_entries :: "string \<Rightarrow> display_log_entry list option"
  vw_log_sel :: "nat option"
  vw_selected :: "source option"
  vw_filter_mode :: bool
  vw_filter_text :: string
  vw_focus :: panel_focus
  vw_poll_interval :: nat
  vw_last_poll :: "nat option"

definition viewer_new :: viewer where
  "viewer_new =
     \<lparr> vw_virtual_hosts = [], vw_system_logs = [], vw_host_sel = Some 0, vw_log_entries = Map.empty,
       vw_log_sel = Some 0, vw_selected = None, vw_filter_mode = False, vw_filter_text = [],
       vw_focus = HostList, vw_poll_interval = default_poll_interval, vw_last_poll = None \<rparr>"

definition load_recent_entries ::
  "'d data_ops \<Rightarrow> source \<Rightarrow> viewer \<times> 'd \<Rightarrow> (sentinel_error + unit) \<times> viewer \<times> 'd" where
  "load_recent_entries ops src st =
     (case st of (v, d) \<Rightarrow>
       (case do_recent ops src (int max_entries_per_host) d of
          (Inl e, d') \<Rightarrow> (Inl e, v, d')
        | (Inr es, d') \<Rightarrow>
            (Inr (), v \<lparr> vw_log_entries := (vw_log_entries v)(src_name src \<mapsto> es), vw_log_sel := Some 0 \<rparr>, d')))"

definition newest_on_screen :: "viewer \<Rightarrow> source \<Rightarrow> display_log_entry option" where
  "newest_on_screen v src =
     (case vw_log_entries v (src_name src) of Some (e # _) \<Rightarrow> Some e | _ \<Rightarrow> None)"

definition check_new_entries ::
  "'d data_ops \<Rightarrow> source \<Rightarrow> viewer \<times> 'd \<Rightarrow> (sentinel_error + unit) \<times> viewer \<times> 'd" where
  "check_new_entries ops src st =
     (case st of (v, d) \<Rightarrow>
       (case newest_on_screen v src of
          None \<Rightarrow> (Inr (), v, d)
        | Some newest \<Rightarrow>
            (case do_newer ops src (dy_timestamp newest) (dy_id newest) new_entries_per_poll d of
               (Inl e, d') \<Rightarrow> (Inl e, v, d')
             | (Inr news, d') \<Rightarrow>
                 if news = [] then (Inr (), v, d')
                 else (Inr (), v \<lparr> vw_log_entries := (vw_log_entries v)(src_name src :=
                        map_option (\<lambda>es. take max_entries_per_host (news @ es))
                          (vw_log_entries v (src_name src))) \<rparr>, d'))))"

definition total_host_list_len :: "viewer \<Rightarrow> nat" where
  "total_host_list_len v =
     1 + length (vw_virtual_hosts v)
       + (if vw_system_logs v = [] then 0 else 1 + length (vw_system_logs v))"

text \<open>\<open>get\<close> of a list.\<close>

definition nth_opt :: "'a list \<Rightarrow> nat \<Rightarrow> 'a option" where
  "nth_opt xs i = (if i < length xs then Some (xs ! i) else None)"

definition resolve_selection :: "viewer \<Rightarrow> nat \<Rightarrow> source option" where
  "resolve_selection v i =
     (if i = 0 then None
      else (case nth_opt (vw_virtual_hosts v) (i - 1) of
              Some h \<Rightarrow> Some (si_source h)
            | None \<Rightarrow>
                (let system_header = 1 + length (vw_virtual_hosts v)
                 in if vw_system_logs v \<noteq> [] \<and> system_header < i
                    then map_option si_source (nth_opt (vw_system_logs v) (i - system_header - 1))
                    else None)))"

definition log_list_max :: "viewer \<Rightarrow> nat" where
  "log_list_max v =
     (case Option.bind (vw_selected v) (\<lambda>s. map_option (\<lambda>es. length es - 1) (vw_log_entries v (src_name s))) of
        None \<Rightarrow> 0 | Some n \<Rightarrow> n)"

section \<open>Actions\<close>

text \<open>\<open>String::pop\<close>: the last character with its continuation bytes.\<close>

definition pop_char :: "string \<Rightarrow> string" where
  "pop_char s = rev (drop 1 (dropWhile is_cont (rev s)))"

fun handle_filter_action :: "action \<Rightarrow> viewer \<Rightarrow> viewer" where
  "handle_filter_action (FilterInput c) v = v \<lparr> vw_filter_text := vw_filter_text v @ c \<rparr>"
| "handle_filter_action FilterBackspace v = v \<lparr> vw_filter_text := pop_char (vw_filter_text v) \<rparr>"
| "handle_filter_action ClearFilter v = v \<lparr> vw_filter_mode := False, vw_filter_text := [] \<rparr>"
| "handle_filter_action ToggleFilter v = v \<lparr> vw_filter_mode := False \<rparr>"
| "handle_filter_action Refresh v = v \<lparr> vw_filter_mode := False \<rparr>"
| "handle_filter_action _ v = v"

text \<open>\<open>saturating_add_signed\<close>, then the bound.\<close>

definition moved :: "nat \<Rightarrow> int \<Rightarrow> nat \<Rightarrow> nat" where
  "moved i delta m = min (nat (int i + delta)) m"

definition move_selection :: "int \<Rightarrow> viewer \<Rightarrow> viewer" where
  "move_selection delta v =
     (case vw_focus v of
        HostList \<Rightarrow>
          v \<lparr> vw_host_sel := map_option (\<lambda>i. moved i delta (total_host_list_len v - 1)) (vw_host_sel v) \<rparr>
      | LogList \<Rightarrow> v \<lparr> vw_log_sel := map_option (\<lambda>i. moved i delta (log_list_max v)) (vw_log_sel v) \<rparr>)"

definition viewer_init ::
  "'d data_ops \<Rightarrow> viewer \<times> 'd \<Rightarrow> (sentinel_error + unit) \<times> viewer \<times> 'd" where
  "viewer_init ops st =
     (case st of (v, d) \<Rightarrow>
       (case do_sources ops d of
          (Inl e, d') \<Rightarrow> (Inl e, v, d')
        | (Inr infos, d') \<Rightarrow>
            (let v' = v \<lparr> vw_virtual_hosts := filter (\<lambda>s. src_kind (si_source s) = Vhost) infos,
                          vw_system_logs := filter (\<lambda>s. src_kind (si_source s) \<noteq> Vhost) infos \<rparr>
             in case vw_virtual_hosts v' of
                  [] \<Rightarrow> (Inr (), v', d')
                | h # _ \<Rightarrow> load_recent_entries ops (si_source h) (v' \<lparr> vw_selected := Some (si_source h) \<rparr>, d'))))"

definition do_refresh :: "'d data_ops \<Rightarrow> viewer \<times> 'd \<Rightarrow> viewer \<times> 'd" where
  "do_refresh ops st =
     (case st of (v, d) \<Rightarrow>
       (case Option.bind (vw_host_sel v) (resolve_selection v) of
          None \<Rightarrow> (v, d)
        | Some src \<Rightarrow>
            if vw_selected v = Some src then (v, d)
            else snd (load_recent_entries ops src
                   (v \<lparr> vw_selected := Some src, vw_log_sel := Some 0 \<rparr>, d))))"

text \<open>A poll, with the instants read for the comparison and for the record.\<close>

definition do_tick :: "'d data_ops \<Rightarrow> nat \<times> nat \<Rightarrow> viewer \<times> 'd \<Rightarrow> viewer \<times> 'd" where
  "do_tick ops now st =
     (case st of (v, d) \<Rightarrow>
       (let due = (case vw_last_poll v of None \<Rightarrow> True | Some l \<Rightarrow> vw_poll_interval v \<le> fst now - l)
        in case vw_selected v of
             None \<Rightarrow> (v, d)
           | Some src \<Rightarrow>
               if due then snd (check_new_entries ops src (v \<lparr> vw_last_poll := Some (snd now) \<rparr>, d))
               else (v, d)))"

definition viewer_action :: "'d data_ops \<Rightarrow> nat \<times> nat \<Rightarrow> action \<Rightarrow> viewer \<times> 'd \<Rightarrow> viewer \<times> 'd" where
  "viewer_action ops now a st =
     (case st of (v, d) \<Rightarrow>
       if vw_filter_mode v then (handle_filter_action a v, d)
       else (case a of
           ToggleFocus \<Rightarrow>
             (v \<lparr> vw_focus := (case vw_focus v of HostList \<Rightarrow> LogList | LogList \<Rightarrow> HostList) \<rparr>, d)
         | SelectUp \<Rightarrow> (move_selection (- 1) v, d)
         | SelectDown \<Rightarrow> (move_selection 1 v, d)
         | Refresh \<Rightarrow> do_refresh ops (v, d)
         | ToggleFilter \<Rightarrow> (v \<lparr> vw_filter_mode := True \<rparr>, d)
         | ClearFilter \<Rightarrow> (v \<lparr> vw_filter_text := [] \<rparr>, d)
         | PageUp \<Rightarrow> (v \<lparr> vw_log_sel := map_option (\<lambda>i. i - 20) (vw_log_sel v) \<rparr>, d)
         | PageDown \<Rightarrow>
             (v \<lparr> vw_log_sel := map_option (\<lambda>i. min (i + 20) (log_list_max v)) (vw_log_sel v) \<rparr>, d)
         | ScrollToTop \<Rightarrow> (v \<lparr> vw_log_sel := Some 0 \<rparr>, d)
         | ScrollToBottom \<Rightarrow>
             (case Option.bind (vw_selected v) (\<lambda>s. vw_log_entries v (src_name s)) of
                None \<Rightarrow> (v, d)
              | Some _ \<Rightarrow> (v \<lparr> vw_log_sel := Some (log_list_max v) \<rparr>, d))
         | Tick \<Rightarrow> do_tick ops now (v, d)
         | _ \<Rightarrow> (v, d)))"

section \<open>Drawing\<close>

text \<open>The rows of the sources panel.\<close>

definition host_rows :: "viewer \<Rightarrow> string list" where
  "host_rows v =
     [''Virtual Hosts'']
     @ (if vw_virtual_hosts v = [] \<and> vw_system_logs v = [] then [''No log sources found''] else [])
     @ map (\<lambda>h. ''[L] '' @ src_name (si_source h)) (vw_virtual_hosts v)
     @ (if vw_system_logs v = [] then []
        else ''System Logs'' # map (\<lambda>h. ''[S] '' @ src_name (si_source h)) (vw_system_logs v))"

text \<open>The entries shown: those whose message or raw text contains the filter, case folded.\<close>

definition shown_entries :: "(string \<Rightarrow> string) \<Rightarrow> viewer \<Rightarrow> display_log_entry list" where
  "shown_entries ulow v =
     (let es = (case Option.bind (vw_selected v) (\<lambda>s. vw_log_entries v (src_name s)) of
                  None \<Rightarrow> [] | Some es \<Rightarrow> es)
      in if vw_filter_text v = [] then es
         else filter (\<lambda>e. contains (to_lowercase ulow (dy_message e)) (to_lowercase ulow (vw_filter_text v))
                        \<or> contains (to_lowercase ulow (dy_raw e)) (to_lowercase ulow (vw_filter_text v))) es)"

definition log_title :: "viewer \<Rightarrow> string" where
  "log_title v =
     ''Logs: '' @ (case vw_selected v of None \<Rightarrow> ''No source selected'' | Some s \<Rightarrow> src_name s)
     @ (if vw_filter_mode v then '' [filter: '' @ [CHR 0x27] @ vw_filter_text v @ [CHR 0x27] @ '']''
        else if vw_filter_text v \<noteq> [] then '' (filter: '' @ [CHR 0x27] @ vw_filter_text v @ [CHR 0x27] @ '')''
        else [])"

definition two_digits :: "nat \<Rightarrow> string" where
  "two_digits n = (if n < 10 then ''0'' else []) @ show_nat n"

text \<open>\<open>format("%H:%M:%S")\<close> of a UTC time.\<close>

definition show_clock :: "datetime \<Rightarrow> string" where
  "show_clock t =
     (let s = nat (t div ns_per_s mod 86400)
      in two_digits (s div 3600) @ '':'' @ two_digits (s div 60 mod 60) @ '':'' @ two_digits (s mod 60))"

fun level_label :: "log_level \<Rightarrow> string" where
  "level_label Debug = ''DEBUG''"
| "level_label Info = ''INFO''"
| "level_label Warn = ''WARN''"
| "level_label Error = ''ERROR''"
| "level_label Critical = ''CRITICAL''"
| "level_label Security = ''SECURITY''"

fun joined :: "string list \<Rightarrow> string" where
  "joined [] = []"
| "joined [x] = x"
| "joined (x # y # xs) = x @ '','' @ joined (y # xs)"

definition entry_line :: "display_log_entry \<Rightarrow> string" where
  "entry_line e =
     ''['' @ show_clock (dy_timestamp e) @ ''] '' @ ''['' @ level_label (dy_level e) @ ''] '' @ dy_message e
     @ (if dy_threat_categories e = [] then [] else '' ['' @ joined (dy_threat_categories e) @ '']'')"

datatype colour = DarkGray | White | Yellow | Red | Magenta | Cyan

text \<open>The colour, and whether the text is bold and reversed.\<close>

definition level_style :: "log_level \<Rightarrow> threat_level \<Rightarrow> colour \<times> bool" where
  "level_style l t =
     (case l of Debug \<Rightarrow> DarkGray | Info \<Rightarrow> White | Warn \<Rightarrow> Yellow | Error \<Rightarrow> Red | _ \<Rightarrow> Magenta, High \<le> t)"

definition border_colour :: "panel_focus \<Rightarrow> viewer \<Rightarrow> colour" where
  "border_colour p v = (if vw_focus v = p then Cyan else DarkGray)"

text \<open>
  Drawing a list of some length may move its selection: \<open>sc_list\<close> is what the stateful list widget of
  ratatui does, given the panel, the terminal's size and the number of rows. \<open>list_widget_ok\<close> is its
  documented behaviour: a selected row that exists stays selected; otherwise the selection may be
  cleared or move up to a row that exists.
\<close>

record screen =
  sc_list :: "panel_focus \<Rightarrow> nat \<times> nat \<Rightarrow> nat \<Rightarrow> nat option \<Rightarrow> nat option"
  sc_lower :: "string \<Rightarrow> string"

definition list_widget_ok :: "screen \<Rightarrow> bool" where
  "list_widget_ok sc \<longleftrightarrow>
     (\<forall>p a n. sc_list sc p a n None = None
       \<and> (\<forall>i. if i < n then sc_list sc p a n (Some i) = Some i
              else (case sc_list sc p a n (Some i) of None \<Rightarrow> True | Some j \<Rightarrow> j \<le> i)))"

definition viewer_draw :: "screen \<Rightarrow> nat \<times> nat \<Rightarrow> viewer \<Rightarrow> viewer" where
  "viewer_draw sc a v =
     v \<lparr> vw_host_sel := sc_list sc HostList a (length (host_rows v)) (vw_host_sel v),
         vw_log_sel := sc_list sc LogList a (length (shown_entries (sc_lower sc) v)) (vw_log_sel v) \<rparr>"

text \<open>The status bar, with the transient message that nothing sets.\<close>

definition key_hints :: string where
  "key_hints = ''[q] quit  ['' @ of_bytes [226, 134, 145, 226, 134, 147]
     @ ''] navigate  [Enter] select  [/] filter  [r] refresh  [Esc] clear''"

definition status_line :: "string \<Rightarrow> string" where
  "status_line m = (if m = [] then key_hints else key_hints @ ''  |  '' @ m)"

section \<open>The event loop\<close>

datatype key_code =
    KeyChar string | KeyUp | KeyDown | KeyTab | KeyEnter | KeyEsc | KeyBackspace | KeyPageUp | KeyPageDown
  | KeyHome | KeyEnd | KeyOther

datatype crossterm_event =
    CtKey bool key_code | CtPaste string | CtFocusLost | CtFocusGained | CtResize nat nat | CtMouse

datatype tui_event = EvTick | EvKey key_code | EvFocusLost | EvFocusGained | EvResize nat nat | EvMouse

text \<open>The flag of a key event says that it is a press.\<close>

fun map_event :: "crossterm_event \<Rightarrow> tui_event" where
  "map_event (CtKey press k) = (if press then EvKey k else EvTick)"
| "map_event (CtPaste s) = EvTick"
| "map_event CtFocusLost = EvFocusLost"
| "map_event CtFocusGained = EvFocusGained"
| "map_event (CtResize w h) = EvResize w h"
| "map_event CtMouse = EvMouse"

definition key_to_action :: "key_code \<Rightarrow> action option" where
  "key_to_action k =
     (case k of
        KeyChar c \<Rightarrow>
          if c = ''q'' then Some Quit
          else if c = ''/'' then Some ToggleFilter
          else if c = ''r'' then Some Refresh
          else Some (FilterInput c)
      | KeyUp \<Rightarrow> Some SelectUp | KeyDown \<Rightarrow> Some SelectDown | KeyTab \<Rightarrow> Some ToggleFocus
      | KeyEnter \<Rightarrow> Some Refresh | KeyEsc \<Rightarrow> Some ClearFilter | KeyBackspace \<Rightarrow> Some FilterBackspace
      | KeyPageUp \<Rightarrow> Some PageUp | KeyPageDown \<Rightarrow> Some PageDown | KeyHome \<Rightarrow> Some ScrollToTop
      | KeyEnd \<Rightarrow> Some ScrollToBottom | KeyOther \<Rightarrow> None)"

fun event_to_action :: "tui_event \<Rightarrow> action option" where
  "event_to_action (EvKey k) = key_to_action k"
| "event_to_action EvTick = Some Tick"
| "event_to_action _ = None"

text \<open>
  One turn: the size of the terminal when the frame could be drawn, the event received and the instants
  then read. The components are the viewer and the status bar, which ignores every action; neither
  action fails. A failed frame ends the loop.
\<close>

record turn =
  tn_drawn :: "(nat \<times> nat) option"
  tn_event :: tui_event
  tn_now :: "nat \<times> nat"

fun tui_loop :: "screen \<Rightarrow> 'd data_ops \<Rightarrow> turn list \<Rightarrow> viewer \<times> 'd \<Rightarrow> bool \<times> viewer \<times> 'd" where
  "tui_loop sc ops [] st = (False, st)"
| "tui_loop sc ops (t # ts) st =
     (case tn_drawn t of
        None \<Rightarrow> (True, st)
      | Some a \<Rightarrow>
          (let st' = map_prod (viewer_draw sc a) id st
           in case event_to_action (tn_event t) of
                None \<Rightarrow> tui_loop sc ops ts st'
              | Some act \<Rightarrow>
                  if act = Quit then (True, st')
                  else tui_loop sc ops ts (viewer_action ops (tn_now t) act st')))"

definition tui_run ::
  "screen \<Rightarrow> 'd data_ops \<Rightarrow> turn list \<Rightarrow> 'd \<Rightarrow> sentinel_error + bool \<times> viewer \<times> 'd" where
  "tui_run sc ops ts d =
     (case viewer_init ops (viewer_new, d) of
        (Inl e, _) \<Rightarrow> Inl e
      | (Inr _, st) \<Rightarrow> Inr (tui_loop sc ops ts st))"

text \<open>The list widget with an area that is never empty.\<close>

definition sample_screen :: screen where
  "sample_screen =
     \<lparr> sc_list = (\<lambda>_ _ n s. case s of None \<Rightarrow> None
                             | Some i \<Rightarrow> if n = 0 then None else Some (min i (n - 1))),
       sc_lower = id \<rparr>"

lemma sample_screen_ok: "list_widget_ok sample_screen"
  by (auto simp: list_widget_ok_def sample_screen_def)

section \<open>Selections stay in range\<close>

definition viewer_ok :: "viewer \<Rightarrow> bool" where
  "viewer_ok v \<longleftrightarrow>
     (\<exists>i. vw_host_sel v = Some i \<and> i < total_host_list_len v)
     \<and> (\<forall>j. vw_log_sel v = Some j \<longrightarrow> j \<le> log_list_max v)
     \<and> (\<forall>n es. vw_log_entries v n = Some es \<longrightarrow> length es \<le> max_entries_per_host)"

lemma total_host_list_len_rows: "total_host_list_len v \<le> length (host_rows v)"
  by (simp add: total_host_list_len_def host_rows_def)

lemma viewer_draw_host:
  assumes "list_widget_ok sc" "vw_host_sel v = Some i" "i < total_host_list_len v"
  shows "viewer_draw sc a v =
    v \<lparr> vw_log_sel := sc_list sc LogList a (length (shown_entries (sc_lower sc) v)) (vw_log_sel v) \<rparr>"
proof -
  have "i < length (host_rows v)" using assms(3) total_host_list_len_rows [of v] by linarith
  with assms(1,2) have "sc_list sc HostList a (length (host_rows v)) (vw_host_sel v) = vw_host_sel v"
    unfolding list_widget_ok_def by presburger
  then show ?thesis by (simp add: viewer_draw_def)
qed

lemma total_host_list_len_pos: "0 < total_host_list_len v"
  by (simp add: total_host_list_len_def)

lemma viewer_new_ok: "viewer_ok viewer_new"
  by (simp add: viewer_ok_def viewer_new_def total_host_list_len_def log_list_max_def)

lemma total_host_list_len_cong [simp]:
  "total_host_list_len (v \<lparr> vw_host_sel := a \<rparr>) = total_host_list_len v"
  "total_host_list_len (v \<lparr> vw_log_sel := b \<rparr>) = total_host_list_len v"
  "total_host_list_len (v \<lparr> vw_log_entries := c \<rparr>) = total_host_list_len v"
  "total_host_list_len (v \<lparr> vw_selected := s \<rparr>) = total_host_list_len v"
  "total_host_list_len (v \<lparr> vw_filter_mode := m \<rparr>) = total_host_list_len v"
  "total_host_list_len (v \<lparr> vw_filter_text := t \<rparr>) = total_host_list_len v"
  "total_host_list_len (v \<lparr> vw_focus := f \<rparr>) = total_host_list_len v"
  "total_host_list_len (v \<lparr> vw_last_poll := l \<rparr>) = total_host_list_len v"
  by (simp_all add: total_host_list_len_def)

lemma log_list_max_cong [simp]:
  "log_list_max (v \<lparr> vw_host_sel := a \<rparr>) = log_list_max v"
  "log_list_max (v \<lparr> vw_log_sel := b \<rparr>) = log_list_max v"
  "log_list_max (v \<lparr> vw_filter_mode := m \<rparr>) = log_list_max v"
  "log_list_max (v \<lparr> vw_filter_text := t \<rparr>) = log_list_max v"
  "log_list_max (v \<lparr> vw_focus := f \<rparr>) = log_list_max v"
  "log_list_max (v \<lparr> vw_last_poll := l \<rparr>) = log_list_max v"
  by (simp_all add: log_list_max_def)

lemma handle_filter_action_ok: "viewer_ok v \<Longrightarrow> viewer_ok (handle_filter_action a v)"
  by (cases a) (simp_all add: viewer_ok_def)

lemma move_selection_ok: "viewer_ok v \<Longrightarrow> viewer_ok (move_selection delta v)"
  using total_host_list_len_pos [of v]
  by (cases "vw_focus v") (auto simp: viewer_ok_def move_selection_def moved_def split: option.splits)

lemma viewer_draw_ok:
  assumes "list_widget_ok sc" "viewer_ok v"
  shows "viewer_ok (viewer_draw sc a v)"
proof -
  obtain i where i: "vw_host_sel v = Some i" "i < total_host_list_len v"
    using assms(2) by (auto simp: viewer_ok_def)
  let ?s = "sc_list sc LogList a (length (shown_entries (sc_lower sc) v)) (vw_log_sel v)"
  have "\<forall>j. ?s = Some j \<longrightarrow> j \<le> log_list_max v"
  proof (cases "vw_log_sel v")
    case None
    have "sc_list sc LogList a n None = None" for n
      using assms(1) unfolding list_widget_ok_def by blast
    with None show ?thesis by simp
  next
    case (Some k)
    with assms(2) have "k \<le> log_list_max v" by (simp add: viewer_ok_def)
    moreover have "?s = Some k \<or> (case ?s of None \<Rightarrow> True | Some j \<Rightarrow> j \<le> k)"
      using assms(1) unfolding Some list_widget_ok_def by meson
    ultimately show ?thesis by (auto split: option.splits)
  qed
  with assms(2) show ?thesis
    unfolding viewer_draw_host [OF assms(1) i] by (simp add: viewer_ok_def)
qed

text \<open>What a poll does to the cached lists: one of them may grow at its front.\<close>

lemma check_new_entries_cases:
  obtains (same) "fst (snd (check_new_entries ops src (v, d))) = v"
  | (more) news es where "vw_log_entries v (src_name src) = Some es"
      "fst (snd (check_new_entries ops src (v, d))) =
         v \<lparr> vw_log_entries := (vw_log_entries v)(src_name src \<mapsto> take max_entries_per_host (news @ es)) \<rparr>"
proof (cases "newest_on_screen v src")
  case None
  then show ?thesis using same by (simp add: check_new_entries_def)
next
  case (Some newest)
  then obtain es where es: "vw_log_entries v (src_name src) = Some es"
    by (auto simp: newest_on_screen_def split: option.splits list.splits)
  obtain r d' where q: "do_newer ops src (dy_timestamp newest) (dy_id newest) new_entries_per_poll d = (r, d')"
    by force
  note eq = check_new_entries_def Some q es
  show ?thesis
  proof (cases r)
    case (Inl e)
    show ?thesis by (rule same) (simp add: eq Inl)
  next
    case (Inr news)
    show ?thesis
    proof (cases "news = []")
      case True
      show ?thesis by (rule same) (simp add: eq Inr True)
    next
      case False
      show ?thesis by (rule more [OF es, of news]) (simp add: eq Inr False del: take_append)
    qed
  qed
qed

lemma log_list_max_grow:
  assumes "vw_log_entries v n = Some es" "length es \<le> m"
  shows "log_list_max v \<le> log_list_max (v \<lparr> vw_log_entries := (vw_log_entries v)(n \<mapsto> take m (news @ es)) \<rparr>)"
  using assms by (cases "vw_selected v") (auto simp: log_list_max_def split: option.split)

lemma check_new_entries_ok:
  assumes "viewer_ok v"
  shows "viewer_ok (fst (snd (check_new_entries ops src (v, d))))"
proof (cases rule: check_new_entries_cases [of ops src v d])
  case (more news es)
  have "length es \<le> max_entries_per_host" using assms more(1) by (auto simp: viewer_ok_def)
  from log_list_max_grow [OF more(1) this, of news] assms show ?thesis
    unfolding more(2) by (auto simp: viewer_ok_def split: option.splits)
qed (use assms in simp)

context log_data_source
begin

lemma load_recent_ok:
  assumes "viewer_ok v"
  shows "viewer_ok (fst (snd (load_recent_entries ops src (v \<lparr> vw_selected := s, vw_log_sel := Some 0 \<rparr>, d))))"
proof -
  obtain r d' where q: "do_recent ops src (int max_entries_per_host) d = (r, d')" by force
  with assms recent_ok [of "int max_entries_per_host" src d] show ?thesis
    by (cases r) (auto simp: load_recent_entries_def viewer_ok_def)
qed

lemma do_refresh_ok: "viewer_ok v \<Longrightarrow> viewer_ok (fst (do_refresh ops (v, d)))"
  using load_recent_ok [of v] by (auto simp: do_refresh_def split: option.split)

lemma do_tick_ok:
  assumes "viewer_ok v"
  shows "viewer_ok (fst (do_tick ops now (v, d)))"
proof -
  have "viewer_ok (v \<lparr> vw_last_poll := Some (snd now) \<rparr>)" using assms by (simp add: viewer_ok_def)
  with assms show ?thesis
    by (auto simp: do_tick_def Let_def check_new_entries_ok split: option.split)
qed

lemma viewer_action_ok:
  assumes "viewer_ok (fst st)"
  shows "viewer_ok (fst (viewer_action ops now a st))"
proof -
  obtain v d where st: "st = (v, d)" by force
  with assms have ok: "viewer_ok v" by simp
  then have upd: "viewer_ok (v \<lparr> vw_focus := f \<rparr>)" "viewer_ok (v \<lparr> vw_filter_mode := m \<rparr>)"
      "viewer_ok (v \<lparr> vw_filter_text := t \<rparr>)" "viewer_ok (v \<lparr> vw_log_sel := Some 0 \<rparr>)"
      "viewer_ok (v \<lparr> vw_log_sel := Some (log_list_max v) \<rparr>)"
      "viewer_ok (v \<lparr> vw_log_sel := map_option (\<lambda>i. i - 20) (vw_log_sel v) \<rparr>)"
      "viewer_ok (v \<lparr> vw_log_sel := map_option (\<lambda>i. min (i + 20) (log_list_max v)) (vw_log_sel v) \<rparr>)"
    for f m t
    by (auto simp: viewer_ok_def split: option.splits)
  show ?thesis
  proof (cases "vw_filter_mode v")
    case True
    with ok st show ?thesis by (simp add: viewer_action_def handle_filter_action_ok)
  next
    case False
    note facts = move_selection_ok [OF ok] do_refresh_ok [OF ok] do_tick_ok [OF ok] upd ok
    from False st show ?thesis
      by (cases a; simp add: viewer_action_def facts; simp split: option.split add: facts)
  qed
qed

lemma tui_loop_ok:
  assumes "list_widget_ok sc" "viewer_ok (fst st)"
  shows "viewer_ok (fst (snd (tui_loop sc ops ts st)))"
  using assms(2)
  by (induction ts arbitrary: st)
    (auto simp: viewer_action_ok viewer_draw_ok [OF assms(1)] Let_def split: option.split)

lemma viewer_init_ok: "viewer_ok (fst (snd (viewer_init ops (viewer_new, d))))"
proof -
  let ?v = "\<lambda>vs ss. viewer_new \<lparr> vw_virtual_hosts := vs, vw_system_logs := ss \<rparr>"
  have v: "viewer_ok (?v vs ss)" for vs ss
    by (simp add: viewer_ok_def viewer_new_def total_host_list_len_def log_list_max_def)
  have "(?v vs ss) \<lparr> vw_selected := x \<rparr> = (?v vs ss) \<lparr> vw_selected := x, vw_log_sel := Some 0 \<rparr>" for vs ss x
    by (simp add: viewer_new_def)
  with load_recent_ok [OF v] have ld:
    "viewer_ok (fst (snd (load_recent_entries ops src ((?v vs ss) \<lparr> vw_selected := x \<rparr>, d'))))" for vs ss src x d'
    by metis
  obtain r d1 where q: "do_sources ops d = (r, d1)" by force
  show ?thesis
  proof (cases r)
    case (Inl e)
    with q show ?thesis by (simp add: viewer_init_def viewer_new_ok)
  next
    case (Inr infos)
    with q v ld show ?thesis by (simp add: viewer_init_def Let_def split: list.split)
  qed
qed

end

section \<open>Polling\<close>

definition on_screen :: "viewer \<Rightarrow> source \<Rightarrow> display_log_entry list" where
  "on_screen v src = (case vw_log_entries v (src_name src) of None \<Rightarrow> [] | Some es \<Rightarrow> es)"

definition newer_than :: "display_log_entry \<Rightarrow> display_log_entry list \<Rightarrow> display_log_entry list" where
  "newer_than n es = filter (\<lambda>e. entry_key n < entry_key e) es"

text \<open>Polls of one source, each meeting the data as they are then.\<close>

fun polls :: "'d data_ops \<Rightarrow> source \<Rightarrow> 'd list \<Rightarrow> viewer \<Rightarrow> viewer" where
  "polls ops src [] v = v"
| "polls ops src (d # ds) v = polls ops src ds (fst (snd (check_new_entries ops src (v, d))))"

lemma newest_on_screen_Some:
  "newest_on_screen v src = Some n \<longleftrightarrow>
   (\<exists>es. vw_log_entries v (src_name src) = Some (n # es)) \<and> on_screen v src \<noteq> [] \<and> hd (on_screen v src) = n"
  by (auto simp: newest_on_screen_def on_screen_def split: option.splits list.splits)

context log_data_source
begin

lemma check_new_Inr:
  assumes "newest_on_screen v src = Some n" "check_new_entries ops src (v, d) = (Inr (), v', d')"
  shows "on_screen v' src =
    (if newer_than n (stock d src) = [] then on_screen v src
     else take max_entries_per_host (take 100 (newer_than n (stock d src)) @ on_screen v src))"
proof -
  obtain es where es: "vw_log_entries v (src_name src) = Some (n # es)"
    using assms(1) newest_on_screen_Some by blast
  obtain r d1 where q: "do_newer ops src (dy_timestamp n) (dy_id n) new_entries_per_poll d = (r, d1)"
    by force
  with assms obtain news where r: "r = Inr news"
    by (cases r) (auto simp: check_new_entries_def)
  have news: "news = take 100 (newer_than n (stock d src))"
    using newer_ok [of new_entries_per_poll src "dy_timestamp n" "dy_id n" d] q r
    by (simp add: new_entries_per_poll_def newer_than_def entry_key_def)
  then show ?thesis
    using assms q r es by (auto simp: check_new_entries_def on_screen_def split: if_splits)
qed

text \<open>An entry that is older than the newest one on screen is never added.\<close>

lemma skipped_poll:
  assumes "newest_on_screen v src = Some n" "entry_key x \<le> entry_key n" "x \<notin> set (on_screen v src)"
    and "v' = fst (snd (check_new_entries ops src (v, d)))"
  shows "x \<notin> set (on_screen v' src) \<and> (\<exists>n'. newest_on_screen v' src = Some n' \<and> entry_key x \<le> entry_key n')"
proof (cases "fst (check_new_entries ops src (v, d))")
  case (Inl e)
  then have "v' = v"
    using assms(1,4) by (auto simp: check_new_entries_def split: option.splits prod.splits sum.splits if_splits)
  with assms show ?thesis by simp
next
  case (Inr u)
  then obtain d' where c: "check_new_entries ops src (v, d) = (Inr (), v', d')"
    using assms(4) by (metis old.unit.exhaust prod.collapse)
  show ?thesis
  proof (cases "newer_than n (stock d src) = []")
    case True
    with check_new_Inr [OF assms(1) c] have s: "on_screen v' src = on_screen v src" by simp
    with assms(1) have "newest_on_screen v' src = Some n"
      by (auto simp: newest_on_screen_def on_screen_def split: option.splits list.splits)
    with s assms show ?thesis by simp
  next
    case False
    then obtain m ms where N: "newer_than n (stock d src) = m # ms" by (cases "newer_than n (stock d src)") auto
    have newer: "entry_key n < entry_key e" if "e \<in> set (newer_than n (stock d src))" for e
      using that by (simp add: newer_than_def)
    then have "x \<notin> set (newer_than n (stock d src))" using assms(2) leD by blast
    with False check_new_Inr [OF assms(1) c] assms(3) have out: "x \<notin> set (on_screen v' src)"
      by (auto dest: in_set_takeD)
    have "on_screen v' src = m # tl (on_screen v' src)"
      using False check_new_Inr [OF assms(1) c] N by (simp add: max_entries_per_host_def)
    then have "newest_on_screen v' src = Some m"
      by (auto simp: newest_on_screen_def on_screen_def split: option.splits list.splits)
    moreover have "entry_key x \<le> entry_key m" using newer [of m] N assms(2) by simp
    ultimately show ?thesis using out by blast
  qed
qed

lemma skipped_polls:
  "newest_on_screen v src = Some n \<Longrightarrow> entry_key x \<le> entry_key n \<Longrightarrow> x \<notin> set (on_screen v src) \<Longrightarrow>
   x \<notin> set (on_screen (polls ops src ds v) src)"
proof (induction ds arbitrary: v n)
  case (Cons d ds)
  from skipped_poll [OF Cons.prems refl, of d] Cons.IH show ?case by auto
qed simp

end

lemma newer_than_split:
  assumes "newest_order es" "es = new @ n # old" "\<forall>e\<in>set new. entry_key n < entry_key e"
  shows "newer_than n es = new"
proof -
  have "\<forall>e\<in>set old. entry_key e \<le> entry_key n"
    using assms(1,2) by (simp add: newest_order_def sorted_wrt_append)
  then have "filter (\<lambda>e. entry_key n < entry_key e) old = []" by (auto simp: filter_empty_conv leD)
  with assms(2,3) show ?thesis by (simp add: newer_than_def)
qed

section \<open>Properties\<close>


text \<open>
  C32: More than 100 new entries leave a hole. A poll fetches only the 100 newest; the older ones of the
  new entries are then older than the newest on screen, and no later poll, whatever the database then
  holds, ever shows one of them.
\<close>

theorem poll_hole_is_never_filled:
  assumes "check_new_entries pg_ops src (v, p) = (Inr (), v', p')" "newest_on_screen v src = Some n"
    and "x \<in> set (drop 100 (newer_than n (pg_stock p src)))"
    and "x \<notin> set (take 100 (newer_than n (pg_stock p src)))" "x \<notin> set (on_screen v src)"
  shows "x \<notin> set (on_screen (polls pg_ops src later v') src)"
proof -
  let ?N = "newer_than n (pg_stock p src)"
  have "?N \<noteq> []" using assms(3) by auto
  then obtain m ms where N: "?N = m # ms" by (cases ?N) auto
  have "newest_order ?N"
    using pg_stock_order [of p src] unfolding newest_order_def newer_than_def by (rule sorted_wrt_filter)
  then have le: "entry_key x \<le> entry_key m"
    using assms(3) N by (auto simp: newest_order_def dest: in_set_dropD)
  have s: "on_screen v' src = take max_entries_per_host (take 100 ?N @ on_screen v src)"
    using postgres.check_new_Inr [OF assms(2,1)] \<open>?N \<noteq> []\<close> by simp
  then have "on_screen v' src = m # tl (on_screen v' src)" using N by (simp add: max_entries_per_host_def)
  then have "newest_on_screen v' src = Some m"
    by (auto simp: newest_on_screen_def on_screen_def split: option.splits list.splits)
  moreover have "x \<notin> set (on_screen v' src)" using s assms(4,5) by (auto simp: max_entries_per_host_def dest: in_set_takeD)
  ultimately show ?thesis using postgres.skipped_polls le by blast
qed

text \<open>A database with the entries of one virtual host, one per second.\<close>

definition sample_source :: source where "sample_source = vhost ''a.example''"

definition sample_stored :: "nat \<Rightarrow> log_entry" where
  "sample_stored k =
     \<lparr> lr_id = of_nat k,
       lr_entry = \<lparr> le_service_id = Some 7, le_timestamp = int k * ns_per_s, le_level = ''info'', le_message = ''m'',
         le_raw_line = None, le_client_ip = None, le_request_path = None, le_status_code = None,
         le_response_time_ms = None, le_is_noise = False, le_noise_reason = None, le_threat_level = ''none'',
         le_threat_categories = [], le_source_host = None \<rparr>,
       lr_created_at = 0 \<rparr>"

definition sample_pg :: "nat \<Rightarrow> pg_source" where
  "sample_pg k =
     \<lparr> ps_db = \<lparr> pg_up = (\<lambda>_. True), pg_error = (\<lambda>_. []), pg_uuid = of_nat, pg_now = int, pg_clock = 0,
         vb_services = [\<lparr> sv_id = 7, sv_name = ''a.example'', sv_unit_type = ''nginx-vhost'', sv_log_paths = None,
           sv_virtual_host = Some ''a.example'', sv_created_at = 0 \<rparr>],
         vb_entries = map sample_stored [0..<k] \<rparr>,
       ps_fs = \<lparr> dv_read_dir = (\<lambda>_. None), dv_is_file = (\<lambda>_. False) \<rparr>, ps_glob = (\<lambda>_. None),
       ps_watching = \<lparr> lw_directories = [], lw_files = [] \<rparr> \<rparr>"

definition sample_shown :: "nat \<Rightarrow> display_log_entry" where
  "sample_shown k = row_to_display (entry_row ''a.example'' (sample_stored k))"

lemma newest_first_sorted: "sorted (map row_key rs) \<Longrightarrow> newest_first rs = rev rs"
  by (simp add: newest_first_def sort_key_id_if_sorted)

lemma sample_shown_key: "entry_key (sample_shown k) = (int k * ns_per_s, of_nat k)"
  by (simp add: sample_shown_def row_key_def entry_row_def sample_stored_def Let_def)

lemma sample_stock: "pg_stock (sample_pg k) sample_source = rev (map sample_shown [0..<k])"
proof -
  let ?rs = "map (\<lambda>k. entry_row ''a.example'' (sample_stored k)) [0..<k]"
  have "source_rows Vhost ''a.example'' (ps_db (sample_pg k)) = ?rs"
    by (simp add: source_rows_def sample_pg_def service_matches_def sample_stored_def comp_def)
  moreover have "sorted (map row_key ?rs)"
  proof -
    have "row_key (entry_row ''a.example'' (sample_stored k)) = (int k * ns_per_s, of_nat k)" for k
      using sample_shown_key [of k] by (simp add: sample_shown_def)
    moreover have "sorted_wrt (\<lambda>i j. (int i * ns_per_s, of_nat i :: uuid) \<le> (int j * ns_per_s, of_nat j)) [0..<k]"
      by (rule sorted_wrt_mono_rel [OF _ sorted_wrt_upt]) (simp add: less_eq_prod_def ns_per_s_def)
    ultimately show ?thesis by (simp add: sorted_map sorted_wrt_map)
  qed
  ultimately show ?thesis
    by (simp add: pg_stock_def sample_source_def vhost_def newest_first_sorted rev_map comp_def sample_shown_def)
qed

lemma sample_newer:
  "newer_than (sample_shown 0) (pg_stock (sample_pg (Suc k)) sample_source) = rev (map sample_shown [1..<Suc k])"
proof (rule newer_than_split [OF pg_stock_order])
  show "pg_stock (sample_pg (Suc k)) sample_source = rev (map sample_shown [1..<Suc k]) @ sample_shown 0 # []"
    by (simp add: sample_stock upt_conv_Cons del: upt_Suc)
qed (auto simp: sample_shown_key less_prod_def ns_per_s_def)

lemma poll_answered:
  "fst (check_new_entries pg_ops src (v, sample_pg k)) = Inr ()"
  by (simp add: check_new_entries_def pg_ops_def displayed_def newer_entries_def run_query_def limited_def
      sample_pg_def new_entries_per_poll_def split: option.split)

definition sample_viewer :: viewer where
  "sample_viewer = viewer_new \<lparr> vw_selected := Some sample_source,
     vw_log_entries := [''a.example'' \<mapsto> [sample_shown 0]] \<rparr>"

lemma sample_on_screen:
  "on_screen sample_viewer sample_source = [sample_shown 0]"
  "newest_on_screen sample_viewer sample_source = Some (sample_shown 0)"
  by (simp_all add: on_screen_def newest_on_screen_def sample_viewer_def sample_source_def vhost_def)


theorem poll_hole_is_never_filled_witness:
  "sample_shown 1 \<in> set (pg_stock (sample_pg 102) sample_source)
   \<and> sample_shown 1 \<notin> set (on_screen (polls pg_ops sample_source [sample_pg 102, sample_pg 102]
         (fst (snd (check_new_entries pg_ops sample_source (sample_viewer, sample_pg 102))))) sample_source)"
proof -
  let ?N = "newer_than (sample_shown 0) (pg_stock (sample_pg 102) sample_source)"
  have N: "?N = rev (map sample_shown [1..<102])" using sample_newer [of 101] by simp
  have inj: "sample_shown i = sample_shown j \<longleftrightarrow> i = j" for i j
  proof
    assume "sample_shown i = sample_shown j"
    then have "int i * ns_per_s = int j * ns_per_s" using sample_shown_key by (metis prod.inject)
    then show "i = j" by (simp add: ns_per_s_def)
  qed simp
  have "drop 100 ?N = [sample_shown 1]"
    unfolding N by (simp add: drop_rev take_map take_upt del: upt_rec_numeral)
  then have 1: "sample_shown 1 \<in> set (drop 100 ?N)" by simp
  have "take 100 ?N = rev (map sample_shown [2..<102])"
    unfolding N by (simp add: take_rev drop_map numeral_2_eq_2 del: upt_rec_numeral)
  then have 2: "sample_shown 1 \<notin> set (take 100 ?N)" by (auto simp: inj simp del: upt_rec_numeral)
  have 3: "sample_shown 1 \<notin> set (on_screen sample_viewer sample_source)" by (simp add: sample_on_screen inj)
  obtain v' p' where c: "check_new_entries pg_ops sample_source (sample_viewer, sample_pg 102) = (Inr (), v', p')"
    using poll_answered [of sample_source sample_viewer 102] by (metis prod.collapse)
  have "sample_shown 1 \<in> set (pg_stock (sample_pg 102) sample_source)"
    using 1 by (auto simp: newer_than_def dest: in_set_dropD)
  moreover note poll_hole_is_never_filled [OF c sample_on_screen(2) 1 2 3]
  ultimately show ?thesis by (simp add: c del: polls.simps)
qed

text \<open>
  C34: The viewer's selections stay in range. Whatever keys are pressed, whatever the database answers
  and whatever size the terminal has, the row selected in the sources panel exists, an entry selected
  does not lie beyond the list of the selected source, and no cached list is longer than 1000.
\<close>

theorem viewer_selections_in_range:
  assumes "list_widget_ok sc" "tui_run sc pg_ops ts p = Inr (d, v, p')"
  shows "(\<exists>i. vw_host_sel v = Some i \<and> i < total_host_list_len v)
    \<and> (\<forall>j. vw_log_sel v = Some j \<longrightarrow>
         j \<le> length (case vw_selected v of None \<Rightarrow> [] | Some s \<Rightarrow> on_screen v s) - 1)
    \<and> (\<forall>s. length (on_screen v s) \<le> 1000)"
proof -
  obtain st where st: "snd (viewer_init pg_ops (viewer_new, p)) = st" "snd (tui_loop sc pg_ops ts st) = (v, p')"
    using assms(2) by (auto simp: tui_run_def split: prod.splits sum.splits)
  then have "viewer_ok v"
    using postgres.tui_loop_ok [OF assms(1), of st ts] postgres.viewer_init_ok [of p] by simp
  then show ?thesis
    by (auto simp: viewer_ok_def log_list_max_def on_screen_def max_entries_per_host_def
        split: option.splits)
qed

lemma sample_init: "fst (viewer_init pg_ops (viewer_new, sample_pg k)) = Inr ()"
  by (simp add: viewer_init_def pg_ops_def pg_sources_def partition_by_kind_def counts_for_def discover_def
      sample_pg_def Let_def)

theorem viewer_selections_in_range_witness:
  "\<exists>d v p'. tui_run sample_screen pg_ops [\<lparr> tn_drawn = Some (80, 24), tn_event = EvKey KeyDown, tn_now = (0, 0) \<rparr>] (sample_pg 3) = Inr (d, v, p')
     \<and> (\<exists>i. vw_host_sel v = Some i \<and> i < total_host_list_len v)"
proof -
  have "\<exists>x. tui_run sample_screen pg_ops [\<lparr> tn_drawn = Some (80, 24), tn_event = EvKey KeyDown, tn_now = (0, 0) \<rparr>] (sample_pg 3) = Inr x"
    using sample_init [of 3] by (cases "viewer_init pg_ops (viewer_new, sample_pg 3)")
      (simp add: tui_run_def split_paired_Ex [symmetric] del: split_paired_Ex)
  then obtain d v p' where
    r: "tui_run sample_screen pg_ops [\<lparr> tn_drawn = Some (80, 24), tn_event = EvKey KeyDown, tn_now = (0, 0) \<rparr>] (sample_pg 3) = Inr (d, v, p')"
    by (metis prod_cases3)
  from viewer_selections_in_range [OF sample_screen_ok r] r show ?thesis by blast
qed

section \<open>The filter\<close>

text \<open>A typed character is one UTF-8 character.\<close>

definition one_char :: "string \<Rightarrow> bool" where
  "one_char c \<longleftrightarrow> utf8_width c = Some (length c)"

definition typed :: "turn \<Rightarrow> bool" where
  "typed t \<longleftrightarrow> (case tn_event t of EvKey (KeyChar c) \<Rightarrow> one_char c | _ \<Rightarrow> True)"

lemma one_char_ascii:
  assumes "one_char c" "a \<in> set c" "byte a < 128"
  shows "c = [a]"
proof -
  have "utf8_width c = Some (length c)" using assms(1) by (simp add: one_char_def)
  then show ?thesis
    using assms(2,3)
    by (cases rule: utf8_width_cases)
      (auto simp: is_cont_def in_range_def second_ok_def split: if_splits)
qed

lemma key_to_action_filter:
  assumes "one_char c" "key_to_action (KeyChar c) = Some (FilterInput c')"
  shows "c' = c \<and> set c \<inter> set ''qr/'' = {}"
proof -
  have c: "c' = c" "c \<noteq> ''q''" "c \<noteq> ''/''" "c \<noteq> ''r''"
    using assms(2) by (auto simp: key_to_action_def split: if_splits)
  have "a \<notin> set c" if "a \<in> set ''qr/''" for a
  proof
    assume "a \<in> set c"
    moreover have "byte a < 128" using that by (auto simp: byte_def)
    ultimately have "c = [a]" using one_char_ascii assms(1) by blast
    with that c show False by auto
  qed
  with c(1) show ?thesis by blast
qed

lemma set_pop_char: "set (pop_char s) \<subseteq> set s"
proof -
  have "set (drop 1 (dropWhile is_cont (rev s))) \<subseteq> set (rev s)"
    by (meson in_set_dropD set_dropWhileD subsetI)
  then show ?thesis by (simp add: pop_char_def)
qed

lemma filter_text_step:
  assumes "set (vw_filter_text (fst st)) \<inter> Z = {}" "\<And>c. a = FilterInput c \<Longrightarrow> set c \<inter> Z = {}"
  shows "set (vw_filter_text (fst (viewer_action ops now a st))) \<inter> Z = {}"
proof -
  obtain v d where st: "st = (v, d)" by force
  have poll: "vw_filter_text (fst (snd (check_new_entries ops src (w, d)))) = vw_filter_text w" for src w
    by (cases rule: check_new_entries_cases [of ops src w d]) simp_all
  have load: "vw_filter_text (fst (snd (load_recent_entries ops src (w, d)))) = vw_filter_text w" for src w
    by (simp add: load_recent_entries_def case_prod_beta split: sum.split)
  show ?thesis
  proof (cases "vw_filter_mode v")
    case True
    with assms set_pop_char [of "vw_filter_text v"] st show ?thesis
      by (cases a) (auto simp: viewer_action_def)
  next
    case False
    have "vw_filter_text (move_selection k v) = vw_filter_text v" for k
      by (simp add: move_selection_def split: panel_focus.split)
    with False assms(1) st show ?thesis
      by (cases a)
        (simp_all add: viewer_action_def do_refresh_def do_tick_def Let_def poll load split: option.split)
  qed
qed

lemma filter_text_draw [simp]: "vw_filter_text (viewer_draw sc a v) = vw_filter_text v"
  by (simp add: viewer_draw_def)

lemma filter_text_loop:
  assumes "list_all typed ts" "set (vw_filter_text (fst st)) \<inter> set ''qr/'' = {}"
  shows "set (vw_filter_text (fst (snd (tui_loop sc ops ts st)))) \<inter> set ''qr/'' = {}"
  using assms
proof (induction ts arbitrary: st)
  case (Cons t ts)
  show ?case
  proof (cases "tn_drawn t")
    case None
    with Cons show ?thesis by simp
  next
    case (Some x)
    let ?st = "map_prod (viewer_draw sc x) id st"
    have st: "set (vw_filter_text (fst ?st)) \<inter> set ''qr/'' = {}" using Cons.prems(2) by simp
    show ?thesis
    proof (cases "\<exists>a. event_to_action (tn_event t) = Some a \<and> a \<noteq> Quit")
      case True
      then obtain a where a: "event_to_action (tn_event t) = Some a" "a \<noteq> Quit" by blast
      have "set c \<inter> set ''qr/'' = {}" if eq: "a = FilterInput c" for c
      proof -
        obtain k where k: "tn_event t = EvKey k" "key_to_action k = Some (FilterInput c)"
          using a(1) eq by (cases "tn_event t") auto
        then obtain c' where "k = KeyChar c'" by (cases k) (auto simp: key_to_action_def)
        with k Cons.prems(1) key_to_action_filter [of c' c] show ?thesis by (simp add: typed_def)
      qed
      from filter_text_step [OF st this, of _ ops "tn_now t"] a Some Cons show ?thesis by (simp add: Let_def)
    next
      case False
      with Cons Some st show ?thesis by (auto simp: Let_def split: option.split)
    qed
  qed
qed simp

text \<open>
  Three characters cannot be typed into the filter. The keys \<open>q\<close>, \<open>r\<close> and \<open>/\<close> are mapped to their
  commands also while the filter is edited, so no sequence of keys puts one of them into the filter
  text; a \<open>q\<close> ends the program.
\<close>

lemma filter_cannot_hold_command_keys:
  assumes "list_all typed ts" "tui_run sc ops ts d = Inr (b, v, d')"
  shows "set (vw_filter_text v) \<inter> set ''qr/'' = {}"
proof -
  obtain r st where st: "viewer_init ops (viewer_new, d) = (r, st)" by (metis surj_pair)
  have "vw_filter_text (fst st) = []"
    using st by (auto simp: viewer_init_def load_recent_entries_def viewer_new_def Let_def
        split: prod.splits sum.splits list.splits)
  with filter_text_loop [OF assms(1), of st sc ops] assms(2) st show ?thesis
    by (auto simp: tui_run_def split: sum.splits)
qed

lemma filter_cannot_hold_command_keys_witness:
  "\<exists>b v p'. tui_run sample_screen pg_ops (map (\<lambda>k. \<lparr> tn_drawn = Some (80, 24), tn_event = EvKey (KeyChar k), tn_now = (0, 0) \<rparr>)
       [''/'', ''e'', ''r'']) (sample_pg 3) = Inr (b, v, p') \<and> set (vw_filter_text v) \<inter> set ''qr/'' = {}"
proof -
  let ?ts = "map (\<lambda>k. \<lparr> tn_drawn = Some (80, 24), tn_event = EvKey (KeyChar k), tn_now = (0 :: nat, 0 :: nat) \<rparr>) [''/'', ''e'', ''r'']"
  have t: "list_all typed ?ts" by (simp add: typed_def one_char_def byte_def)
  have "\<exists>x. tui_run sample_screen pg_ops ?ts (sample_pg 3) = Inr x"
    using sample_init [of 3] by (cases "viewer_init pg_ops (viewer_new, sample_pg 3)")
      (simp add: tui_run_def split_paired_Ex [symmetric] del: split_paired_Ex)
  then obtain b v p' where r: "tui_run sample_screen pg_ops ?ts (sample_pg 3) = Inr (b, v, p')" by (metis prod_cases3)
  from filter_cannot_hold_command_keys [OF t r] r show ?thesis by blast
qed

section \<open>An empty source\<close>

definition stuck_on :: "source \<Rightarrow> viewer \<Rightarrow> bool" where
  "stuck_on src v \<longleftrightarrow>
     vw_selected v = Some src \<and> vw_log_entries v (src_name src) = Some []
     \<and> (\<exists>i. vw_host_sel v = Some i \<and> i < total_host_list_len v
          \<and> (case resolve_selection v i of None \<Rightarrow> True | Some s \<Rightarrow> s = src))"

lemma resolve_selection_cong:
  "vw_virtual_hosts v = vw_virtual_hosts w \<Longrightarrow> vw_system_logs v = vw_system_logs w \<Longrightarrow>
   resolve_selection v = resolve_selection w"
  by (rule ext) (simp only: resolve_selection_def)

lemma stuck_on_cong:
  assumes "stuck_on src v" "vw_selected w = vw_selected v" "vw_log_entries w = vw_log_entries v"
    and "vw_host_sel w = vw_host_sel v" "vw_virtual_hosts w = vw_virtual_hosts v"
    and "vw_system_logs w = vw_system_logs v"
  shows "stuck_on src w"
proof -
  have "total_host_list_len w = total_host_list_len v"
    using assms(5,6) by (simp only: total_host_list_len_def)
  with assms(1-4) resolve_selection_cong [OF assms(5,6)] show ?thesis by (simp add: stuck_on_def)
qed

lemma stuck_draw:
  assumes "list_widget_ok sc" "stuck_on src v"
  shows "stuck_on src (viewer_draw sc a v)"
proof -
  obtain i where i: "vw_host_sel v = Some i" "i < total_host_list_len v"
    using assms(2) by (auto simp: stuck_on_def)
  show ?thesis
    by (rule stuck_on_cong [OF assms(2)]) (simp_all add: viewer_draw_host [OF assms(1) i])
qed

lemma stuck_action:
  assumes "stuck_on src (fst st)" "a \<noteq> SelectUp" "a \<noteq> SelectDown"
  shows "stuck_on src (fst (viewer_action ops now a st))"
proof -
  obtain v d where st: "st = (v, d)" by (metis surj_pair)
  with assms(1) have v: "stuck_on src v" by simp
  have poll: "check_new_entries ops src (w, d) = (Inr (), w, d)" if "stuck_on src w" for w
    using that by (simp add: check_new_entries_def newest_on_screen_def stuck_on_def)
  have refresh: "do_refresh ops (v, d) = (v, d)"
    using v by (auto simp: do_refresh_def stuck_on_def split: option.splits)
  show ?thesis
  proof (cases "vw_filter_mode v")
    case True
    with st show ?thesis
      by (cases a) (simp_all add: viewer_action_def v stuck_on_cong [OF v])
  next
    case False
    have "stuck_on src (fst (do_tick ops now (v, d)))"
    proof -
      have "stuck_on src (v \<lparr> vw_last_poll := Some (snd now) \<rparr>)" by (rule stuck_on_cong [OF v]) simp_all
      from poll [OF this] this v show ?thesis by (simp add: do_tick_def Let_def split: option.split) (simp add: stuck_on_def)
    qed
    with False st assms(2,3) show ?thesis
      by (cases a) (simp_all add: viewer_action_def v refresh stuck_on_cong [OF v] split: option.split)
  qed
qed

text \<open>
  A source that was empty when it was loaded stays empty on the screen. Polls only look for
  entries newer than the newest one shown, and a refresh of the selected source does nothing: whatever
  is stored, and whatever keys are pressed except to another row of the sources panel, no entry of it
  appears.
\<close>

lemma empty_source_never_fills:
  assumes "list_widget_ok sc" "stuck_on src v"
    and "list_all (\<lambda>t. tn_event t \<noteq> EvKey KeyUp \<and> tn_event t \<noteq> EvKey KeyDown) ts"
  shows "on_screen (fst (snd (tui_loop sc ops ts (v, d)))) src = []"
proof -
  have "stuck_on src (fst (snd (tui_loop sc ops ts st)))" if "stuck_on src (fst st)" for st
    using that assms(3)
  proof (induction ts arbitrary: st)
    case (Cons t ts)
    have "a \<noteq> SelectUp \<and> a \<noteq> SelectDown" if "event_to_action (tn_event t) = Some a" for a
      using that Cons.prems(2)
      by (cases "tn_event t") (auto simp: key_to_action_def split: key_code.splits if_splits)
    moreover have "stuck_on src (fst (map_prod (viewer_draw sc x) id st))" for x
      using stuck_draw [OF assms(1) Cons.prems(1)] by simp
    ultimately have "stuck_on src (fst (viewer_action ops now a (map_prod (viewer_draw sc x) id st)))"
      if "event_to_action (tn_event t) = Some a" for now a x
      using that stuck_action by blast
    with Cons stuck_draw [OF assms(1) Cons.prems(1)] show ?case
      by (auto simp: Let_def simp del: split_paired_All split: option.split)
  qed simp
  from this [of "(v, d)"] assms(2) show ?thesis by (auto simp: stuck_on_def on_screen_def)
qed

definition sample_empty :: viewer where
  "sample_empty = viewer_new \<lparr> vw_virtual_hosts := [\<lparr> si_source = sample_source, si_entry_count = 0 \<rparr>],
     vw_selected := Some sample_source, vw_log_entries := [''a.example'' \<mapsto> []] \<rparr>"

lemma empty_source_never_fills_witness:
  "pg_stock (sample_pg 1) sample_source = [sample_shown 0]
   \<and> on_screen (fst (snd (tui_loop sample_screen pg_ops
        [\<lparr> tn_drawn = Some (80, 24), tn_event = EvTick, tn_now = (0, 0) \<rparr>,
         \<lparr> tn_drawn = Some (80, 24), tn_event = EvKey (KeyChar ''r''), tn_now = (0, 0) \<rparr>]
        (sample_empty, sample_pg 1)))) sample_source = []"
proof -
  have "stuck_on sample_source sample_empty"
    by (simp add: stuck_on_def sample_empty_def viewer_new_def sample_source_def vhost_def resolve_selection_def
        total_host_list_len_def)
  note empty_source_never_fills [OF sample_screen_ok this]
  from this [of "[\<lparr> tn_drawn = Some (80, 24), tn_event = EvTick, tn_now = (0, 0) \<rparr>,
         \<lparr> tn_drawn = Some (80, 24), tn_event = EvKey (KeyChar ''r''), tn_now = (0, 0) \<rparr>]" pg_ops "sample_pg 1"]
  show ?thesis by (simp add: sample_stock del: tui_loop.simps)
qed

section \<open>The sources panel\<close>

lemma nth_opt_Some: "nth_opt xs i = Some x \<longleftrightarrow> i < length xs \<and> xs ! i = x"
  by (auto simp: nth_opt_def)

text \<open>
  What is selected is what is drawn. When there is a source, the number of rows that the selection
  moves over is the number of rows drawn, and a row that selects a source is drawn with its name, under
  \<open>[L]\<close> for a virtual host and \<open>[S]\<close> for a system log; the two headers select nothing.
\<close>

lemma selected_row_shows_its_source:
  assumes "vw_virtual_hosts v \<noteq> [] \<or> vw_system_logs v \<noteq> []"
  shows "length (host_rows v) = total_host_list_len v
    \<and> (\<forall>i s. resolve_selection v i = Some s \<longrightarrow>
         (\<exists>k. k < length (vw_virtual_hosts v) \<and> si_source (vw_virtual_hosts v ! k) = s
            \<and> host_rows v ! i = ''[L] '' @ src_name s)
         \<or> (\<exists>k. k < length (vw_system_logs v) \<and> si_source (vw_system_logs v ! k) = s
            \<and> host_rows v ! i = ''[S] '' @ src_name s))
    \<and> resolve_selection v 0 = None \<and> resolve_selection v (1 + length (vw_virtual_hosts v)) = None"
proof -
  have "(\<exists>k. k < length (vw_virtual_hosts v) \<and> si_source (vw_virtual_hosts v ! k) = s
            \<and> host_rows v ! i = ''[L] '' @ src_name s)
      \<or> (\<exists>k. k < length (vw_system_logs v) \<and> si_source (vw_system_logs v ! k) = s
            \<and> host_rows v ! i = ''[S] '' @ src_name s)"
    if r: "resolve_selection v i = Some s" for i s
  proof (cases "i - 1 < length (vw_virtual_hosts v)")
    case True
    with r assms show ?thesis
      by (intro disjI1 exI [where x = "i - 1"])
        (auto simp: resolve_selection_def nth_opt_def host_rows_def nth_append nth_Cons' split: if_splits)
  next
    case False
    let ?k = "i - (1 + length (vw_virtual_hosts v)) - 1"
    from False r have "1 + length (vw_virtual_hosts v) < i" "?k < length (vw_system_logs v)"
      "s = si_source (vw_system_logs v ! ?k)"
      by (auto simp: resolve_selection_def nth_opt_def Let_def split: if_splits)
    with assms show ?thesis
      by (intro disjI2 exI [where x = ?k]) (auto simp: host_rows_def nth_append nth_Cons')
  qed
  with assms show ?thesis
    by (auto simp: host_rows_def total_host_list_len_def resolve_selection_def nth_opt_def Let_def)
qed

lemma selected_row_shows_its_source_witness:
  "length (host_rows sample_empty) = total_host_list_len sample_empty \<and> resolve_selection sample_empty 0 = None"
  using selected_row_shows_its_source [of sample_empty] by (simp add: sample_empty_def)

section \<open>The counts of the panel\<close>

lemma map_of_rev_distinct:
  assumes "distinct (map fst xs)"
  shows "map_of (rev xs) = map_of xs"
proof (rule ext)
  fix k
  have d: "distinct (map fst (rev xs))" using assms by (metis distinct_rev rev_map)
  show "map_of (rev xs) k = map_of xs k"
  proof (cases "map_of xs k")
    case None
    then have "map_of (rev xs) k = None" by (simp only: map_of_eq_None_iff set_rev image_set) simp
    with None show ?thesis by simp
  next
    case (Some y)
    then have "(k, y) \<in> set (rev xs)" by (auto dest: map_of_SomeD)
    with d Some show ?thesis by (simp only: map_of_eq_Some_iff)
  qed
qed

lemma map_of_positive:
  assumes "distinct ns" "n \<in> set ns"
  shows "map_of (filter (\<lambda>(_, c). 0 < c) (map (\<lambda>n. (n, f n)) ns)) n
    = (if 0 < (f n :: int) then Some (f n) else None)"
  using assms by (induction ns) (auto simp: map_of_eq_None_iff)

lemma counts_for_Inr:
  assumes "counts_for kind ss db = (Inr infos, db')" "\<forall>s\<in>set ss. src_kind s = kind"
  shows "infos = map (\<lambda>s. source_info_new kind (src_name s) (length (source_rows kind (src_name s) db))) ss"
proof (cases "ss = []")
  case False
  let ?c = "\<lambda>n. int (length (source_rows kind n db))"
  let ?cs = "filter (\<lambda>(_, c). 0 < c) (map (\<lambda>n. (n, ?c n)) (remdups (map src_name ss)))"
  have d: "distinct (map fst ?cs)"
    by (rule distinct_map_filter) (simp add: comp_def)
  have "map_of (rev ?cs) n = (if 0 < ?c n then Some (?c n) else None)" if "n \<in> src_name ` set ss" for n
    unfolding map_of_rev_distinct [OF d] by (rule map_of_positive) (use that in auto)
  then have *: "(case map_of (rev ?cs) (src_name s) of None \<Rightarrow> 0 | Some c \<Rightarrow> nat c)
      = length (source_rows kind (src_name s) db)" if "s \<in> set ss" for s
    using that by simp
  have "infos = map (\<lambda>s. source_info_new (src_kind s) (src_name s)
      (case map_of (rev ?cs) (src_name s) of None \<Rightarrow> 0 | Some c \<Rightarrow> nat c)) ss"
    using assms(1) False by (auto simp: counts_for_def count_entries_def run_query_def split: if_splits)
  with * assms(2) show ?thesis by simp
qed (use assms in \<open>simp add: counts_for_def\<close>)

text \<open>
  The panel's counts are the numbers of stored entries. A successful load lists the discovered
  sources in the order of discovery, virtual hosts first, each with exactly the number of entries that
  the viewer would find for it.
\<close>

lemma panel_counts_are_the_stock:
  assumes "pg_sources p = (Inr infos, p')"
  shows "infos = map (\<lambda>s. \<lparr> si_source = s, si_entry_count = length (pg_stock p s) \<rparr>)
    (discover (ps_fs p) (ps_glob p) (ps_watching p))"
proof -
  let ?d = "discovered (ps_fs p) (ps_glob p) (ps_watching p)"
  let ?vs = "map vhost (fst ?d)" and ?ss = "map system_log (snd ?d)"
  have "partition_by_kind (discover (ps_fs p) (ps_glob p) (ps_watching p)) = (?vs, ?ss)"
    by (simp add: partition_by_kind_def discover_eq vhost_def system_log_def filter_map comp_def)
  then obtain vis db sis db' where vs: "counts_for Vhost ?vs (ps_db p) = (Inr vis, db)"
    and ss: "counts_for SystemLog ?ss db = (Inr sis, db')" and infos: "infos = vis @ sis"
    using assms by (auto simp: pg_sources_def split: prod.splits sum.splits)
  have rows: "source_rows k n db = source_rows k n (ps_db p)" for k n
    using counts_for_rows [of k n Vhost ?vs "ps_db p"] by (simp add: vs)
  have "vis = map (\<lambda>s. source_info_new Vhost (src_name s) (length (source_rows Vhost (src_name s) (ps_db p)))) ?vs"
    by (rule counts_for_Inr [OF vs]) (simp add: vhost_def)
  moreover have "sis = map (\<lambda>s. source_info_new SystemLog (src_name s) (length (source_rows SystemLog (src_name s) (ps_db p)))) ?ss"
    using counts_for_Inr [OF ss] by (simp add: system_log_def rows)
  ultimately show ?thesis
    by (simp add: infos discover_eq pg_stock_def source_info_new_def newest_first_def vhost_def system_log_def)
qed

definition sample_panel :: pg_source where
  "sample_panel = (sample_pg 3) \<lparr>
     ps_fs := \<lparr> dv_read_dir = (\<lambda>_. Some [''/l/a.example-access.log'']), dv_is_file = (\<lambda>_. True) \<rparr>,
     ps_glob := (\<lambda>_. Some (\<lambda>_. True)),
     ps_watching := \<lparr> lw_directories = [\<lparr> dir_path = ''/l'', dir_pattern = ''*'' \<rparr>], lw_files = [] \<rparr> \<rparr>"

lemma sample_panel_discover:
  "discover (ps_fs sample_panel) (ps_glob sample_panel) (ps_watching sample_panel) = [sample_source]"
  by (simp add: sample_panel_def) code_simp

lemma panel_counts_are_the_stock_witness:
  "map_sum id (map si_entry_count) (fst (pg_sources sample_panel)) = Inr [3]"
proof -
  have "pg_stock sample_panel = pg_stock (sample_pg 3)"
    by (simp add: fun_eq_iff pg_stock_def sample_panel_def)
  then have n: "length (pg_stock sample_panel sample_source) = 3" by (simp add: sample_stock)
  have "\<exists>infos. fst (pg_sources sample_panel) = Inr infos"
    using sample_panel_discover
    by (simp add: pg_sources_def partition_by_kind_def counts_for_def count_entries_def run_query_def
        sample_source_def vhost_def) (simp add: sample_panel_def sample_pg_def)
  then obtain infos p' where "pg_sources sample_panel = (Inr infos, p')" by (metis surj_pair fst_conv)
  with panel_counts_are_the_stock [OF this] n sample_panel_discover show ?thesis by simp
qed

end
