(* ===== verification/Shell.thy ===== *)
theory Shell
  imports Viewer
begin

text \<open>
  The shell of the viewer: the containers \<open>App\<close> and \<open>Composite\<close> (\<open>src/src/tui/app.rs\<close>,
  \<open>components/mod.rs\<close>), the status bar, and of \<open>src/src/tui/terminal.rs\<close> the task that listens for events
  and the set-up and reset of the terminal. Properties: the composed application behaves as the viewer
  alone (\<open>tui_loop\<close>), and a session leaves the terminal as it found it unless the set-up fails half way.
\<close>

section \<open>Components\<close>

text \<open>The operations of \<open>Component\<close> on the state of the whole application; \<open>now\<close> is what the clock shows.\<close>

record 's component =
  cp_init :: "'s \<Rightarrow> (sentinel_error + unit) \<times> 's"
  cp_handle :: "nat \<times> nat \<Rightarrow> action \<Rightarrow> 's \<Rightarrow> (sentinel_error + unit) \<times> 's"
  cp_draw :: "nat \<times> nat \<Rightarrow> 's \<Rightarrow> 's"

text \<open>Every component in order, up to the first error.\<close>

fun run_each :: "('c \<Rightarrow> 's \<Rightarrow> (sentinel_error + unit) \<times> 's) \<Rightarrow> 'c list \<Rightarrow> 's \<Rightarrow> (sentinel_error + unit) \<times> 's" where
  "run_each f [] s = (Inr (), s)"
| "run_each f (c # cs) s = (case f c s of (Inl e, s') \<Rightarrow> (Inl e, s') | (Inr _, s') \<Rightarrow> run_each f cs s')"

definition composite_init :: "'s component list \<Rightarrow> 's \<Rightarrow> (sentinel_error + unit) \<times> 's" where
  "composite_init = run_each cp_init"

definition composite_handle ::
  "'s component list \<Rightarrow> nat \<times> nat \<Rightarrow> action \<Rightarrow> 's \<Rightarrow> (sentinel_error + unit) \<times> 's" where
  "composite_handle cs now act = run_each (\<lambda>c. cp_handle c now act) cs"

definition composite_draw :: "'s component list \<Rightarrow> nat \<times> nat \<Rightarrow> 's \<Rightarrow> 's" where
  "composite_draw cs a = fold (\<lambda>c. cp_draw c a) cs"

text \<open>The state of the application: the viewer, its data source, and the message of the status bar.\<close>

record 'd app =
  ap_viewer :: viewer
  ap_data :: 'd
  ap_message :: string

definition with_viewer :: "'d app \<Rightarrow> viewer \<times> 'd \<Rightarrow> 'd app" where
  "with_viewer s st = s \<lparr> ap_viewer := fst st, ap_data := snd st \<rparr>"

definition log_viewer :: "screen \<Rightarrow> 'd data_ops \<Rightarrow> 'd app component" where
  "log_viewer sc ops =
     \<lparr> cp_init = (\<lambda>s. case viewer_init ops (ap_viewer s, ap_data s) of (r, st) \<Rightarrow> (r, with_viewer s st)),
       cp_handle = (\<lambda>now act s. (Inr (), with_viewer s (viewer_action ops now act (ap_viewer s, ap_data s)))),
       cp_draw = (\<lambda>a s. s \<lparr> ap_viewer := viewer_draw sc a (ap_viewer s) \<rparr>) \<rparr>"

definition status_bar :: "'d app component" where
  "status_bar = \<lparr> cp_init = (\<lambda>s. (Inr (), s)), cp_handle = (\<lambda>_ _ s. (Inr (), s)), cp_draw = (\<lambda>_ s. s) \<rparr>"

definition app_components :: "screen \<Rightarrow> 'd data_ops \<Rightarrow> 'd app component list" where
  "app_components sc ops = [log_viewer sc ops, status_bar]"

definition app_new :: "'d \<Rightarrow> 'd app" where
  "app_new d = \<lparr> ap_viewer = viewer_new, ap_data = d, ap_message = [] \<rparr>"

section \<open>The event listener\<close>

text \<open>
  What the listener's \<open>select\<close> takes in a round. Sending waits while the channel is full, so what is sent
  is what is received, in order, as long as the receiver is there.
\<close>

datatype listener_round = TokenCancelled | Ticked | Terminal crossterm_event | StreamEnded

fun listener :: "listener_round list \<Rightarrow> tui_event list \<times> bool" where
  "listener [] = ([], False)"
| "listener (TokenCancelled # rs) = ([], True)"
| "listener (Ticked # rs) = (case listener rs of (es, ended) \<Rightarrow> (EvTick # es, ended))"
| "listener (Terminal e # rs) = (case listener rs of (es, ended) \<Rightarrow> (map_event e # es, ended))"
| "listener (StreamEnded # rs) = ([], True)"

section \<open>The loop of the application\<close>

text \<open>
  A frame is the size of the terminal, \<open>None\<close> when drawing fails, with the clock of the turn; \<open>hung\<close>
  says that the listener has ended. The result is \<open>None\<close> while the loop waits for more.
\<close>

fun app_loop ::
  "'s component list \<Rightarrow> ((nat \<times> nat) option \<times> nat \<times> nat) list \<Rightarrow> tui_event list \<Rightarrow> bool \<Rightarrow> 's \<Rightarrow>
   (sentinel_error + unit) option \<times> 's" where
  "app_loop cs [] es hung s = (None, s)"
| "app_loop cs ((None, now) # fs) es hung s = (Some (Inr ()), s)"
| "app_loop cs ((Some a, now) # fs) [] hung s = (if hung then Some (Inr ()) else None, composite_draw cs a s)"
| "app_loop cs ((Some a, now) # fs) (e # es) hung s =
     (let s' = composite_draw cs a s
      in case event_to_action e of
           None \<Rightarrow> app_loop cs fs es hung s'
         | Some act \<Rightarrow>
             if act = Quit then (Some (Inr ()), s')
             else (case composite_handle cs now act s' of
                     (Inl err, s'') \<Rightarrow> (Some (Inl err), s'')
                   | (Inr _, s'') \<Rightarrow> app_loop cs fs es hung s''))"

definition app_run ::
  "'s component list \<Rightarrow> ((nat \<times> nat) option \<times> nat \<times> nat) list \<Rightarrow> listener_round list \<Rightarrow> 's \<Rightarrow>
   (sentinel_error + unit) option \<times> 's" where
  "app_run cs fs rounds s =
     (case composite_init cs s of
        (Inl e, s') \<Rightarrow> (Some (Inl e), s')
      | (Inr _, s') \<Rightarrow> (case listener rounds of (es, ended) \<Rightarrow> app_loop cs fs es ended s'))"

lemma app_handle:
  "composite_handle (app_components sc ops) now act s =
    (Inr (), with_viewer s (viewer_action ops now act (ap_viewer s, ap_data s)))"
  by (simp add: composite_handle_def app_components_def log_viewer_def status_bar_def)

lemma app_draw:
  "composite_draw (app_components sc ops) a s = s \<lparr> ap_viewer := viewer_draw sc a (ap_viewer s) \<rparr>"
  by (simp add: composite_draw_def app_components_def log_viewer_def status_bar_def)

lemma app_init:
  "composite_init (app_components sc ops) s =
    (case viewer_init ops (ap_viewer s, ap_data s) of (r, st) \<Rightarrow> (r, with_viewer s st))"
  by (simp add: composite_init_def app_components_def log_viewer_def status_bar_def split: prod.split sum.split)

definition frame_of :: "turn \<Rightarrow> (nat \<times> nat) option \<times> nat \<times> nat" where
  "frame_of t = (tn_drawn t, tn_now t)"

lemma app_loop_viewer:
  "app_loop (app_components sc ops) (map frame_of ts) (map tn_event ts) hung s =
    (case tui_loop sc ops ts (ap_viewer s, ap_data s) of
       (ended, st) \<Rightarrow> (if ended then Some (Inr ()) else None, with_viewer s st))"
proof (induction ts arbitrary: s)
  case Nil
  then show ?case by (simp add: with_viewer_def)
next
  case (Cons t ts)
  obtain a b where now: "tn_now t = (a, b)" by (cases "tn_now t")
  show ?case
  proof (cases "tn_drawn t")
    case None
    then show ?thesis by (simp add: frame_of_def now with_viewer_def)
  next
    case (Some sz)
    let ?s = "s \<lparr> ap_viewer := viewer_draw sc sz (ap_viewer s) \<rparr>"
    have st: "map_prod (viewer_draw sc sz) id (ap_viewer s, ap_data s) = (ap_viewer ?s, ap_data ?s)" by simp
    have w: "with_viewer ?s x = with_viewer s x" for x by (simp add: with_viewer_def)
    have w2: "with_viewer (with_viewer ?s y) x = with_viewer s x" for x y by (simp add: with_viewer_def)
    show ?thesis
    proof (cases "event_to_action (tn_event t)")
      case None
      with Cons.IH [of ?s] Some show ?thesis by (simp add: frame_of_def now app_draw w Let_def)
    next
      case act: (Some act)
      let ?st = "viewer_action ops (a, b) act (ap_viewer ?s, ap_data ?s)"
      have "(ap_viewer (with_viewer ?s ?st), ap_data (with_viewer ?s ?st)) = ?st"
        by (simp add: with_viewer_def)
      with Cons.IH [of "with_viewer ?s ?st"] Some act show ?thesis
        by (simp add: frame_of_def now app_draw app_handle w w2 with_viewer_def Let_def)
    qed
  qed
qed



section \<open>The terminal\<close>

record tty =
  ty_raw :: bool
  ty_alternate :: bool
  ty_mouse :: bool

text \<open>
  What the terminal library answers: creating the back end, raw mode, the two escape sequences of the
  set-up (which of them got out, and the error), and which parts of a reset take effect.
\<close>

record tty_api =
  ta_new :: "string + unit"
  ta_raw :: "string + unit"
  ta_enter :: "bool \<times> bool \<times> (string + unit)"
  ta_leave :: "bool \<times> bool"
  ta_cooked :: bool

definition setup_terminal :: "tty_api \<Rightarrow> tty \<Rightarrow> (sentinel_error + unit) \<times> tty" where
  "setup_terminal api y =
     (case ta_raw api of
        Inl e \<Rightarrow> (Inl (Internal (''failed to enable raw mode: '' @ e)), y)
      | Inr _ \<Rightarrow>
          (case ta_enter api of (alt, mouse, r) \<Rightarrow>
             (map_err (\<lambda>e. Internal (''failed to setup terminal: '' @ e)) r,
              y \<lparr> ty_raw := True, ty_alternate := ty_alternate y \<or> alt, ty_mouse := ty_mouse y \<or> mouse \<rparr>)))"

definition reset_terminal :: "tty_api \<Rightarrow> tty \<Rightarrow> tty" where
  "reset_terminal api y =
     (case ta_leave api of (alt, mouse) \<Rightarrow>
        \<lparr> ty_raw = (ty_raw y \<and> \<not> ta_cooked api), ty_alternate = (ty_alternate y \<and> \<not> alt),
          ty_mouse = (ty_mouse y \<and> \<not> mouse) \<rparr>)"

definition tui_new :: "tty_api \<Rightarrow> tty \<Rightarrow> (sentinel_error + unit) \<times> tty" where
  "tui_new api y =
     (case ta_new api of
        Inl e \<Rightarrow> (Inl (Internal (''failed to initialize terminal: '' @ e)), y)
      | Inr _ \<Rightarrow> setup_terminal api y)"

text \<open>
  \<open>run_tui\<close>: the terminal is reset after the loop and again when \<open>Tui\<close> is dropped; an error of the
  application returns before the first of these. \<open>None\<close> is a loop that has not ended.
\<close>

definition tui_session ::
  "tty_api \<Rightarrow> tty \<Rightarrow> (sentinel_error + unit) option \<Rightarrow> (sentinel_error + unit) option \<times> tty" where
  "tui_session api y outcome =
     (case tui_new api y of
        (Inl e, y') \<Rightarrow> (Some (Inl e), y')
      | (Inr _, y') \<Rightarrow>
          (case outcome of
             None \<Rightarrow> (None, y')
           | Some (Inl e) \<Rightarrow> (Some (Inl e), reset_terminal api y')
           | Some (Inr _) \<Rightarrow> (Some (Inr ()), reset_terminal api (reset_terminal api y'))))"

definition usual_tty :: tty where
  "usual_tty = \<lparr> ty_raw = False, ty_alternate = False, ty_mouse = False \<rparr>"

text \<open>
  A session gives the terminal back. Provided a reset takes effect, a session that has ended, with
  or without an error, leaves the terminal as it was, with one exception: when raw mode is on and
  entering the alternate screen fails, the program returns with the terminal still in raw mode.
\<close>

lemma terminal_given_back:
  assumes "ta_leave api = (True, True)" "ta_cooked api"
    and "tui_session api usual_tty outcome = (Some r, y)"
  shows "(if is_ok (ta_new api) \<and> is_ok (ta_raw api) \<and> \<not> is_ok (snd (snd (ta_enter api)))
          then ty_raw y \<and> \<not> is_ok r else y = usual_tty)"
  using assms
  by (auto simp: tui_session_def tui_new_def setup_terminal_def reset_terminal_def usual_tty_def map_err_def is_ok_def
      split: sum.splits prod.splits option.splits if_splits)

definition failing_screen :: tty_api where
  "failing_screen = \<lparr> ta_new = Inr (), ta_raw = Inr (), ta_enter = (False, False, Inl ''broken pipe''),
     ta_leave = (True, True), ta_cooked = True \<rparr>"

lemma terminal_given_back_witness:
  "\<exists>r y. tui_session failing_screen usual_tty (Some (Inr ())) = (Some r, y) \<and> ty_raw y \<and> \<not> is_ok r"
proof -
  obtain r y where s: "tui_session failing_screen usual_tty (Some (Inr ())) = (Some r, y)"
    by (simp add: tui_session_def tui_new_def setup_terminal_def failing_screen_def)
  have "ta_leave failing_screen = (True, True)" "ta_cooked failing_screen" by (simp_all add: failing_screen_def)
  from terminal_given_back [OF this s] show ?thesis using s by (auto simp: failing_screen_def)
qed

end
