(* ===== verification/Lossy.thy ===== *)
theory Lossy
  imports Text
begin

text \<open>
  \<open>String::from_utf8_lossy\<close> of the standard library on lists of bytes: every maximal part of an
  incomplete or wrong character becomes one replacement character. Well-formed text is returned as it
  is, and the result is always well formed.
\<close>

text \<open>U+FFFD in UTF-8.\<close>

definition replacement :: string where
  "replacement = of_bytes [239, 191, 189]"

text \<open>How many bytes a wrong character takes: the longest start of a character that is there, or one.\<close>

definition invalid_width :: "string \<Rightarrow> nat" where
  "invalid_width s =
     (case s of
        a # b # r \<Rightarrow>
          if in_range 224 244 a \<and> second_ok a b then
            if in_range 240 244 a \<and> (case r of [] \<Rightarrow> False | c # _ \<Rightarrow> is_cont c) then 3 else 2
          else 1
      | _ \<Rightarrow> 1)"

lemma invalid_width_pos [simp]: "0 < invalid_width s"
  by (simp add: invalid_width_def split: list.split)

function from_utf8_lossy :: "string \<Rightarrow> string" where
  "from_utf8_lossy s =
     (if s = [] then []
      else (case utf8_width s of
              Some w \<Rightarrow> take w s @ from_utf8_lossy (drop w s)
            | None \<Rightarrow> replacement @ from_utf8_lossy (drop (invalid_width s) s)))"
  by pat_completeness auto
termination
  by (relation "measure length") (auto dest: utf8_width_le)

declare from_utf8_lossy.simps [simp del]

lemma lossy_Nil [simp]: "from_utf8_lossy [] = []"
  by (simp add: from_utf8_lossy.simps)

lemma lossy_utf8: "utf8_ok s \<Longrightarrow> from_utf8_lossy s = s"
proof (induction s rule: from_utf8_lossy.induct)
  case (1 s)
  show ?case
  proof (cases "s = []")
    case False
    with 1 obtain w where "utf8_width s = Some w" "utf8_ok (drop w s)"
      by (auto simp: utf8_ok.simps [of s] split: option.splits)
    with 1 False show ?thesis by (simp add: from_utf8_lossy.simps [of s])
  qed simp
qed

lemma utf8_width_append:
  assumes "utf8_width s = Some w"
  shows "utf8_width (s @ t) = Some w"
  using assms by (cases rule: utf8_width_cases) simp_all

lemma utf8_ok_append: "utf8_ok s \<Longrightarrow> utf8_ok (s @ t) = utf8_ok t"
proof (induction s rule: utf8_ok.induct)
  case (1 s)
  show ?case
  proof (cases "s = []")
    case False
    with 1 obtain w where w: "utf8_width s = Some w" "utf8_ok (drop w s)"
      by (auto simp: utf8_ok.simps [of s] split: option.splits)
    then have "drop w (s @ t) = drop w s @ t" using utf8_width_le [of s w] by simp
    with w 1 False show ?thesis
      by (subst utf8_ok.simps) (simp add: utf8_width_append)
  qed simp
qed

lemma utf8_ok_first: "utf8_width s = Some w \<Longrightarrow> utf8_ok (take w s)"
  using utf8_width_take [of s w w] utf8_width_le [of s w]
  by (subst utf8_ok.simps) (simp add: utf8_ok.simps [of "[]"])

lemma utf8_ok_replacement: "utf8_ok replacement"
  by (simp add: replacement_def of_bytes_def utf8_ok.simps in_range_def second_ok_def is_cont_def)

lemma utf8_ok_lossy: "utf8_ok (from_utf8_lossy s)"
proof (induction s rule: from_utf8_lossy.induct)
  case (1 s)
  then show ?case
    by (auto simp: from_utf8_lossy.simps [of s] utf8_ok.simps [of "[]"] utf8_ok_append utf8_ok_first
        utf8_ok_replacement split: option.split)
qed

lemma utf8_ok_ascii: "list_all is_ascii s \<Longrightarrow> utf8_ok s"
  by (induction s) (subst utf8_ok.simps, simp add: is_ascii_def)+

end
