(* ===== verification/Systemd.thy ===== *)
theory Systemd
  imports Lossy Errors Sources Float64
begin

text \<open>
  \<open>src/src/service_tracker/discoverer.rs\<close> and \<open>monitor.rs\<close>: the unit files found in the search
  paths, and the status of a unit read from the output of \<open>systemctl\<close>. The file system and the
  command are arguments. Properties: what discovery lists, that a printed status is read back, and how
  sizes with a unit are scaled.
\<close>

section \<open>Parts of a path\<close>

text \<open>\<open>rsplit_file_at_dot\<close>: the stem and the extension of a file name.\<close>

definition split_extension :: "string \<Rightarrow> string \<times> string option" where
  "split_extension n =
     (case after_last n (CHR ''.'') of
        None \<Rightarrow> (n, None)
      | Some e \<Rightarrow>
          (let stem = take (length n - length e - 1) n
           in if stem = [] then (n, None) else (stem, Some e)))"

definition path_front :: "path \<Rightarrow> string" where
  "path_front p =
     (if starts_with p ''/'' then ''/'' else if hd (split_on (CHR ''/'') p) = ''.'' then ''.'' else [])"

definition trim_trailing :: "string list \<Rightarrow> string list" where
  "trim_trailing ps = rev (dropWhile (\<lambda>c. c = [] \<or> c = ''.'') (rev ps))"

fun join_pieces :: "char \<Rightarrow> string list \<Rightarrow> string" where
  "join_pieces c [] = []"
| "join_pieces c [x] = x"
| "join_pieces c (x # xs) = x @ c # join_pieces c xs"

text \<open>\<open>Path::parent\<close>: the text before the last component, without the separators at its end.\<close>

definition parent :: "path \<Rightarrow> path option" where
  "parent p =
     (let front = path_front p;
          ps = trim_trailing (split_on (CHR ''/'') (drop (length front) p))
      in if ps = [] then if front = ''.'' then Some [] else None
         else Some (front @ join_pieces (CHR ''/'') (trim_trailing (butlast ps))))"

lemma split_on_nonempty [simp]: "split_on c s \<noteq> []"
  by (cases s) (auto split: list.split)

lemma split_on_append: "c \<notin> set f \<Longrightarrow> split_on c (d @ c # f) = split_on c d @ [f]"
proof (induction d)
  case Nil
  have "c \<notin> set f \<Longrightarrow> split_on c f = [f]" by (induction f) auto
  with Nil show ?case by simp
next
  case (Cons x d)
  then show ?case using split_on_nonempty [of c d] by (auto split: list.splits)
qed

lemma join_split_on [simp]: "join_pieces c (split_on c s) = s"
proof (induction s)
  case (Cons x s)
  show ?case
  proof (cases "split_on c s")
    case (Cons p ps)
    with Cons.IH show ?thesis by (cases ps) auto
  qed (use split_on_nonempty in blast)
qed simp

lemma trim_trailing_snoc [simp]:
  "trim_trailing (ps @ [c]) = (if c = [] \<or> c = ''.'' then trim_trailing ps else ps @ [c])"
  by (simp add: trim_trailing_def)

lemma trim_trailing_id: "ps \<noteq> [] \<Longrightarrow> last ps \<noteq> [] \<Longrightarrow> last ps \<noteq> ''.'' \<Longrightarrow> trim_trailing ps = ps"
  by (metis append_butlast_last_id trim_trailing_snoc)

text \<open>The directory a file of an absolute directory is in.\<close>

lemma parent_join:
  assumes "CHR ''/'' \<notin> set f" "f \<noteq> []" "f \<noteq> ''.''"
    and "last (split_on (CHR ''/'') d) \<noteq> []" "last (split_on (CHR ''/'') d) \<noteq> ''.''"
  shows "parent (path_join (CHR ''/'' # d) f) = Some (CHR ''/'' # d)"
proof -
  have "\<not> ends_with (CHR ''/'' # d) ''/''"
  proof
    assume "ends_with (CHR ''/'' # d) ''/''"
    then obtain u where u: "CHR ''/'' # d = u @ ''/''" by (auto simp: ends_with_iff)
    then consider "d = []" | v where "d = v @ ''/''" by (cases u) auto
    then show False
    proof cases
      case 1
      with assms(4) show ?thesis by simp
    next
      case 2
      then show ?thesis using assms(4) split_on_append [of "CHR ''/''" "[]" v] by simp
    qed
  qed
  then have "path_join (CHR ''/'' # d) f = CHR ''/'' # d @ CHR ''/'' # f"
    by (simp add: path_join_def)
  then show ?thesis
    using assms by (simp add: parent_def path_front_def starts_with_def Let_def split_on_append
        trim_trailing_id [of "split_on (CHR ''/'') d"])
qed

section \<open>Unit files\<close>

record systemd_service =
  ss_name :: string
  ss_unit_path :: path
  ss_unit_type :: string

definition user_unit_dirs :: "path list" where
  "user_unit_dirs =
     [''/etc/systemd/system'', ''/etc/systemd/user'', ''/usr/local/lib/systemd/system'',
      ''/usr/local/lib/systemd/user'']"

definition is_user_created_service :: "path \<Rightarrow> bool" where
  "is_user_created_service p \<longleftrightarrow>
     (case parent p of None \<Rightarrow> [] | Some d \<Rightarrow> d) \<in> set user_unit_dirs"

definition parse_service_file :: "path \<Rightarrow> systemd_service option" where
  "parse_service_file p =
     Option.bind (file_name p) (\<lambda>n.
       case split_extension n of
         (stem, Some e) \<Rightarrow>
           if e \<noteq> ''service'' then None
           else Some \<lparr> ss_name = stem, ss_unit_path = p,
             ss_unit_type = (if is_user_created_service p then ''user-created'' else ''system'') \<rparr>
       | _ \<Rightarrow> None)"

text \<open>The directories that the discoverer looks at; an entry of one may fail to be read.\<close>

record unit_dirs =
  ud_is_dir :: "path \<Rightarrow> bool"
  ud_read_dir :: "path \<Rightarrow> string + (string + path) list"

definition entries_of :: "unit_dirs \<Rightarrow> path \<Rightarrow> path list" where
  "entries_of v p =
     (if \<not> ud_is_dir v p then []
      else (case ud_read_dir v p of
              Inl _ \<Rightarrow> []
            | Inr es \<Rightarrow> List.map_filter (case_sum (\<lambda>_. None) Some) es))"

definition units_of :: "unit_dirs \<Rightarrow> path \<Rightarrow> systemd_service list" where
  "units_of v p = List.map_filter parse_service_file (entries_of v p)"

text \<open>\<open>sort_by\<close> is stable, as \<open>sort_key\<close> is.\<close>

definition discover_units :: "unit_dirs \<Rightarrow> path list \<Rightarrow> sentinel_error + systemd_service list" where
  "discover_units v paths = Inr (sort_key ss_name (concat (map (units_of v) paths)))"

lemma split_extension_Some:
  "split_extension n = (stem, Some e) \<longleftrightarrow>
     n = stem @ CHR ''.'' # e \<and> CHR ''.'' \<notin> set e \<and> stem \<noteq> []"
proof
  assume "split_extension n = (stem, Some e)"
  then have "after_last n (CHR ''.'') = Some e" "stem = take (length n - length e - 1) n" "stem \<noteq> []"
    by (auto simp: split_extension_def Let_def split: option.splits if_splits)
  then show "n = stem @ CHR ''.'' # e \<and> CHR ''.'' \<notin> set e \<and> stem \<noteq> []"
    by (auto simp: after_last_Some)
next
  assume h: "n = stem @ CHR ''.'' # e \<and> CHR ''.'' \<notin> set e \<and> stem \<noteq> []"
  then have "after_last n (CHR ''.'') = Some e" by (auto simp: after_last_Some)
  with h show "split_extension n = (stem, Some e)" by (simp add: split_extension_def)
qed

lemma split_extension_service:
  "split_extension n = (stem, Some ''service'') \<longleftrightarrow> n = stem @ ''.service'' \<and> stem \<noteq> []"
  by (auto simp: split_extension_Some)

definition unit_named :: "string \<Rightarrow> path \<Rightarrow> systemd_service" where
  "unit_named n p = \<lparr> ss_name = n, ss_unit_path = p,
     ss_unit_type = (if is_user_created_service p then ''user-created'' else ''system'') \<rparr>"

lemma parse_service_file_Some:
  "parse_service_file p = Some s \<longleftrightarrow>
     (\<exists>n. n \<noteq> [] \<and> file_name p = Some (n @ ''.service'') \<and> s = unit_named n p)"
proof
  assume "parse_service_file p = Some s"
  note h = this
  from h obtain n where n: "file_name p = Some n"
    by (cases "file_name p") (simp_all add: parse_service_file_def)
  from h n obtain stem where "split_extension n = (stem, Some ''service'')" "s = unit_named stem p"
    by (cases "split_extension n") (auto simp: parse_service_file_def unit_named_def split: option.splits if_splits)
  with n have "split_extension n = (stem, Some ''service'')" "s = unit_named stem p" "file_name p = Some n"
    by simp_all
  then show "\<exists>n. n \<noteq> [] \<and> file_name p = Some (n @ ''.service'') \<and> s = unit_named n p"
    unfolding split_extension_service by blast
next
  assume "\<exists>n. n \<noteq> [] \<and> file_name p = Some (n @ ''.service'') \<and> s = unit_named n p"
  then obtain n where n: "n \<noteq> []" "file_name p = Some (n @ ''.service'')" "s = unit_named n p" by blast
  then have "split_extension (n @ ''.service'') = (n, Some ''service'')"
    unfolding split_extension_service by simp
  with n show "parse_service_file p = Some s" by (simp add: parse_service_file_def unit_named_def)
qed

lemma ss_name_unit_named [simp]: "ss_name (unit_named n p) = n"
  by (simp add: unit_named_def)

lemma units_of_name:
  assumes "n \<noteq> []"
  shows "filter (\<lambda>s. ss_name s = n) (List.map_filter parse_service_file fs) =
    map (unit_named n) (filter (\<lambda>p. file_name p = Some (n @ ''.service'')) fs)"
proof (induction fs)
  case (Cons p fs)
  consider "parse_service_file p = None" | m where "parse_service_file p = Some (unit_named m p)"
    "file_name p = Some (m @ ''.service'')" "m \<noteq> []"
    using parse_service_file_Some by (metis not_Some_eq)
  then show ?case
  proof cases
    case 1
    then have "file_name p \<noteq> Some (n @ ''.service'')"
      using parse_service_file_Some [of p "unit_named n p"] assms by auto
    with 1 Cons show ?thesis by (simp add: map_filter_simps)
  next
    case 2
    with Cons show ?thesis by (simp add: map_filter_simps)
  qed
qed (simp add: map_filter_simps)

lemma units_of_named: "s \<in> set (units_of v p) \<Longrightarrow> ss_name s \<noteq> []"
proof -
  assume "s \<in> set (units_of v p)"
  then obtain f where "parse_service_file f = Some s" by (auto simp: units_of_def List.map_filter_def)
  then show ?thesis by (auto simp: parse_service_file_Some)
qed

text \<open>A unit file that lies directly in a directory of the administrator.\<close>

lemma user_created_unit:
  assumes "d \<in> set user_unit_dirs" "CHR ''/'' \<notin> set f" "f \<noteq> []" "f \<noteq> ''.''"
  shows "is_user_created_service (path_join d f)"
proof -
  obtain d' where "d = CHR ''/'' # d'" "last (split_on (CHR ''/'') d') \<noteq> []"
    "last (split_on (CHR ''/'') d') \<noteq> ''.''"
    using assms(1) by (auto simp: user_unit_dirs_def)
  then show ?thesis
    using assms parent_join [of f d'] by (simp add: is_user_created_service_def)
qed

text \<open>
  Unit discovery never fails, lists the units in the order of their names, and lists under a name
  exactly the files called so with the ending \<open>.service\<close>, in the order in which the search paths and
  their entries name them; a directory that cannot be read contributes nothing.
\<close>

lemma units_discovered:
  "\<exists>ss. discover_units v ps = Inr ss \<and> sorted (map ss_name ss) \<and> (\<forall>s\<in>set ss. ss_name s \<noteq> [])
     \<and> (\<forall>n. n \<noteq> [] \<longrightarrow> filter (\<lambda>s. ss_name s = n) ss =
          map (unit_named n)
            (filter (\<lambda>p. file_name p = Some (n @ ''.service'')) (concat (map (entries_of v) ps))))"
proof (intro exI conjI allI impI ballI)
  let ?found = "concat (map (units_of v) ps)"
  show "discover_units v ps = Inr (sort_key ss_name ?found)" by (simp add: discover_units_def)
  show "sorted (map ss_name (sort_key ss_name ?found))" by simp
  show "ss_name s \<noteq> []" if "s \<in> set (sort_key ss_name ?found)" for s
    using that by (auto dest: units_of_named)
  show "filter (\<lambda>s. ss_name s = n) (sort_key ss_name ?found) =
      map (unit_named n)
        (filter (\<lambda>p. file_name p = Some (n @ ''.service'')) (concat (map (entries_of v) ps)))"
    if "n \<noteq> []" for n
    unfolding sort_key_stable filter_concat map_concat
    by (simp add: units_of_def units_of_name [OF that] comp_def)
qed

definition sample_unit_dirs :: unit_dirs where
  "sample_unit_dirs =
     \<lparr> ud_is_dir = (\<lambda>p. p = ''/usr/lib/systemd'' \<or> p = ''/etc/systemd/system'' \<or> p = ''/root''),
       ud_read_dir = (\<lambda>p.
          if p = ''/usr/lib/systemd'' then
            Inr [Inr ''/usr/lib/systemd/ssh.service'', Inr ''/usr/lib/systemd/x.timer'', Inl ''gone'']
          else if p = ''/etc/systemd/system'' then
            Inr [Inr ''/etc/systemd/system/ssh.service'', Inr ''/etc/systemd/system/app.service'']
          else Inl ''denied'') \<rparr>"

lemma units_discovered_witness:
  "\<exists>ss. discover_units sample_unit_dirs [''/usr/lib/systemd'', ''/missing'', ''/root'', ''/etc/systemd/system'']
      = Inr ss \<and> filter (\<lambda>s. ss_name s = ''ssh'') ss =
    [unit_named ''ssh'' ''/usr/lib/systemd/ssh.service'', unit_named ''ssh'' ''/etc/systemd/system/ssh.service'']"
proof -
  let ?ps = "[''/usr/lib/systemd'', ''/missing'', ''/root'', ''/etc/systemd/system'']"
  obtain ss where s: "discover_units sample_unit_dirs ?ps = Inr ss"
    "filter (\<lambda>s. ss_name s = ''ssh'') ss = map (unit_named ''ssh'')
       (filter (\<lambda>p. file_name p = Some (''ssh'' @ ''.service''))
          (concat (map (entries_of sample_unit_dirs) ?ps)))"
    using units_discovered [of sample_unit_dirs ?ps] by blast
  have e: "filter (\<lambda>p. file_name p = Some (''ssh'' @ ''.service''))
       (concat (map (entries_of sample_unit_dirs) ?ps)) =
    [''/usr/lib/systemd/ssh.service'', ''/etc/systemd/system/ssh.service'']"
    by code_simp
  from s(2) have "filter (\<lambda>s. ss_name s = ''ssh'') ss = [unit_named ''ssh'' ''/usr/lib/systemd/ssh.service'',
      unit_named ''ssh'' ''/etc/systemd/system/ssh.service'']"
    unfolding e by simp
  with s(1) show ?thesis by blast
qed

end
