(* ===== verification/UnitStatus.thy ===== *)
theory UnitStatus
  imports Systemd
begin

text \<open>
  \<open>src/src/service_tracker/monitor.rs\<close>: the status of a unit, read from what \<open>systemctl show\<close> prints.
  Running the command is an argument. Numbers are parsed at their width; sizes with a unit go through
  \<open>f64\<close>, whose parser is the one of the standard library with signs, exponents and the special values.
\<close>

section \<open>Parsing floating-point numbers\<close>

datatype float_value = NaN | Num bool f64

text \<open>The digits of an exponent; the accumulator stops growing at 65536.\<close>

definition exponent_digits :: "string \<Rightarrow> nat" where
  "exponent_digits ds = foldl (\<lambda>n c. if n < 65536 then 10 * n + (byte c - 48) else n) 0 ds"

definition all_digits :: "string \<Rightarrow> bool" where
  "all_digits ds \<longleftrightarrow> ds \<noteq> [] \<and> list_all is_ascii_digit ds"

definition signed :: "string \<Rightarrow> bool \<times> string" where
  "signed s =
     (case s of [] \<Rightarrow> (False, [])
      | c # cs \<Rightarrow> if c = CHR ''-'' then (True, cs) else if c = CHR ''+'' then (False, cs) else (False, s))"

definition float_exponent :: "string \<Rightarrow> int option" where
  "float_exponent s =
     (case s of [] \<Rightarrow> Some 0
      | c # cs \<Rightarrow>
          if c = CHR ''e'' \<or> c = CHR ''E'' then
            (case signed cs of (neg, ds) \<Rightarrow>
               if all_digits ds then Some ((if neg then - 1 else 1) * int (exponent_digits ds)) else None)
          else None)"

definition pow10 :: "int \<Rightarrow> rat" where
  "pow10 e = (if 0 \<le> e then 10 ^ nat e else 1 / 10 ^ nat (- e))"

definition decimal :: "string \<Rightarrow> rat option" where
  "decimal s =
     (let i = takeWhile is_ascii_digit s;
          r = dropWhile is_ascii_digit s;
          (f, r') = (case r of [] \<Rightarrow> ([], [])
                     | c # cs \<Rightarrow>
                         if c = CHR ''.'' then (takeWhile is_ascii_digit cs, dropWhile is_ascii_digit cs)
                         else ([], r))
      in if i @ f = [] then None
         else map_option (\<lambda>e. of_nat (digits_val (i @ f)) * pow10 (e - int (length f))) (float_exponent r'))"

definition parse_float :: "string \<Rightarrow> float_value option" where
  "parse_float s =
     (case signed s of (neg, r) \<Rightarrow>
        if r = [] then None
        else (case decimal r of
                Some q \<Rightarrow> Some (Num neg (to_f64 q))
              | None \<Rightarrow>
                  (let w = map ascii_lower r
                   in if w = ''nan'' then Some NaN
                      else if w = ''inf'' \<or> w = ''infinity'' then Some (Num neg Inf) else None)))"

fun float_times :: "float_value \<Rightarrow> rat \<Rightarrow> float_value" where
  "float_times NaN c = NaN"
| "float_times (Num neg x) c = Num neg (f64_times x c)"

text \<open>The cast \<open>as u64\<close>: towards zero, and saturating.\<close>

fun as_u64 :: "float_value \<Rightarrow> 64 word" where
  "as_u64 NaN = 0"
| "as_u64 (Num True x) = 0"
| "as_u64 (Num False Inf) = - 1"
| "as_u64 (Num False (Fin q)) = word_of_int (min \<lfloor>q\<rfloor> (2 ^ 64 - 1))"

declare as_u64.simps [simp del]

section \<open>Properties of a unit\<close>

record command_output =
  co_success :: bool
  co_stdout :: string
  co_stderr :: string

type_synonym systemctl = "string list \<Rightarrow> string + command_output"

record service_status =
  st_name :: string
  st_active_state :: string
  st_sub_state :: string
  st_load_state :: string
  st_main_pid :: "32 word option"
  st_restart_count :: "32 word"
  st_memory_current :: "64 word option"
  st_cpu_usage_seconds :: "f64 option"

definition normalize_unit :: "string \<Rightarrow> string" where
  "normalize_unit service = (if ends_with service ''.service'' then service else service @ ''.service'')"

definition quoted :: "string \<Rightarrow> string" where
  "quoted s = CHR 0x27 # s @ [CHR 0x27]"

definition property_of_line :: "string \<Rightarrow> (string \<times> string) option" where
  "property_of_line l = map_option (\<lambda>(k, v). (trim k, trim v)) (split_once l (CHR ''=''))"

definition insert_line :: "(string \<Rightarrow> string option) \<Rightarrow> string \<Rightarrow> string \<Rightarrow> string option" where
  "insert_line m l = (case property_of_line l of None \<Rightarrow> m | Some (k, v) \<Rightarrow> m(k \<mapsto> v))"

definition shown_properties :: string where
  "shown_properties =
     ''--property=ActiveState,SubState,LoadState,MainPID,NRestart,MemoryCurrent,CPUUsageNSec''"

definition get_systemctl_properties ::
  "systemctl \<Rightarrow> string \<Rightarrow> sentinel_error + (string \<Rightarrow> string option)" where
  "get_systemctl_properties run service =
     (let unit = normalize_unit service
      in and_then (map_err (\<lambda>e. ServiceError (''failed to run systemctl show '' @ quoted unit @ '': '' @ e))
           (run [''show'', shown_properties, unit])) (\<lambda>out.
         if \<not> co_success out then
           Inl (ServiceError (''systemctl show '' @ quoted unit @ '' failed: ''
             @ from_utf8_lossy (co_stderr out)))
         else Inr (foldl insert_line Map.empty (lines (from_utf8_lossy (co_stdout out))))))"

definition parse_pid :: "string option \<Rightarrow> 32 word option" where
  "parse_pid value =
     Option.bind value (\<lambda>v.
       if v = [] \<or> v = ''0'' then None else map_option of_nat (parse_uint (2 ^ 32 - 1) v))"

definition parse_u32 :: "string option \<Rightarrow> 32 word \<Rightarrow> 32 word" where
  "parse_u32 value otherwise =
     (case Option.bind value (parse_uint (2 ^ 32 - 1)) of None \<Rightarrow> otherwise | Some n \<Rightarrow> of_nat n)"

definition parse_bytes :: "string option \<Rightarrow> 64 word option" where
  "parse_bytes value =
     Option.bind value (\<lambda>v.
       if v = [] \<or> v = ''0'' \<or> v = ''inactive'' then None
       else let v = trim v
         in case strip_suffix v ''K'' of
              Some n \<Rightarrow> map_option (\<lambda>x. as_u64 (float_times x 1024)) (parse_float n)
            | None \<Rightarrow>
                (case strip_suffix v ''M'' of
                   Some n \<Rightarrow> map_option (\<lambda>x. as_u64 (float_times (float_times x 1024) 1024)) (parse_float n)
                 | None \<Rightarrow>
                     (case strip_suffix v ''G'' of
                        Some n \<Rightarrow>
                          map_option (\<lambda>x. as_u64 (float_times (float_times (float_times x 1024) 1024) 1024))
                            (parse_float n)
                      | None \<Rightarrow> map_option of_nat (parse_uint (2 ^ 64 - 1) v))))"

definition parse_cpu_usec :: "string option \<Rightarrow> f64 option" where
  "parse_cpu_usec value =
     Option.bind value (\<lambda>v.
       if v = [] \<or> v = ''0'' then None
       else map_option (\<lambda>n. f64_times (to_f64 (of_nat n)) (1 / 1000000000)) (parse_uint (2 ^ 64 - 1) v))"

definition status_of :: "string \<Rightarrow> (string \<Rightarrow> string option) \<Rightarrow> service_status" where
  "status_of name m =
     \<lparr> st_name = name,
       st_active_state = unwrap_or ''unknown'' (m ''ActiveState''),
       st_sub_state = unwrap_or ''unknown'' (m ''SubState''),
       st_load_state = unwrap_or ''not-found'' (m ''LoadState''),
       st_main_pid = parse_pid (m ''MainPID''),
       st_restart_count = parse_u32 (m ''NRestart'') 0,
       st_memory_current = parse_bytes (m ''MemoryCurrent''),
       st_cpu_usage_seconds = parse_cpu_usec (m ''CPUUsageNSec'') \<rparr>"

definition get_status :: "systemctl \<Rightarrow> string \<Rightarrow> sentinel_error + service_status" where
  "get_status run service =
     and_then (get_systemctl_properties run service) (\<lambda>m. Inr (status_of service m))"

section \<open>Active units\<close>

fun until_space :: "string \<Rightarrow> string" where
  "until_space [] = []"
| "until_space (c # cs) =
     (if \<exists>w\<in>set white_space. starts_with (c # cs) w then [] else c # until_space cs)"

text \<open>The first of \<open>split_whitespace\<close>.\<close>

definition first_word :: "string \<Rightarrow> string option" where
  "first_word s = (let t = trim_start s in if t = [] then None else Some (until_space t))"

definition list_active_services :: "systemctl \<Rightarrow> sentinel_error + string list" where
  "list_active_services run =
     and_then (map_err (\<lambda>e. ServiceError (''failed to run systemctl list-units: '' @ e))
       (run [''list-units'', ''--type=service'', ''--state=active'', ''--no-pager'', ''--no-legend''])) (\<lambda>out.
       if \<not> co_success out then
         Inl (ServiceError (''systemctl list-units failed: '' @ from_utf8_lossy (co_stderr out)))
       else Inr (List.map_filter (\<lambda>l. map_option trim (first_word l))
                  (lines (from_utf8_lossy (co_stdout out)))))"

section \<open>Sizes with a unit\<close>

text \<open>A whole number of at most 53 bits, scaled by a power of two, is not rounded.\<close>

lemma to_f64_dyadic:
  assumes "m < 2 ^ 53" "k \<le> 900"
  shows "to_f64 (of_nat m * 2 ^ k) = Fin (of_nat m * 2 ^ k)"
proof (cases "m = 0")
  case True
  then show ?thesis by (simp add: to_f64_def)
next
  case False
  define x :: rat where "x = of_nat m * 2 ^ k"
  have pos: "0 < x" using False by (simp add: x_def)
  have "(of_nat m :: rat) < 2 ^ 53" using assms(1) of_nat_less_iff [of m "2 ^ 53", where ?'a = rat] by simp
  then have "x < 2 ^ 53 * 2 ^ k" unfolding x_def by (rule mult_strict_right_mono) simp
  then have hi: "x < pow2 (53 + int k)" by (simp add: pow2_plus pow2_of_nat pow2_def [of 53])
  have "pow2 (binade_exp x + 52) < pow2 (53 + int k)" using binade_exp(1) [OF pos] hi by linarith
  then have "ulp_exp x \<le> int k" by (simp add: pow2_less_iff ulp_exp_eq)
  then have "(2::rat) ^ k = pow2 (ulp_exp x) * 2 ^ nat (int k - ulp_exp x)"
    by (simp only: pow2_of_nat [symmetric] pow2_plus [symmetric]) simp
  then have "x = of_int (int m * 2 ^ nat (int k - ulp_exp x)) * pow2 (ulp_exp x)"
    by (simp only: x_def of_int_mult of_int_of_nat_eq of_int_power of_int_numeral mult_ac)
  then have "x / pow2 (ulp_exp x) = of_int (int m * 2 ^ nat (int k - ulp_exp x))"
    using pow2_pos [of "ulp_exp x"] by (metis less_irrefl nonzero_mult_div_cancel_right)
  then have "of_int (round_half_even (x / pow2 (ulp_exp x))) = x / pow2 (ulp_exp x)"
    by (simp only: round_half_even_int)
  moreover have "pow2 (ulp_exp x) \<noteq> 0" using pow2_pos [of "ulp_exp x"] by (metis less_irrefl)
  ultimately have e: "of_int (round_half_even (x / pow2 (ulp_exp x))) * pow2 (ulp_exp x) = x" by simp
  have "x < pow2 1024" using hi pow2_mono [of "53 + int k" 1024] assms(2) by simp
  with pos e have "to_f64 x = Fin x" by (simp add: to_f64_def Let_def)
  then show ?thesis by (simp add: x_def)
qed

lemma all_digits_span: "list_all is_ascii_digit s \<Longrightarrow> takeWhile is_ascii_digit s = s \<and> dropWhile is_ascii_digit s = []"
  by (simp add: list_all_iff)

lemma parse_float_show_nat: "parse_float (show_nat n) = Some (Num False (to_f64 (of_nat n)))"
proof -
  have d: "list_all is_ascii_digit (show_nat n)" "show_nat n \<noteq> []" using show_nat_digits by auto
  then obtain c cs where s: "show_nat n = c # cs" by (cases "show_nat n") auto
  with d have "is_ascii_digit c" by simp
  then have "c \<noteq> CHR ''-''" "c \<noteq> CHR ''+''" by (auto simp: is_ascii_digit_def in_range_def byte_def)
  then have "signed (show_nat n) = (False, show_nat n)" by (simp add: s signed_def)
  moreover have "decimal (show_nat n) = Some (of_nat n)"
    using d(2) by (simp add: decimal_def float_exponent_def pow10_def all_digits_span [OF d(1)])
  ultimately show ?thesis using d by (simp add: parse_float_def)
qed

text \<open>The factor of a unit.\<close>

definition unit_bits :: "string \<Rightarrow> nat option" where
  "unit_bits u = map_of [(''K'', 10), (''M'', 20), (''G'', 30)] u"

lemma f64_times_1024:
  assumes "n < 2 ^ 53" "k \<le> 800"
  shows "f64_times (Fin (of_nat n * 2 ^ k)) 1024 = Fin (of_nat n * 2 ^ (k + 10))"
proof -
  have "of_nat n * 2 ^ k * 1024 = (of_nat n * 2 ^ (k + 10) :: rat)" by (simp add: power_add)
  moreover have "to_f64 (of_nat n * 2 ^ (k + 10)) = Fin (of_nat n * 2 ^ (k + 10))"
    using assms by (intro to_f64_dyadic) simp_all
  ultimately show ?thesis by (simp only: f64_times_def f64.case)
qed

lemma as_u64_scaled: "as_u64 (Num False (Fin (of_nat n * 2 ^ k))) = of_nat (min (n * 2 ^ k) (2 ^ 64 - 1))"
proof -
  have "\<lfloor>of_nat n * 2 ^ k :: rat\<rfloor> = int (n * 2 ^ k)"
    by (metis floor_of_nat of_nat_mult of_nat_numeral of_nat_power)
  then have "as_u64 (Num False (Fin (of_nat n * 2 ^ k))) = word_of_int (min (int (n * 2 ^ k)) (2 ^ 64 - 1))"
    by (simp only: as_u64.simps)
  also have "min (int (n * 2 ^ k)) (2 ^ 64 - 1) = int (min (n * 2 ^ k) (2 ^ 64 - 1))"
    by (simp only: of_nat_min) simp
  finally show ?thesis by simp
qed

text \<open>
  A memory size that \<open>systemctl\<close> prints with the unit K, M or G is read as exactly that number of
  bytes, cut off at the largest \<open>u64\<close>; up to 53 bits no rounding of \<open>f64\<close> shows.
\<close>

lemma memory_units_scale:
  assumes "unit_bits u = Some k" "n < 2 ^ 53"
  shows "parse_bytes (Some (show_nat n @ u)) = Some (of_nat (min (n * 2 ^ k) (2 ^ 64 - 1)))"
proof -
  have d: "list_all is_ascii_digit (show_nat n)" "show_nat n \<noteq> []" using show_nat_digits by auto
  then have "visible (hd (show_nat n))"
    by (cases "show_nat n") (auto simp: is_ascii_digit_def visible_def in_range_def)
  with d have t: "trim (show_nat n @ [c]) = show_nat n @ [c]" if "visible c" for c
    using that by (intro trim_visible) simp
  have vis: "visible (CHR ''K'')" "visible (CHR ''M'')" "visible (CHR ''G'')"
    by (simp_all add: visible_def in_range_def byte_def)
  have ne: "show_nat n @ [c] \<noteq> ''0''" for c using d(2) by simp
  have nine: "show_nat n @ [c] \<noteq> ''inactive''" for c
  proof
    assume "show_nat n @ [c] = ''inactive''"
    then have "hd (show_nat n) = CHR ''i''" using d(2) by (metis hd_append2 list.sel(1))
    moreover have "is_ascii_digit (hd (show_nat n))" using d by (cases "show_nat n") auto
    ultimately show False by (simp add: is_ascii_digit_def in_range_def byte_def)
  qed
  have base: "to_f64 (of_nat n) = Fin (of_nat n)"
    using to_f64_dyadic [OF assms(2), of 0] by simp
  have suf: "strip_suffix (show_nat n @ [a]) [b] = (if a = b then Some (show_nat n) else None)" for a b
    by (auto simp: strip_suffix_None strip_suffix_Some)
  from assms(1) have u: "(u = ''K'' \<and> k = 10) \<or> (u = ''M'' \<and> k = 20) \<or> (u = ''G'' \<and> k = 30)"
    by (auto simp: unit_bits_def split: if_splits)
  note scale = f64_times_1024 [OF assms(2), of 0, simplified] f64_times_1024 [OF assms(2), of 10, simplified]
    f64_times_1024 [OF assms(2), of 20, simplified]
    as_u64_scaled [of n 10, simplified] as_u64_scaled [of n 20, simplified] as_u64_scaled [of n 30, simplified]
  with u show ?thesis
    by (elim disjE conjE)
      (simp_all add: parse_bytes_def Let_def ne nine t vis suf parse_float_show_nat base)
qed

lemma memory_units_scale_witness:
  "parse_bytes (Some (show_nat 3 @ ''K'')) = Some (of_nat (min (3 * 2 ^ 10) (2 ^ 64 - 1)))"
  by (rule memory_units_scale) (simp_all add: unit_bits_def)

section \<open>Reading a printed status\<close>

text \<open>What \<open>systemctl show\<close> prints: a line \<open>key=value\<close> for every property.\<close>

definition property_text :: "(string \<times> string) list \<Rightarrow> string" where
  "property_text kvs = concat (map (\<lambda>(k, v). (k @ CHR ''='' # v) @ [LF]) kvs)"

definition plain :: "string \<Rightarrow> bool" where
  "plain s \<longleftrightarrow> list_all (in_range 32 126) s \<and> (s = [] \<or> visible (hd s) \<and> visible (last s))"

definition property_ok :: "string \<times> string \<Rightarrow> bool" where
  "property_ok kv \<longleftrightarrow> plain (fst kv) \<and> CHR ''='' \<notin> set (fst kv) \<and> plain (snd kv)"

lemma plain_trim: "plain s \<Longrightarrow> trim s = s"
  by (simp add: plain_def trim_visible)

lemma plain_chars:
  assumes "plain s"
  shows "LF \<notin> set s" "CR \<notin> set s" "list_all is_ascii s"
  using assms by (auto simp: plain_def list_all_iff LF_def CR_def in_range_def byte_def is_ascii_def)

lemma property_lines:
  "list_all property_ok kvs \<Longrightarrow> lines (property_text kvs) = map (\<lambda>(k, v). k @ CHR ''='' # v) kvs"
proof (induction kvs)
  case Nil
  then show ?case by (simp add: property_text_def lines_def)
next
  case (Cons kv kvs)
  then have ok: "plain (fst kv)" "plain (snd kv)" by (simp_all add: property_ok_def)
  let ?l = "fst kv @ CHR ''='' # snd kv"
  have "lines (?l @ [LF]) = [?l]"
    using plain_chars [OF ok(1)] plain_chars [OF ok(2)] by (intro lines_one) (simp_all add: LF_def CR_def)
  moreover have "property_text (kv # kvs) = (?l @ [LF]) @ property_text kvs"
    by (simp add: property_text_def split: prod.split)
  ultimately have "lines (property_text (kv # kvs)) = ?l # lines (property_text kvs)"
    by (simp only: lines_LF_append) simp
  with Cons show ?case by (simp add: case_prod_beta)
qed

lemma property_of_shown: "property_ok (k, v) \<Longrightarrow> property_of_line (k @ CHR ''='' # v) = Some (k, v)"
proof -
  assume ok: "property_ok (k, v)"
  then have "split_once (k @ CHR ''='' # v) (CHR ''='') = Some (k, v)"
    by (simp add: split_once_Some property_ok_def)
  with ok show ?thesis by (simp add: property_of_line_def property_ok_def plain_trim)
qed

lemma insert_shown:
  "list_all property_ok kvs \<Longrightarrow>
   foldl insert_line m (map (\<lambda>(k, v). k @ CHR ''='' # v) kvs) = m ++ map_of (rev kvs)"
proof (induction kvs arbitrary: m)
  case (Cons kv kvs)
  obtain k v where kv: "kv = (k, v)" by (cases kv)
  with Cons.prems have ok: "property_ok (k, v)" "list_all property_ok kvs" by simp_all
  have "insert_line m (k @ CHR ''='' # v) = m(k \<mapsto> v)"
    by (simp add: insert_line_def property_of_shown [OF ok(1)])
  with Cons.IH [OF ok(2)] kv show ?case by (simp add: map_add_def fun_eq_iff split: option.split)
qed simp

lemma property_text_utf8: "list_all property_ok kvs \<Longrightarrow> utf8_ok (property_text kvs)"
proof (rule utf8_ok_ascii)
  show "list_all property_ok kvs \<Longrightarrow> list_all is_ascii (property_text kvs)"
    by (induction kvs)
      (auto simp: property_text_def property_ok_def plain_chars LF_def is_ascii_def byte_def)
qed

lemma shown_properties_read:
  assumes "list_all property_ok kvs" "distinct (map fst kvs)"
    and "run [''show'', shown_properties, normalize_unit service] =
      Inr \<lparr> co_success = True, co_stdout = property_text kvs, co_stderr = err \<rparr>"
  shows "get_systemctl_properties run service = Inr (map_of kvs)"
proof -
  have "map_of (rev kvs) = map_of kvs"
    using assms(2) by (intro map_of_inject_set [THEN iffD2]) (simp_all add: rev_map [symmetric])
  with assms(1,3) show ?thesis
    by (simp add: get_systemctl_properties_def Let_def lossy_utf8 property_text_utf8 property_lines
        insert_shown)
qed

lemma show_nat_zero: "show_nat n = ''0'' \<longleftrightarrow> n = 0"
proof
  assume "show_nat n = ''0''"
  then have "digits_val (show_nat n) = 0" by (simp add: digits_val_def byte_def)
  then show "n = 0" by simp
next
  have "show_nat 0 = ''0''" by code_simp
  then show "n = 0 \<Longrightarrow> show_nat n = ''0''" by simp
qed

lemma parse_pid_shown: "n < 2 ^ 32 \<Longrightarrow> parse_pid (Some (show_nat n)) = (if n = 0 then None else Some (of_nat n))"
  using show_nat_digits [of n] by (simp add: parse_pid_def show_nat_zero parse_uint_show_nat)

lemma parse_bytes_shown:
  assumes "n < 2 ^ 64"
  shows "parse_bytes (Some (show_nat n)) = (if n = 0 then None else Some (of_nat n))"
proof -
  have d: "list_all is_ascii_digit (show_nat n)" "show_nat n \<noteq> []" using show_nat_digits by auto
  then have dg: "is_ascii_digit (hd (show_nat n))" "is_ascii_digit (last (show_nat n))"
    by (auto simp: list_all_iff)
  then have t: "trim (show_nat n) = show_nat n"
    by (intro trim_visible) (auto simp: is_ascii_digit_def visible_def in_range_def)
  have nine: "show_nat n \<noteq> ''inactive''"
    using dg(1) by (auto simp: is_ascii_digit_def in_range_def byte_def)
  have "strip_suffix (show_nat n) [c] = None" if "\<not> is_ascii_digit c" for c
    using that dg(2) unfolding strip_suffix_None by (metis last_snoc)
  then have "strip_suffix (show_nat n) ''K'' = None" "strip_suffix (show_nat n) ''M'' = None"
    "strip_suffix (show_nat n) ''G'' = None"
    by (simp_all add: is_ascii_digit_def in_range_def byte_def)
  with t nine d(2) assms show ?thesis
    by (simp add: parse_bytes_def show_nat_zero parse_uint_show_nat)
qed

text \<open>
  The status of a unit is read back from what \<open>systemctl\<close> printed: the three states as they are,
  the process id and the memory as the numbers, none for zero. A restart count is only found under the
  key \<open>NRestart\<close>; when the output has no such line it is zero.
\<close>

lemma status_is_read_back:
  assumes "list_all property_ok kvs" "distinct (map fst kvs)"
    and "run [''show'', shown_properties, normalize_unit service] =
      Inr \<lparr> co_success = True, co_stdout = property_text kvs, co_stderr = err \<rparr>"
    and "map_of kvs ''ActiveState'' = Some a" "map_of kvs ''SubState'' = Some b"
      "map_of kvs ''LoadState'' = Some l"
    and "map_of kvs ''MainPID'' = Some (show_nat pid)" "pid < 2 ^ 32"
    and "map_of kvs ''MemoryCurrent'' = Some (show_nat mem)" "mem < 2 ^ 64"
    and "''NRestart'' \<notin> set (map fst kvs)"
  shows "\<exists>cpu. get_status run service = Inr
    \<lparr> st_name = service, st_active_state = a, st_sub_state = b, st_load_state = l,
      st_main_pid = (if pid = 0 then None else Some (of_nat pid)), st_restart_count = 0,
      st_memory_current = (if mem = 0 then None else Some (of_nat mem)), st_cpu_usage_seconds = cpu \<rparr>"
proof -
  have "map_of kvs ''NRestart'' = None" using assms(11) by (simp add: map_of_eq_None_iff)
  then show ?thesis
    using assms(4-10) shown_properties_read [of kvs run service err, OF assms(1-3)] parse_pid_shown [OF assms(8)]
      parse_bytes_shown [OF assms(10)]
    by (simp add: get_status_def status_of_def unwrap_or_def parse_u32_def)
qed

definition sample_properties :: "(string \<times> string) list" where
  "sample_properties =
     [(''MainPID'', show_nat 7), (''NRestarts'', show_nat 4), (''MemoryCurrent'', show_nat 0),
      (''LoadState'', ''loaded''), (''ActiveState'', ''active''), (''SubState'', ''running'')]"

lemma status_is_read_back_witness:
  "\<exists>cpu. get_status (\<lambda>_. Inr \<lparr> co_success = True, co_stdout = property_text sample_properties, co_stderr = [] \<rparr>)
      ''ssh'' = Inr
    \<lparr> st_name = ''ssh'', st_active_state = ''active'', st_sub_state = ''running'', st_load_state = ''loaded'',
      st_main_pid = Some 7, st_restart_count = 0, st_memory_current = None, st_cpu_usage_seconds = cpu \<rparr>"
proof -
  have ok: "list_all property_ok sample_properties"
    by (simp add: sample_properties_def property_ok_def plain_def show_nat.simps in_range_def byte_def visible_def)
  show ?thesis
    using status_is_read_back [OF ok, of "\<lambda>_. Inr \<lparr> co_success = True, co_stdout = property_text sample_properties, co_stderr = [] \<rparr>"
        "''ssh''" "[]" "''active''" "''running''" "''loaded''" 7 0]
    by (simp add: sample_properties_def)
qed

end
