(* ===== verification/Journal.thy ===== *)
theory Journal
  imports UnitStatus
begin

text \<open>
  \<open>src/src/service_tracker/journalctl.rs\<close>: tailing of the systemd journal. For every service a thread
  reads the subscription and hands its lines through a bounded channel to a task, which forwards them
  to the bounded channel of the caller. What \<open>recv\<close> of a subscription yields is an input; the threads
  and tasks take their steps in any order. The argument \<open>may_block\<close> says whether \<open>Handle::block_on\<close> can
  be entered in a task of the runtime; the documentation of tokio says that it panics there.
  Properties: what is received is a start of the messages, in order, within the bounds of the
  channels; and without \<open>may_block\<close> nothing is ever received.
\<close>

section \<open>Start\<close>

record journal_line =
  jl_service :: string
  jl_line :: string

text \<open>What \<open>recv\<close> yields: an entry with or without a message, a read error, or the end.\<close>

datatype journal_item = Entry "string option" | ReadError string | SubClosed

datatype reader = Reading | Sending journal_line | ReaderDone
datatype bridge_task = NotStarted | Waiting | Forwarding journal_line | TaskDone

record sub =
  sb_service :: string
  sb_feed :: "journal_item list"
  sb_reader :: reader
  sb_bridge :: "journal_line list"
  sb_task :: bridge_task
  sb_result :: "(sentinel_error + unit) option"

record journal =
  jn_subs :: "sub list"
  jn_out :: "journal_line list"
  jn_received :: "journal_line list"
  jn_rx_open :: bool
  jn_cancelled :: bool

definition bridge_capacity :: nat where "bridge_capacity = 256"
definition line_capacity :: nat where "line_capacity = 1024"

text \<open>The journal: opening it, its live engine, and the subscription for the filter of a unit.\<close>

record journal_api =
  ja_open :: "string + unit"
  ja_live :: "string + unit"
  ja_subscribe :: "string \<Rightarrow> string + journal_item list"

definition consume_start :: "string \<Rightarrow> journal_item list \<Rightarrow> sub" where
  "consume_start service feed =
     \<lparr> sb_service = service, sb_feed = feed, sb_reader = Reading, sb_bridge = [],
       sb_task = NotStarted, sb_result = None \<rparr>"

fun subscribe_all :: "journal_api \<Rightarrow> string list \<Rightarrow> sentinel_error + sub list" where
  "subscribe_all api [] = Inr []"
| "subscribe_all api (service # services) =
     and_then (map_err (\<lambda>e. ServiceError (''failed to subscribe to journal for ''
         @ quoted (normalize_unit service) @ '': '' @ e))
       (ja_subscribe api (normalize_unit service))) (\<lambda>feed.
     and_then (subscribe_all api services) (\<lambda>subs. Inr (consume_start service feed # subs)))"

definition tail_services :: "journal_api \<Rightarrow> bool \<Rightarrow> string list \<Rightarrow> sentinel_error + journal" where
  "tail_services api cancelled services =
     and_then (check (services \<noteq> []) (ConfigError ''no services specified for journalctl tailing'')) (\<lambda>_.
     and_then (map_err (\<lambda>e. ServiceError (''failed to open systemd journal: '' @ e)) (ja_open api)) (\<lambda>_.
     and_then (map_err (\<lambda>e. ServiceError (''failed to create live journal: '' @ e)) (ja_live api)) (\<lambda>_.
     and_then (subscribe_all api services) (\<lambda>subs.
       Inr \<lparr> jn_subs = subs, jn_out = [], jn_received = [], jn_rx_open = True, jn_cancelled = cancelled \<rparr>))))"

section \<open>Steps\<close>

definition journal_message :: "string \<Rightarrow> string" where
  "journal_message bytes = trim (trim_end_matches (from_utf8_lossy bytes) [CHR 0x00])"

definition item_line :: "string \<Rightarrow> journal_item \<Rightarrow> journal_line option" where
  "item_line service it =
     (case it of
        Entry (Some m) \<Rightarrow>
          if journal_message m = [] then None
          else Some \<lparr> jl_service = service, jl_line = journal_message m \<rparr>
      | _ \<Rightarrow> None)"

definition bridge_closed_error :: sentinel_error where
  "bridge_closed_error = ServiceError ''journal bridge channel closed''"

text \<open>
  The steps of one subscription; the third argument is what the task puts on the caller's channel.
  \<open>room\<close> says that this channel has room, \<open>rx\<close> that its receiver is there, \<open>ct\<close> that the token is cancelled.
\<close>

inductive sub_step ::
  "bool \<Rightarrow> bool \<Rightarrow> bool \<Rightarrow> bool \<Rightarrow> sub \<Rightarrow> journal_line option \<Rightarrow> sub \<Rightarrow> bool"
  for may_block room rx ct where
  read_line: "sb_reader s = Reading \<Longrightarrow> sb_feed s = it # f \<Longrightarrow> item_line (sb_service s) it = Some l \<Longrightarrow>
    sub_step may_block room rx ct s None (s \<lparr> sb_feed := f, sb_reader := Sending l \<rparr>)"
| read_skip: "sb_reader s = Reading \<Longrightarrow> sb_feed s = it # f \<Longrightarrow> item_line (sb_service s) it = None \<Longrightarrow>
    it \<noteq> SubClosed \<Longrightarrow> sub_step may_block room rx ct s None (s \<lparr> sb_feed := f \<rparr>)"
| read_closed: "sb_reader s = Reading \<Longrightarrow> sb_feed s = SubClosed # f \<Longrightarrow>
    sub_step may_block room rx ct s None (s \<lparr> sb_feed := [], sb_reader := ReaderDone \<rparr>)"
| send: "sb_reader s = Sending l \<Longrightarrow> sb_task s \<noteq> TaskDone \<Longrightarrow> length (sb_bridge s) < bridge_capacity \<Longrightarrow>
    sub_step may_block room rx ct s None (s \<lparr> sb_reader := Reading, sb_bridge := sb_bridge s @ [l] \<rparr>)"
| send_fails: "sb_reader s = Sending l \<Longrightarrow> sb_task s = TaskDone \<Longrightarrow>
    sub_step may_block room rx ct s None (s \<lparr> sb_reader := ReaderDone \<rparr>)"
| task_starts: "sb_task s = NotStarted \<Longrightarrow> sub_step may_block room rx ct s None (s \<lparr> sb_task := Waiting \<rparr>)"
| task_takes: "sb_task s = Waiting \<Longrightarrow> sb_bridge s = l # ls \<Longrightarrow> may_block \<Longrightarrow>
    sub_step may_block room rx ct s None (s \<lparr> sb_bridge := ls, sb_task := Forwarding l \<rparr>)"
| task_panics: "sb_task s = Waiting \<Longrightarrow> sb_bridge s = l # ls \<Longrightarrow> \<not> may_block \<Longrightarrow>
    sub_step may_block room rx ct s None (s \<lparr> sb_bridge := [], sb_task := TaskDone \<rparr>)"
| task_ends: "sb_task s = Waiting \<Longrightarrow> sb_bridge s = [] \<Longrightarrow> sb_reader s = ReaderDone \<Longrightarrow>
    sub_step may_block room rx ct s None (s \<lparr> sb_task := TaskDone \<rparr>)"
| task_forwards: "sb_task s = Forwarding l \<Longrightarrow> rx \<Longrightarrow> room \<Longrightarrow>
    sub_step may_block room rx ct s (Some l) (s \<lparr> sb_task := Waiting \<rparr>)"
| task_fails: "sb_task s = Forwarding l \<Longrightarrow> \<not> rx \<Longrightarrow>
    sub_step may_block room rx ct s None (s \<lparr> sb_bridge := [], sb_task := TaskDone \<rparr>)"
| cancelled: "sb_result s = None \<Longrightarrow> ct \<Longrightarrow>
    sub_step may_block room rx ct s None
      (s \<lparr> sb_result := Some (Inr ()),
           sb_task := (if sb_task s = NotStarted then TaskDone else sb_task s) \<rparr>)"
| bridge_ended: "sb_result s = None \<Longrightarrow> \<not> ct \<Longrightarrow> sb_task s = TaskDone \<Longrightarrow>
    sub_step may_block room rx ct s None (s \<lparr> sb_result := Some (Inl bridge_closed_error) \<rparr>)"

definition emitted :: "journal_line option \<Rightarrow> journal_line list" where
  "emitted x = (case x of None \<Rightarrow> [] | Some l \<Rightarrow> [l])"

inductive journal_step :: "bool \<Rightarrow> journal \<Rightarrow> journal \<Rightarrow> bool" for may_block where
  sub_moves: "i < length (jn_subs j) \<Longrightarrow>
    sub_step may_block (length (jn_out j) < line_capacity) (jn_rx_open j) (jn_cancelled j)
      (jn_subs j ! i) x s' \<Longrightarrow>
    journal_step may_block j (j \<lparr> jn_subs := (jn_subs j)[i := s'], jn_out := jn_out j @ emitted x \<rparr>)"
| receive: "jn_rx_open j \<Longrightarrow> jn_out j = l # ls \<Longrightarrow>
    journal_step may_block j (j \<lparr> jn_out := ls, jn_received := jn_received j @ [l] \<rparr>)"
| drop_receiver: "jn_rx_open j \<Longrightarrow> journal_step may_block j (j \<lparr> jn_rx_open := False \<rparr>)"
| stop: "journal_step may_block j (j \<lparr> jn_cancelled := True \<rparr>)"

inductive journal_reaches :: "bool \<Rightarrow> journal \<Rightarrow> journal \<Rightarrow> bool" for may_block j where
  start: "journal_reaches may_block j j"
| step: "journal_reaches may_block j k \<Longrightarrow> journal_step may_block k k' \<Longrightarrow> journal_reaches may_block j k'"

inductive_cases sub_emits: "sub_step may_block room rx ct s (Some l) s'"

section \<open>Order and bounds\<close>

text \<open>The lines of what a subscription yields, until it closes.\<close>

definition lines_of_feed :: "string \<Rightarrow> journal_item list \<Rightarrow> journal_line list" where
  "lines_of_feed service feed = List.map_filter (item_line service) (takeWhile (\<lambda>it. it \<noteq> SubClosed) feed)"

definition pending :: "sub \<Rightarrow> journal_line list" where
  "pending s =
     (case sb_task s of Forwarding l \<Rightarrow> [l] | _ \<Rightarrow> []) @ sb_bridge s
     @ (case sb_reader s of
          Reading \<Rightarrow> lines_of_feed (sb_service s) (sb_feed s)
        | Sending l \<Rightarrow> l # lines_of_feed (sb_service s) (sb_feed s)
        | ReaderDone \<Rightarrow> [])"

definition sub_ok :: "journal_line list \<Rightarrow> journal_line list \<Rightarrow> sub \<Rightarrow> bool" where
  "sub_ok msgs sent s \<longleftrightarrow>
     (\<forall>l\<in>set msgs. jl_service l = sb_service s) \<and> (\<exists>rest. msgs = sent @ rest)
     \<and> (sb_task s \<noteq> TaskDone \<longrightarrow> msgs = sent @ pending s) \<and> length (sb_bridge s) \<le> bridge_capacity"

lemma lines_of_feed_Cons:
  "lines_of_feed service (it # f) =
     (if it = SubClosed then []
      else case item_line service it of None \<Rightarrow> lines_of_feed service f | Some l \<Rightarrow> l # lines_of_feed service f)"
  by (simp add: lines_of_feed_def map_filter_simps split: option.split)

lemma item_line_closed [simp]: "item_line service SubClosed = None"
  by (simp add: item_line_def)

lemma sub_step_service: "sub_step may_block room rx ct s x s' \<Longrightarrow> sb_service s' = sb_service s"
  by (induction rule: sub_step.induct) simp_all

lemma sub_step_pending:
  "sub_step may_block room rx ct s x s' \<Longrightarrow> sb_task s' \<noteq> TaskDone \<Longrightarrow>
   sb_task s \<noteq> TaskDone \<and> pending s = emitted x @ pending s'"
  by (induction rule: sub_step.induct)
    (auto simp: pending_def emitted_def lines_of_feed_Cons split: reader.split if_splits)

lemma sub_step_bridge:
  "sub_step may_block room rx ct s x s' \<Longrightarrow> length (sb_bridge s) \<le> bridge_capacity \<Longrightarrow>
   length (sb_bridge s') \<le> bridge_capacity"
  by (induction rule: sub_step.induct) simp_all

lemma sub_step_emits: "sub_step may_block room rx ct s (Some l) s' \<Longrightarrow> sb_task s = Forwarding l \<and> sb_task s' = Waiting"
  by (elim sub_emits) simp

lemma sub_step_keeps:
  assumes "sub_step may_block room rx ct s x s'" "sub_ok msgs sent s"
  shows "sub_ok msgs (sent @ emitted x) s'" "\<forall>l\<in>set (emitted x). jl_service l = sb_service s"
proof -
  note ok = assms(2) [unfolded sub_ok_def]
  show e: "\<forall>l\<in>set (emitted x). jl_service l = sb_service s"
  proof (cases x)
    case (Some l)
    then have "sb_task s = Forwarding l" using assms(1) sub_step_emits by simp
    then have "l \<in> set (pending s)" "sb_task s \<noteq> TaskDone" by (simp_all add: pending_def)
    with ok Some show ?thesis by (auto simp: emitted_def)
  qed (simp add: emitted_def)
  have "\<exists>rest. msgs = (sent @ emitted x) @ rest"
    and "sb_task s' \<noteq> TaskDone \<longrightarrow> msgs = (sent @ emitted x) @ pending s'"
  proof -
    show all: "sb_task s' \<noteq> TaskDone \<longrightarrow> msgs = (sent @ emitted x) @ pending s'"
      using sub_step_pending [OF assms(1)] ok by auto
    show "\<exists>rest. msgs = (sent @ emitted x) @ rest"
    proof (cases x)
      case None
      with ok show ?thesis by (simp add: emitted_def)
    next
      case (Some l)
      then have "sb_task s' \<noteq> TaskDone" using assms(1) sub_step_emits by fastforce
      with all show ?thesis by blast
    qed
  qed
  with ok sub_step_bridge [OF assms(1)] show "sub_ok msgs (sent @ emitted x) s'"
    by (simp add: sub_ok_def sub_step_service [OF assms(1)])
qed

text \<open>The state of the whole tailer against the lines of the subscriptions at the start.\<close>

definition of_service :: "string \<Rightarrow> journal_line list \<Rightarrow> journal_line list" where
  "of_service name = filter (\<lambda>l. jl_service l = name)"

definition journal_ok :: "journal \<Rightarrow> journal \<Rightarrow> bool" where
  "journal_ok j k \<longleftrightarrow>
     map sb_service (jn_subs k) = map sb_service (jn_subs j)
     \<and> (\<forall>i<length (jn_subs j). sub_ok (pending (jn_subs j ! i))
          (of_service (sb_service (jn_subs j ! i)) (jn_received k @ jn_out k)) (jn_subs k ! i))
     \<and> length (jn_out k) \<le> line_capacity"

lemma of_service_append [simp]: "of_service n (xs @ ys) = of_service n xs @ of_service n ys"
  by (simp add: of_service_def)

lemma of_service_emitted:
  "\<forall>l\<in>set (emitted x). jl_service l = m \<Longrightarrow> of_service n (emitted x) = (if n = m then emitted x else [])"
  by (auto simp: of_service_def emitted_def split: option.splits)

lemma journal_step_ok:
  assumes "journal_step may_block k k'" "journal_ok j k" "distinct (map sb_service (jn_subs j))"
  shows "journal_ok j k'"
  using assms(1)
proof cases
  case (sub_moves i x s')
  note ok = assms(2) [unfolded journal_ok_def]
  have len: "length (jn_subs k) = length (jn_subs j)" using ok map_eq_imp_length_eq by blast
  with sub_moves have i: "i < length (jn_subs j)" by simp
  have name: "sb_service (jn_subs k ! m) = sb_service (jn_subs j ! m)" if "m < length (jn_subs j)" for m
    using ok that len by (metis nth_map)
  note keeps = sub_step_keeps [OF sub_moves(3)]
  have si: "sb_service s' = sb_service (jn_subs k ! i)" by (rule sub_step_service [OF sub_moves(3)])
  have "map sb_service ((jn_subs k)[i := s']) = map sb_service (jn_subs j)"
    using ok si i len by (metis list_update_id map_update nth_map)
  moreover have "sub_ok (pending (jn_subs j ! m))
      (of_service (sb_service (jn_subs j ! m)) (jn_received k @ jn_out k @ emitted x))
      ((jn_subs k)[i := s'] ! m)" if m: "m < length (jn_subs j)" for m
  proof (cases "m = i")
    case True
    have "sub_ok (pending (jn_subs j ! i))
        (of_service (sb_service (jn_subs j ! i)) (jn_received k @ jn_out k)) (jn_subs k ! i)"
      using ok i by blast
    note kept = keeps [OF this]
    from kept(1) of_service_emitted [OF kept(2)] show ?thesis
      using True i len name [OF i] by simp
  next
    case False
    have "sub_ok (pending (jn_subs j ! i))
        (of_service (sb_service (jn_subs j ! i)) (jn_received k @ jn_out k)) (jn_subs k ! i)"
      using ok i by blast
    note em = keeps(2) [OF this]
    have "sb_service (jn_subs j ! m) \<noteq> sb_service (jn_subs j ! i)"
      using assms(3) False i m by (metis length_map nth_eq_iff_index_eq nth_map)
    then show ?thesis
      using ok m False of_service_emitted [OF em] name [OF i] by simp
  qed
  moreover have "length (jn_out k @ emitted x) \<le> line_capacity"
  proof (cases x)
    case (Some l)
    with sub_moves(3) have "length (jn_out k) < line_capacity" by (auto elim: sub_emits)
    with Some show ?thesis by (simp add: emitted_def)
  qed (use ok in \<open>simp add: emitted_def\<close>)
  ultimately show ?thesis using sub_moves(1) by (simp add: journal_ok_def)
next
  case (receive l ls)
  then show ?thesis using assms(2) by (auto simp: journal_ok_def of_service_def)
next
  case drop_receiver
  then show ?thesis using assms(2) by (simp add: journal_ok_def)
next
  case stop
  then show ?thesis using assms(2) by (simp add: journal_ok_def)
qed

lemma journal_reaches_ok:
  assumes "journal_reaches may_block j k" "journal_ok j j" "distinct (map sb_service (jn_subs j))"
  shows "journal_ok j k"
  using assms by (induction rule: journal_reaches.induct) (auto intro: journal_step_ok)

section \<open>The tailer from its start\<close>

lemma subscribe_all_Inr:
  "subscribe_all api services = Inr subs \<Longrightarrow>
   \<exists>feeds. length feeds = length services \<and> subs = map2 consume_start services feeds
     \<and> (\<forall>i<length services. ja_subscribe api (normalize_unit (services ! i)) = Inr (feeds ! i))"
proof (induction services arbitrary: subs)
  case (Cons service services)
  then obtain feed rest where h: "ja_subscribe api (normalize_unit service) = Inr feed"
    "subscribe_all api services = Inr rest" "subs = consume_start service feed # rest"
    by (auto simp: shape_simps)
  from Cons.IH [OF h(2)] obtain feeds where "length feeds = length services"
    "rest = map2 consume_start services feeds"
    "\<forall>i<length services. ja_subscribe api (normalize_unit (services ! i)) = Inr (feeds ! i)"
    by blast
  with h show ?case
    by (intro exI [where x = "feed # feeds"]) (auto simp: nth_Cons split: nat.split)
qed simp

lemma tail_services_Inr:
  assumes "tail_services api ct services = Inr j"
  shows "\<exists>feeds. length feeds = length services
    \<and> j = \<lparr> jn_subs = map2 consume_start services feeds, jn_out = [], jn_received = [],
            jn_rx_open = True, jn_cancelled = ct \<rparr>
    \<and> (\<forall>i<length services. ja_subscribe api (normalize_unit (services ! i)) = Inr (feeds ! i))"
proof -
  from assms obtain subs where "subscribe_all api services = Inr subs"
    "j = \<lparr> jn_subs = subs, jn_out = [], jn_received = [], jn_rx_open = True, jn_cancelled = ct \<rparr>"
    by (auto simp: tail_services_def shape_simps)
  with subscribe_all_Inr [of api services subs] show ?thesis by auto
qed

lemma pending_start [simp]: "pending (consume_start service feed) = lines_of_feed service feed"
  by (simp add: pending_def consume_start_def)

lemma lines_of_feed_service: "l \<in> set (lines_of_feed service feed) \<Longrightarrow> jl_service l = service"
  by (auto simp: lines_of_feed_def List.map_filter_def item_line_def
      split: journal_item.splits option.splits if_splits)

lemma start_ok:
  assumes "length feeds = length services"
  shows "journal_ok \<lparr> jn_subs = map2 consume_start services feeds, jn_out = [], jn_received = [],
            jn_rx_open = True, jn_cancelled = ct \<rparr> \<lparr> jn_subs = map2 consume_start services feeds, jn_out = [], jn_received = [],
            jn_rx_open = True, jn_cancelled = ct \<rparr>"
proof -
  have "sb_service (consume_start n f) = n" "sb_bridge (consume_start n f) = []" for n f
    by (simp_all add: consume_start_def)
  then show ?thesis
    using assms by (auto simp: journal_ok_def sub_ok_def of_service_def dest: lines_of_feed_service)
qed


lemma reach_sub:
  assumes "journal_reaches may_block j k" "i < length (jn_subs k)"
    and "sub_step may_block (length (jn_out k) < line_capacity) (jn_rx_open k) (jn_cancelled k)
      (jn_subs k ! i) x s'"
  shows "journal_reaches may_block j (k \<lparr> jn_subs := (jn_subs k)[i := s'], jn_out := jn_out k @ emitted x \<rparr>)"
  using assms by (intro journal_reaches.step [OF assms(1)] sub_moves)

text \<open>The same for a step that puts nothing on the channel, with the state of the subscription named.\<close>

lemma reach_silent:
  assumes "journal_reaches may_block j (k \<lparr> jn_subs := (jn_subs k)[i := s] \<rparr>)" "i < length (jn_subs k)"
    and "sub_step may_block (length (jn_out k) < line_capacity) (jn_rx_open k) (jn_cancelled k) s None s'"
  shows "journal_reaches may_block j (k \<lparr> jn_subs := (jn_subs k)[i := s'] \<rparr>)"
  using reach_sub [OF assms(1), of i None s'] assms(2,3) by (simp add: emitted_def)

lemma first_message_waits:
  assumes "i < length (jn_subs j)" "jn_subs j ! i = consume_start name (Entry (Some m) # f)"
    and "journal_message m \<noteq> []"
  shows "journal_reaches may_block j (j \<lparr> jn_subs := (jn_subs j)[i :=
    \<lparr> sb_service = name, sb_feed = f, sb_reader = Reading,
      sb_bridge = [\<lparr> jl_service = name, jl_line = journal_message m \<rparr>], sb_task = Waiting, sb_result = None \<rparr>] \<rparr>)"
proof -
  let ?l = "\<lparr> jl_service = name, jl_line = journal_message m \<rparr>"
  let ?s = "consume_start name (Entry (Some m) # f)"
  let ?at = "\<lambda>s. journal_reaches may_block j (j \<lparr> jn_subs := (jn_subs j)[i := s] \<rparr>)"
  have "?at ?s" using assms(2) journal_reaches.start [of may_block j] by (metis journal.surjective journal.update_convs(1) list_update_id)
  then have "?at (?s \<lparr> sb_feed := f, sb_reader := Sending ?l \<rparr>)"
    by (rule reach_silent [OF _ assms(1) read_line [where it = "Entry (Some m)"]]) (simp_all add: consume_start_def item_line_def assms(3))
  then have "?at (?s \<lparr> sb_feed := f, sb_reader := Reading, sb_bridge := [?l] \<rparr>)"
    by (rule reach_silent [OF _ assms(1), OF _ send [of _ ?l, THEN back_subst [where P = "sub_step _ _ _ _ _ _"]]])
      (simp_all add: consume_start_def bridge_capacity_def)
  then have "?at (?s \<lparr> sb_feed := f, sb_reader := Reading, sb_bridge := [?l], sb_task := Waiting \<rparr>)"
    by (rule reach_silent [OF _ assms(1), OF _ task_starts [THEN back_subst [where P = "sub_step _ _ _ _ _ _"]]])
      (simp_all add: consume_start_def)
  then show ?thesis by (simp add: consume_start_def)
qed

definition sample_journal_api :: journal_api where
  "sample_journal_api =
     \<lparr> ja_open = Inr (), ja_live = Inr (),
       ja_subscribe = (\<lambda>u. if u = ''ssh.service'' then Inr [Entry (Some ''a''), ReadError ''x'', Entry (Some ''b''), SubClosed]
                           else Inl ''no such unit'') \<rparr>"

lemma journal_message_visible: "visible c \<Longrightarrow> is_ascii c \<Longrightarrow> c \<noteq> CHR 0x00 \<Longrightarrow> journal_message [c] = [c]"
proof -
  assume c: "visible c" "is_ascii c" "c \<noteq> CHR 0x00"
  then have "trim_end_matches [c] [CHR 0x00] = [c]"
    by (subst trim_end_matches.simps) (simp add: ends_with_def)
  moreover have "from_utf8_lossy [c] = [c]" using c by (intro lossy_utf8 utf8_ok_ascii) simp
  ultimately show ?thesis using c by (simp add: journal_message_def trim_visible)
qed

lemma sample_messages: "journal_message ''a'' = ''a''" "journal_message ''b'' = ''b''"
  by (rule journal_message_visible; simp add: visible_def in_range_def byte_def is_ascii_def)+

lemma sample_tail:
  "tail_services sample_journal_api ct [''ssh''] = Inr
     \<lparr> jn_subs = [consume_start ''ssh'' [Entry (Some ''a''), ReadError ''x'', Entry (Some ''b''), SubClosed]],
       jn_out = [], jn_received = [], jn_rx_open = True, jn_cancelled = ct \<rparr>"
  by (simp add: tail_services_def sample_journal_api_def normalize_unit_def ends_with_def)


section \<open>Blocking in a task\<close>

definition silent :: "journal \<Rightarrow> bool" where
  "silent k \<longleftrightarrow> jn_out k = [] \<and> jn_received k = []
     \<and> (\<forall>s\<in>set (jn_subs k). \<forall>l. sb_task s \<noteq> Forwarding l)"

lemma sub_step_silent:
  "sub_step False room rx ct s x s' \<Longrightarrow> \<forall>l. sb_task s \<noteq> Forwarding l \<Longrightarrow>
   x = None \<and> (\<forall>l. sb_task s' \<noteq> Forwarding l)"
  by (induction rule: sub_step.induct) auto

lemma journal_step_silent: "journal_step False k k' \<Longrightarrow> silent k \<Longrightarrow> silent k'"
proof (induction rule: journal_step.induct)
  case (sub_moves i k x s')
  then have "x = None \<and> (\<forall>l. sb_task s' \<noteq> Forwarding l)"
    by (intro sub_step_silent [OF sub_moves.hyps(2)]) (simp add: silent_def)
  with sub_moves.prems show ?case
    by (auto simp: silent_def emitted_def dest!: subsetD [OF set_update_subset_insert])
qed (simp_all add: silent_def)

lemma journal_reaches_silent: "journal_reaches False j k \<Longrightarrow> silent j \<Longrightarrow> silent k"
  by (induction rule: journal_reaches.induct) (auto intro: journal_step_silent)



section \<open>Waiting for a thread\<close>

text \<open>
  \<open>join_bounded\<close>: what the rounds of the loop see, whether the thread has finished and the time in
  milliseconds. \<open>None\<close> is a loop that has not ended with the rounds given.
\<close>

fun join_bounded :: "nat \<Rightarrow> (bool \<times> nat) list \<Rightarrow> bool option" where
  "join_bounded deadline [] = None"
| "join_bounded deadline ((finished, now) # rounds) =
     (if finished then Some True else if deadline \<le> now then Some False else join_bounded deadline rounds)"

text \<open>Every round sleeps ten milliseconds, so the wait of \<open>t\<close> milliseconds ends within \<open>t div 10 + 2\<close> rounds.\<close>

lemma join_bounded_returns:
  assumes "\<forall>i. Suc i < length rounds \<longrightarrow> snd (rounds ! i) + 10 \<le> snd (rounds ! Suc i)"
    and "rounds \<noteq> []" "deadline \<le> snd (hd rounds) + t" "t div 10 + 2 \<le> length rounds"
  shows "\<exists>b. join_bounded deadline rounds = Some b"
  using assms
proof (induction rounds arbitrary: t)
  case (Cons r rounds)
  obtain fin now where r: "r = (fin, now)" by (cases r)
  show ?case
  proof (cases "fin \<or> deadline \<le> now")
    case False
    with Cons.prems(3) r have t: "0 < t" by simp
    from Cons.prems(4) have ne: "rounds \<noteq> []" by auto
    then have gap: "now + 10 \<le> snd (hd rounds)" using Cons.prems(1) [rule_format, of 0] r by (simp add: hd_conv_nth)
    have "\<exists>b. join_bounded deadline rounds = Some b"
    proof (cases "10 \<le> t")
      case True
      then have "t div 10 = Suc ((t - 10) div 10)" by (simp add: le_div_geq)
      moreover have "\<forall>i. Suc i < length rounds \<longrightarrow> snd (rounds ! i) + 10 \<le> snd (rounds ! Suc i)"
      proof (intro allI impI)
        fix i assume "Suc i < length rounds"
        with Cons.prems(1) [rule_format, of "Suc i"]
        show "snd (rounds ! i) + 10 \<le> snd (rounds ! Suc i)" by simp
      qed
      moreover have "deadline \<le> snd (hd rounds) + (t - 10)" using Cons.prems(3) gap r True by simp
      ultimately show ?thesis using Cons.IH [of "t - 10"] ne Cons.prems(4) by simp
    next
      case False
      with gap Cons.prems(3) r have "deadline \<le> snd (hd rounds)" by simp
      with ne show ?thesis by (cases rounds) auto
    qed
    with False r show ?thesis by simp
  qed (use r in auto)
qed simp

end
