(* ===== verification/Regex.thy ===== *)
theory Regex
  imports Lossy
begin

text \<open>
  Regular expressions with named groups, as far as the log patterns need them: which captures a pattern
  allows for a text (\<open>re_matches\<close>), and a backtracking matcher that tries the possibilities in the order
  of the regex crate (\<open>full_match\<close>), with the proof that it finds a match exactly when there is one.
  The crate itself is an argument of the parsers; \<open>regex_law\<close> is what its documentation promises of it,
  and the matcher here shows that the promise can be kept.
\<close>

section \<open>Patterns\<close>

type_synonym captures = "(string \<times> string) list"

text \<open>
  \<open>Many lazy m n p\<close> is a repetition of a character class between \<open>m\<close> and \<open>n\<close> times; a class is a
  predicate on the UTF-8 text of one character.
\<close>

datatype regex =
    Lit string
  | Many bool nat "nat option" "string \<Rightarrow> bool"
  | Then regex regex
  | Or regex regex
  | Opt regex
  | Group string regex

definition one_or_more :: "(string \<Rightarrow> bool) \<Rightarrow> regex" where
  "one_or_more = Many False 1 None"

definition zero_or_more :: "(string \<Rightarrow> bool) \<Rightarrow> regex" where
  "zero_or_more = Many False 0 None"

fun in_order :: "regex list \<Rightarrow> regex" where
  "in_order [] = Lit []"
| "in_order [r] = r"
| "in_order (r # rs) = Then r (in_order rs)"

section \<open>Characters of a text\<close>

function all_chars :: "(string \<Rightarrow> bool) \<Rightarrow> string \<Rightarrow> bool" where
  "all_chars p s \<longleftrightarrow>
     s = [] \<or> (case utf8_width s of None \<Rightarrow> False | Some w \<Rightarrow> p (take w s) \<and> all_chars p (drop w s))"
  by pat_completeness auto
termination
  by (relation "measure (\<lambda>(p, s). length s)") (auto dest: utf8_width_le)

function count_chars :: "string \<Rightarrow> nat" where
  "count_chars s =
     (case utf8_width s of None \<Rightarrow> 0 | Some w \<Rightarrow> Suc (count_chars (drop w s)))"
  by pat_completeness auto
termination
  by (relation "measure length") (auto dest: utf8_width_le)

declare all_chars.simps [simp del] count_chars.simps [simp del]

lemma all_chars_Nil [simp]: "all_chars p []"
  by (simp add: all_chars.simps)

lemma count_chars_Nil [simp]: "count_chars [] = 0"
  by (simp add: count_chars.simps)

lemma all_chars_step:
  "utf8_width s = Some w \<Longrightarrow> all_chars p s \<longleftrightarrow> p (take w s) \<and> all_chars p (drop w s)"
  by (subst all_chars.simps) auto

lemma count_chars_step: "utf8_width s = Some w \<Longrightarrow> count_chars s = Suc (count_chars (drop w s))"
  by (subst count_chars.simps) simp

lemma all_chars_width: "all_chars p s \<Longrightarrow> s \<noteq> [] \<Longrightarrow> \<exists>w. utf8_width s = Some w"
  by (subst (asm) all_chars.simps) (auto split: option.splits)

lemma utf8_width_ascii [simp]: "is_ascii c \<Longrightarrow> utf8_width (c # s) = Some 1"
  by (simp add: is_ascii_def)

lemma all_chars_ascii [simp]: "is_ascii c \<Longrightarrow> all_chars p (c # s) \<longleftrightarrow> p [c] \<and> all_chars p s"
  by (simp add: all_chars_step [OF utf8_width_ascii])

lemma count_chars_ascii [simp]: "is_ascii c \<Longrightarrow> count_chars (c # s) = Suc (count_chars s)"
  by (simp add: count_chars_step [OF utf8_width_ascii])

lemma all_chars_list_all:
  "list_all is_ascii s \<Longrightarrow> all_chars p s \<longleftrightarrow> list_all (\<lambda>c. p [c]) s"
  by (induction s) simp_all

lemma count_chars_length: "list_all is_ascii s \<Longrightarrow> count_chars s = length s"
  by (induction s) simp_all

text \<open>An ASCII character in well-formed text is a character of its own.\<close>

lemma width_take_ascii:
  assumes "utf8_width s = Some w" "c \<in> set (take w s)" "is_ascii c"
  shows "take w s = [c]"
  using assms(1)
proof (cases rule: utf8_width_cases)
  case (one a r)
  with assms(2) show ?thesis by simp
qed (use assms(2,3) in \<open>auto simp: is_ascii_def in_range_def is_cont_def dest!: second_ok_cont\<close>)

lemma all_chars_avoid: "all_chars p s \<Longrightarrow> \<not> p [c] \<Longrightarrow> is_ascii c \<Longrightarrow> c \<notin> set s"
proof (induction p s rule: all_chars.induct)
  case (1 p s)
  show ?case
  proof (cases "s = []")
    case False
    with 1(2) obtain w where w: "utf8_width s = Some w" using all_chars_width by blast
    with 1(2) have h: "p (take w s)" "all_chars p (drop w s)" by (simp_all add: all_chars_step)
    from 1 w False h have "c \<notin> set (drop w s)" by blast
    moreover have "c \<notin> set (take w s)" using width_take_ascii [OF w _ 1(4)] h(1) 1(3) by metis
    ultimately show ?thesis by (metis Un_iff append_take_drop_id set_append)
  qed simp
qed

lemma all_chars_not:
  assumes "utf8_ok s" "c \<notin> set s"
  shows "all_chars (\<lambda>w. w \<noteq> [c]) s"
  using assms
proof (induction s rule: utf8_ok.induct)
  case (1 s)
  show ?case
  proof (cases "s = []")
    case False
    with 1(2) obtain w where w: "utf8_width s = Some w" "utf8_ok (drop w s)"
      by (auto simp: utf8_ok.simps [of s] split: option.splits)
    have "c \<notin> set (drop w s)" "c \<notin> set (take w s)" using 1(3) by (auto dest: in_set_dropD in_set_takeD)
    with 1(1) w False show ?thesis by (auto simp: all_chars_step)
  qed simp
qed

section \<open>What a pattern matches\<close>

definition count_ok :: "nat \<Rightarrow> nat option \<Rightarrow> nat \<Rightarrow> bool" where
  "count_ok m n k \<longleftrightarrow> m \<le> k \<and> (case n of None \<Rightarrow> True | Some j \<Rightarrow> k \<le> j)"

primrec re_matches :: "regex \<Rightarrow> string \<Rightarrow> captures \<Rightarrow> bool" where
  "re_matches (Lit t) s cs \<longleftrightarrow> s = t \<and> cs = []"
| "re_matches (Many lazy m n p) s cs \<longleftrightarrow> all_chars p s \<and> count_ok m n (count_chars s) \<and> cs = []"
| "re_matches (Then a b) s cs \<longleftrightarrow>
     (\<exists>u v cu cv. s = u @ v \<and> cs = cu @ cv \<and> re_matches a u cu \<and> re_matches b v cv)"
| "re_matches (Or a b) s cs \<longleftrightarrow> re_matches a s cs \<or> re_matches b s cs"
| "re_matches (Opt r) s cs \<longleftrightarrow> re_matches r s cs \<or> s = [] \<and> cs = []"
| "re_matches (Group n r) s cs \<longleftrightarrow> (\<exists>c. cs = (n, s) # c \<and> re_matches r s c)"

text \<open>The promise for a pattern that is anchored at both ends, on the strings of the language.\<close>

definition regex_law :: "(regex \<Rightarrow> string \<Rightarrow> captures option) \<Rightarrow> regex \<Rightarrow> bool" where
  "regex_law engine r \<longleftrightarrow>
     (\<forall>s. utf8_ok s \<longrightarrow>
        (case engine r s of None \<Rightarrow> \<forall>cs. \<not> re_matches r s cs | Some cs \<Rightarrow> re_matches r s cs))"

section \<open>A matcher\<close>

text \<open>The texts left after \<open>k\<close>, \<open>k + 1\<close>, ... characters of a class.\<close>

function spans :: "(string \<Rightarrow> bool) \<Rightarrow> nat \<Rightarrow> string \<Rightarrow> (nat \<times> string) list" where
  "spans p k s =
     (k, s) # (case utf8_width s of None \<Rightarrow> []
               | Some w \<Rightarrow> if p (take w s) then spans p (Suc k) (drop w s) else [])"
  by pat_completeness auto
termination
  by (relation "measure (\<lambda>(p, k, s). length s)") (auto dest: utf8_width_le)

declare spans.simps [simp del]

primrec attempts :: "regex \<Rightarrow> string \<Rightarrow> (captures \<times> string) list" where
  "attempts (Lit t) s = (if starts_with s t then [([], drop (length t) s)] else [])"
| "attempts (Many lazy m n p) s =
     (let ks = filter (\<lambda>(k, _). count_ok m n k) (spans p 0 s)
      in map (\<lambda>(_, r). ([], r)) (if lazy then ks else rev ks))"
| "attempts (Then a b) s =
     concat (map (\<lambda>(ca, r). map (\<lambda>(cb, r'). (ca @ cb, r')) (attempts b r)) (attempts a s))"
| "attempts (Or a b) s = attempts a s @ attempts b s"
| "attempts (Opt r) s = attempts r s @ [([], s)]"
| "attempts (Group n r) s =
     map (\<lambda>(c, rest). ((n, take (length s - length rest) s) # c, rest)) (attempts r s)"

definition full_match :: "regex \<Rightarrow> string \<Rightarrow> captures option" where
  "full_match r s = map_option fst (find (\<lambda>(_, rest). rest = []) (attempts r s))"

lemma spans_sound: "(j, r) \<in> set (spans p k s) \<Longrightarrow> \<exists>u. s = u @ r \<and> all_chars p u \<and> j = k + count_chars u"
proof (induction p k s rule: spans.induct)
  case (1 p k s)
  from 1(2) consider "j = k" "r = s"
    | w where "Some w = utf8_width s" "p (take w s)" "(j, r) \<in> set (spans p (Suc k) (drop w s))"
    by (auto simp: spans.simps [of p k s] split: option.splits if_splits)
  then show ?case
  proof cases
    case 1
    then show ?thesis by (intro exI [of _ "[]"]) simp
  next
    case (2 w)
    then have w: "utf8_width s = Some w" by simp
    from "1.IH" [OF w 2(2,3)] obtain u where u: "drop w s = u @ r" "all_chars p u" "j = Suc k + count_chars u"
      by blast
    have s: "s = (take w s @ u) @ r" using u(1) by (metis append.assoc append_take_drop_id)
    have len: "length (take w s) = w" using utf8_width_le [OF w] by simp
    have "utf8_width (take w s @ u) = Some w"
      using utf8_width_append [OF utf8_width_take [OF w order_refl]] .
    then have "all_chars p (take w s @ u)" "count_chars (take w s @ u) = Suc (count_chars u)"
      using 2(2) u(2) len by (simp_all add: all_chars_step count_chars_step)
    with s u(3) show ?thesis by (metis add_Suc_shift)
  qed
qed

lemma spans_complete: "all_chars p u \<Longrightarrow> (k + count_chars u, r) \<in> set (spans p k (u @ r))"
proof (induction p u arbitrary: k rule: all_chars.induct)
  case (1 p u)
  show ?case
  proof (cases "u = []")
    case True
    then show ?thesis by (subst spans.simps) simp
  next
    case False
    with 1(2) obtain w where w: "utf8_width u = Some w" using all_chars_width by blast
    with 1(2) have h: "p (take w u)" "all_chars p (drop w u)" by (simp_all add: all_chars_step)
    have t: "take w (u @ r) = take w u" "drop w (u @ r) = drop w u @ r"
      using utf8_width_le [OF w] by simp_all
    have "utf8_width (u @ r) = Some w" by (rule utf8_width_append [OF w])
    with 1(1) [OF w h(2), of "Suc k"] h(1) t count_chars_step [OF w] show ?thesis
      by (subst spans.simps) (simp del: drop_append take_append)
  qed
qed

lemma attempts_iff: "(cs, r) \<in> set (attempts re s) \<longleftrightarrow> (\<exists>u. s = u @ r \<and> re_matches re u cs)"
proof (induction re arbitrary: s cs r)
  case (Lit t)
  then show ?case by (auto simp: starts_with_iff)
next
  case (Many lazy m n p)
  have "(cs, r) \<in> set (attempts (Many lazy m n p) s) \<longleftrightarrow>
      cs = [] \<and> (\<exists>k. (k, r) \<in> set (spans p 0 s) \<and> count_ok m n k)"
    by (auto simp: Let_def image_iff)
  also have "\<dots> \<longleftrightarrow> (\<exists>u. s = u @ r \<and> re_matches (Many lazy m n p) u cs)"
    using spans_sound [of _ r p 0 s] spans_complete [of p _ 0 r] by fastforce
  finally show ?case .
next
  case (Then a b)
  have "(cs, r) \<in> set (attempts (Then a b) s) \<longleftrightarrow>
      (\<exists>ca cb t. (ca, t) \<in> set (attempts a s) \<and> (cb, r) \<in> set (attempts b t) \<and> cs = ca @ cb)"
    by (force simp: image_iff)
  also have "\<dots> \<longleftrightarrow> (\<exists>u. s = u @ r \<and> re_matches (Then a b) u cs)"
    unfolding Then.IH re_matches.simps
  proof (intro iffI; elim exE conjE)
    fix ca cb t u v
    assume h: "cs = ca @ cb" "s = u @ t" "re_matches a u ca" "t = v @ r" "re_matches b v cb"
    then have "s = (u @ v) @ r" by simp
    with h show "\<exists>u. s = u @ r \<and> (\<exists>u' v cu cv. u = u' @ v \<and> cs = cu @ cv \<and> re_matches a u' cu \<and> re_matches b v cv)"
      by blast
  next
    fix u u' v cu cv
    assume "s = u @ r" "u = u' @ v" "cs = cu @ cv" "re_matches a u' cu" "re_matches b v cv"
    then show "\<exists>ca cb t. (\<exists>u. s = u @ t \<and> re_matches a u ca) \<and> (\<exists>u. t = u @ r \<and> re_matches b u cb) \<and> cs = ca @ cb"
      by (intro exI [of _ cu] exI [of _ cv] exI [of _ "v @ r"]) auto
  qed
  finally show ?case .
next
  case (Group n re)
  have "(cs, r) \<in> set (attempts (Group n re) s) \<longleftrightarrow>
      (\<exists>c. (c, r) \<in> set (attempts re s) \<and> cs = (n, take (length s - length r) s) # c)"
    by (force simp: image_iff)
  then show ?case unfolding Group.IH by auto
qed auto

lemma full_match_law: "regex_law full_match r"
proof -
  have "case full_match r s of None \<Rightarrow> \<forall>cs. \<not> re_matches r s cs | Some cs \<Rightarrow> re_matches r s cs" for s
  proof (cases "find (\<lambda>(_, rest). rest = []) (attempts r s)")
    case None
    then have "(cs, []) \<notin> set (attempts r s)" for cs by (auto simp: find_None_iff)
    then show ?thesis by (simp add: full_match_def None attempts_iff)
  next
    case (Some x)
    then have "x \<in> set (attempts r s)" "snd x = []" by (auto simp: find_Some_iff case_prod_beta)
    then have "(fst x, []) \<in> set (attempts r s)" by (metis prod.collapse)
    then show ?thesis by (simp add: full_match_def Some attempts_iff)
  qed
  then show ?thesis by (simp add: regex_law_def)
qed

section \<open>Fields and delimiters\<close>

text \<open>A field is a repetition followed by a literal that begins with a character its class excludes.\<close>

lemma delimiter_unique:
  "u @ d # v = u' @ d # v' \<Longrightarrow> d \<notin> set u \<Longrightarrow> d \<notin> set u' \<Longrightarrow> u = u' \<and> v = v'"
  by (induction u arbitrary: u') (auto simp: Cons_eq_append_conv)

definition field_ok :: "nat \<Rightarrow> nat option \<Rightarrow> (string \<Rightarrow> bool) \<Rightarrow> string \<Rightarrow> bool" where
  "field_ok m n p s \<longleftrightarrow> all_chars p s \<and> count_ok m n (count_chars s)"

lemma plain_field:
  assumes "\<not> p [d]" "is_ascii d" "d \<notin> set u"
  shows "re_matches (Then (Many lazy m n p) (Then (Lit (d # t)) r)) (u @ d # t @ v) cs \<longleftrightarrow>
    field_ok m n p u \<and> re_matches r v cs"
proof
  assume "re_matches (Then (Many lazy m n p) (Then (Lit (d # t)) r)) (u @ d # t @ v) cs"
  then obtain u' v' where s: "u @ d # t @ v = u' @ d # t @ v'" and "field_ok m n p u'" "re_matches r v' cs"
    by (auto simp: field_ok_def)
  moreover have "u = u' \<and> v = v'"
    using delimiter_unique [OF s assms(3)] all_chars_avoid [of p u' d] assms(1,2) \<open>field_ok m n p u'\<close>
    by (auto simp: field_ok_def)
  ultimately show "field_ok m n p u \<and> re_matches r v cs" by simp
qed (auto simp: field_ok_def)

lemma group_field:
  assumes "\<not> p [d]" "is_ascii d" "d \<notin> set u"
  shows "re_matches (Then (Group x (Many lazy m n p)) (Then (Lit (d # t)) r)) (u @ d # t @ v) cs \<longleftrightarrow>
    field_ok m n p u \<and> (\<exists>c. cs = (x, u) # c \<and> re_matches r v c)"
proof
  assume "re_matches (Then (Group x (Many lazy m n p)) (Then (Lit (d # t)) r)) (u @ d # t @ v) cs"
  then obtain u' v' c where s: "u @ d # t @ v = u' @ d # t @ v'" and "field_ok m n p u'" "re_matches r v' c"
    "cs = (x, u') # c"
    by (auto simp: field_ok_def)
  moreover have "u = u' \<and> v = v'"
    using delimiter_unique [OF s assms(3)] all_chars_avoid [of p u' d] assms(1,2) \<open>field_ok m n p u'\<close>
    by (auto simp: field_ok_def)
  ultimately show "field_ok m n p u \<and> (\<exists>c. cs = (x, u) # c \<and> re_matches r v c)" by simp
qed (auto simp: field_ok_def)

section \<open>Searching\<close>

text \<open>The promise for a pattern without anchors: the match that begins first.\<close>

definition match_at :: "regex \<Rightarrow> string \<Rightarrow> nat \<Rightarrow> captures \<Rightarrow> bool" where
  "match_at r s n cs \<longleftrightarrow> (\<exists>u v w. s = u @ v @ w \<and> length u = n \<and> re_matches r v cs)"

definition leftmost :: "regex \<Rightarrow> string \<Rightarrow> captures option \<Rightarrow> bool" where
  "leftmost r s found \<longleftrightarrow>
     (case found of
        None \<Rightarrow> \<forall>n cs. \<not> match_at r s n cs
      | Some cs \<Rightarrow> \<exists>n. match_at r s n cs \<and> (\<forall>m cs'. match_at r s m cs' \<longrightarrow> n \<le> m))"

definition search_law :: "(regex \<Rightarrow> string \<Rightarrow> captures option) \<Rightarrow> regex \<Rightarrow> bool" where
  "search_law engine r \<longleftrightarrow> (\<forall>s. utf8_ok s \<longrightarrow> leftmost r s (engine r s))"

fun search_match :: "regex \<Rightarrow> string \<Rightarrow> captures option" where
  "search_match r [] = map_option fst (find (\<lambda>_. True) (attempts r []))"
| "search_match r (c # s) =
     (case find (\<lambda>_. True) (attempts r (c # s)) of Some x \<Rightarrow> Some (fst x) | None \<Rightarrow> search_match r s)"

lemma match_at_0: "match_at r s 0 cs \<longleftrightarrow> (\<exists>rest. (cs, rest) \<in> set (attempts r s))"
  by (auto simp: match_at_def attempts_iff)

lemma match_at_Suc: "match_at r (c # s) (Suc n) cs \<longleftrightarrow> match_at r s n cs"
proof
  assume "match_at r (c # s) (Suc n) cs"
  then obtain u v w where h: "c # s = u @ v @ w" "length u = Suc n" "re_matches r v cs"
    by (auto simp: match_at_def)
  then obtain u' where "u = c # u'" by (cases u) auto
  with h show "match_at r s n cs" by (auto simp: match_at_def)
next
  assume "match_at r s n cs"
  then obtain u v w where h: "s = u @ v @ w" "length u = n" "re_matches r v cs"
    by (auto simp: match_at_def)
  then have "c # s = (c # u) @ v @ w" "length (c # u) = Suc n" by simp_all
  with h(3) show "match_at r (c # s) (Suc n) cs" unfolding match_at_def by blast
qed

lemma match_at_Nil: "match_at r [] (Suc n) cs \<longleftrightarrow> False"
  by (simp add: match_at_def)

lemma find_any: "find (\<lambda>_. True) xs = (case xs of [] \<Rightarrow> None | x # _ \<Rightarrow> Some x)"
  by (cases xs) simp_all

lemma leftmost_front: "x \<in> set (attempts r s) \<Longrightarrow> leftmost r s (Some (fst x))"
  unfolding leftmost_def using match_at_0 [of r s "fst x"] by (auto intro!: exI [of _ 0]) (metis prod.collapse)

lemma leftmost_none: "attempts r [] = [] \<Longrightarrow> leftmost r [] None"
proof -
  assume "attempts r [] = []"
  then have "\<not> match_at r [] n cs" for n cs by (cases n) (simp_all add: match_at_0 match_at_Nil)
  then show ?thesis by (simp add: leftmost_def)
qed

lemma leftmost_later: "attempts r (c # s) = [] \<Longrightarrow> leftmost r s found \<Longrightarrow> leftmost r (c # s) found"
proof -
  assume none: "attempts r (c # s) = []" and l: "leftmost r s found"
  have m: "match_at r (c # s) n cs \<longleftrightarrow> (\<exists>k. n = Suc k \<and> match_at r s k cs)" for n cs
    using none by (cases n) (simp_all add: match_at_0 match_at_Suc)
  show ?thesis
  proof (cases found)
    case None
    with l m show ?thesis by (simp add: leftmost_def)
  next
    case (Some cs)
    with l obtain n where "match_at r s n cs" "\<forall>m cs'. match_at r s m cs' \<longrightarrow> n \<le> m"
      by (auto simp: leftmost_def)
    then have "match_at r (c # s) (Suc n) cs \<and> (\<forall>m cs'. match_at r (c # s) m cs' \<longrightarrow> Suc n \<le> m)"
      by (auto simp: m)
    with Some show ?thesis unfolding leftmost_def by auto
  qed
qed

lemma search_match_leftmost: "leftmost r s (search_match r s)"
proof (induction s)
  case Nil
  show ?case
    using leftmost_none [of r] leftmost_front [of _ r "[]"] by (cases "attempts r []") (simp_all add: find_any)
next
  case (Cons c s)
  then show ?case
    using leftmost_later [of r c s] leftmost_front [of _ r "c # s"]
    by (cases "attempts r (c # s)") (simp_all add: find_any)
qed

lemma search_match_law: "search_law search_match r"
  using search_match_leftmost by (simp add: search_law_def)

text \<open>If a pattern matches at the front, and in one way only, that is what a search finds.\<close>

lemma search_at_front:
  assumes "search_law engine r" "utf8_ok s" "match_at r s 0 cs" "\<And>cs'. match_at r s 0 cs' \<Longrightarrow> f cs' = x"
  shows "map_option f (engine r s) = Some x"
proof -
  have l: "leftmost r s (engine r s)" using assms(1,2) by (simp add: search_law_def)
  show ?thesis
  proof (cases "engine r s")
    case None
    with l assms(3) show ?thesis by (simp add: leftmost_def)
  next
    case (Some c)
    with l obtain n where n: "match_at r s n c" "\<forall>m cs'. match_at r s m cs' \<longrightarrow> n \<le> m"
      by (auto simp: leftmost_def)
    then have "n = 0" using assms(3) by blast
    with n Some assms(4) show ?thesis by simp
  qed
qed

end
