(* ===== verification/AccessLog.thy ===== *)
theory AccessLog
  imports Regex Parsers
begin

text \<open>
  The pattern \<open>NGINX_COMBINED_RE\<close> of \<open>src/src/log_scanner/parser/nginx.rs\<close> as it is written there, and the
  lines it is meant for: a line in nginx's combined format, with the host and the request time that the
  deployment adds, is taken apart in one way only, and is parsed back to what was printed. The engine of
  the regex crate and the Unicode table of decimal digits stay arguments.
\<close>

section \<open>The pattern\<close>

definition not_space :: "string \<Rightarrow> bool" where
  "not_space w \<longleftrightarrow> w \<notin> set white_space"

definition not_char :: "char \<Rightarrow> string \<Rightarrow> bool" where
  "not_char c w \<longleftrightarrow> w \<noteq> [c]"

text \<open>The class of decimal digits; \<open>uni\<close> is the table for the characters outside ASCII.\<close>

definition decimal_digit :: "(string \<Rightarrow> bool) \<Rightarrow> string \<Rightarrow> bool" where
  "decimal_digit uni w \<longleftrightarrow> (case w of [c] \<Rightarrow> is_ascii_digit c | _ \<Rightarrow> uni w)"

definition digit_or_dot :: "(string \<Rightarrow> bool) \<Rightarrow> string \<Rightarrow> bool" where
  "digit_or_dot uni w \<longleftrightarrow> decimal_digit uni w \<or> w = ''.''"

definition dq :: char where "dq = CHR 0x22"

definition vhost_suffix_re :: "(string \<Rightarrow> bool) \<Rightarrow> regex" where
  "vhost_suffix_re uni = in_order
     [Lit [CHR '' '', dq], Group ''host'' (zero_or_more (not_char dq)), Lit [dq, CHR '' ''],
      Group ''request_time'' (one_or_more (digit_or_dot uni))]"

definition nginx_combined_re :: "(string \<Rightarrow> bool) \<Rightarrow> regex" where
  "nginx_combined_re uni = in_order
     [Group ''remote_addr'' (one_or_more not_space), Lit '' '', one_or_more not_space, Lit '' '',
      one_or_more not_space, Lit '' ['',
      Group ''time_local'' (one_or_more (not_char (CHR '']''))), Lit [CHR '']'', CHR '' '', dq],
      Group ''request'' (zero_or_more (not_char dq)), Lit [dq, CHR '' ''],
      Group ''status'' (Many False 3 (Some 3) (decimal_digit uni)), Lit '' '',
      Group ''body_bytes_sent'' (one_or_more (decimal_digit uni)), Lit [CHR '' '', dq],
      Group ''http_referer'' (zero_or_more (not_char dq)), Lit [dq, CHR '' '', dq],
      Group ''http_user_agent'' (zero_or_more (not_char dq)), Lit [dq],
      Opt (vhost_suffix_re uni)]"

text \<open>\<open>caps.name(n)\<close>; the groups outside the optional part always take part in a match.\<close>

definition named_group :: "captures \<Rightarrow> string \<Rightarrow> string" where
  "named_group cs n = unwrap_or [] (map_of cs n)"

definition nginx_caps_of :: "captures \<Rightarrow> nginx_caps" where
  "nginx_caps_of cs =
     \<lparr> nc_remote_addr = named_group cs ''remote_addr'', nc_time_local = named_group cs ''time_local'',
       nc_request = named_group cs ''request'', nc_status = named_group cs ''status'',
       nc_body_bytes_sent = named_group cs ''body_bytes_sent'',
       nc_http_referer = named_group cs ''http_referer'',
       nc_http_user_agent = named_group cs ''http_user_agent'',
       nc_host = map_of cs ''host'', nc_request_time = map_of cs ''request_time'' \<rparr>"

definition nginx_re_of :: "(regex \<Rightarrow> string \<Rightarrow> captures option) \<Rightarrow> (string \<Rightarrow> bool) \<Rightarrow> nginx_re" where
  "nginx_re_of engine uni line = map_option nginx_caps_of (engine (nginx_combined_re uni) line)"

section \<open>Lines in the combined format\<close>

record access =
  ac_addr :: string
  ac_ident :: string
  ac_user :: string
  ac_time :: string
  ac_request :: string
  ac_status :: string
  ac_bytes :: string
  ac_referer :: string
  ac_user_agent :: string
  ac_host :: string
  ac_request_time :: string

definition access_suffix :: "access \<Rightarrow> string" where
  "access_suffix a = CHR '' '' # dq # ac_host a @ dq # CHR '' '' # ac_request_time a"

definition access_line :: "access \<Rightarrow> string" where
  "access_line a =
     ac_addr a @ CHR '' '' # ac_ident a @ CHR '' '' # ac_user a @ CHR '' '' # CHR ''['' # ac_time a
     @ CHR '']'' # CHR '' '' # dq # ac_request a @ dq # CHR '' '' # ac_status a @ CHR '' '' # ac_bytes a
     @ CHR '' '' # dq # ac_referer a @ dq # CHR '' '' # dq # ac_user_agent a @ dq # access_suffix a"

definition word_ok :: "string \<Rightarrow> bool" where
  "word_ok s \<longleftrightarrow> s \<noteq> [] \<and> list_all visible s"

definition text_ok :: "char \<Rightarrow> string \<Rightarrow> bool" where
  "text_ok c s \<longleftrightarrow> utf8_ok s \<and> c \<notin> set s"

definition digits_ok :: "string \<Rightarrow> bool" where
  "digits_ok s \<longleftrightarrow> s \<noteq> [] \<and> list_all is_ascii_digit s"

definition access_ok :: "access \<Rightarrow> bool" where
  "access_ok a \<longleftrightarrow>
     word_ok (ac_addr a) \<and> word_ok (ac_ident a) \<and> word_ok (ac_user a)
     \<and> text_ok (CHR '']'') (ac_time a) \<and> ac_time a \<noteq> [] \<and> text_ok dq (ac_request a)
     \<and> digits_ok (ac_status a) \<and> length (ac_status a) = 3 \<and> digits_ok (ac_bytes a)
     \<and> text_ok dq (ac_referer a) \<and> text_ok dq (ac_user_agent a) \<and> text_ok dq (ac_host a)
     \<and> ac_request_time a \<noteq> [] \<and> list_all (\<lambda>c. is_ascii_digit c \<or> c = CHR ''.'') (ac_request_time a)"

definition access_groups :: "access \<Rightarrow> captures" where
  "access_groups a =
     [(''remote_addr'', ac_addr a), (''time_local'', ac_time a), (''request'', ac_request a),
      (''status'', ac_status a), (''body_bytes_sent'', ac_bytes a), (''http_referer'', ac_referer a),
      (''http_user_agent'', ac_user_agent a), (''host'', ac_host a),
      (''request_time'', ac_request_time a)]"

lemma dq_ascii [simp]: "is_ascii dq" "visible dq" "dq \<noteq> CHR '' ''" "CHR '' '' \<noteq> dq"
  by (simp_all add: dq_def is_ascii_def byte_def visible_def in_range_def)

lemma space_is_white: "'' '' \<in> set white_space"
  by code_simp

lemma char_classes [simp]:
  "\<not> not_space '' ''" "\<not> not_char c [c]" "\<not> decimal_digit uni '' ''" "is_ascii (CHR '' '')" "is_ascii (CHR '']'')"
  by (simp_all add: not_space_def space_is_white not_char_def decimal_digit_def is_ascii_digit_def
      in_range_def byte_def is_ascii_def)

lemma visible_not_space: "visible c \<Longrightarrow> not_space [c]"
  using no_white_space_edge [of c "[c]"] by (auto simp: not_space_def)

lemma visible_ascii: "visible c \<Longrightarrow> is_ascii c"
  by (simp add: visible_def is_ascii_def in_range_def)

lemma word_field:
  assumes "word_ok s"
  shows "field_ok 1 None not_space s" "CHR '' '' \<notin> set s"
proof -
  have a: "list_all is_ascii s" "list_all (\<lambda>c. not_space [c]) s"
    using assms by (auto simp: word_ok_def list_all_iff visible_ascii visible_not_space)
  with assms show "field_ok 1 None not_space s"
    by (cases s) (auto simp: field_ok_def all_chars_list_all count_chars_length count_ok_def word_ok_def)
  show "CHR '' '' \<notin> set s"
    using assms by (auto simp: word_ok_def list_all_iff visible_def in_range_def byte_def)
qed

lemma count_chars_pos: "utf8_ok s \<Longrightarrow> s \<noteq> [] \<Longrightarrow> 1 \<le> count_chars s"
  by (subst count_chars.simps) (auto simp: utf8_ok.simps [of s] split: option.splits)

lemma text_field:
  assumes "text_ok c s"
  shows "field_ok 0 None (not_char c) s" "s \<noteq> [] \<Longrightarrow> field_ok 1 None (not_char c) s" "c \<notin> set s"
proof -
  have "all_chars (not_char c) s"
    using assms all_chars_not [of s c] by (simp add: text_ok_def not_char_def [abs_def])
  then show "field_ok 0 None (not_char c) s" "s \<noteq> [] \<Longrightarrow> field_ok 1 None (not_char c) s" "c \<notin> set s"
    using assms count_chars_pos [of s] by (auto simp: text_ok_def field_ok_def count_ok_def)
qed

lemma digits_field:
  assumes "digits_ok s"
  shows "field_ok 1 None (decimal_digit uni) s" "length s = 3 \<Longrightarrow> field_ok 3 (Some 3) (decimal_digit uni) s"
    "CHR '' '' \<notin> set s"
proof -
  have a: "list_all is_ascii s" "list_all (\<lambda>c. decimal_digit uni [c]) s"
    using assms by (auto simp: digits_ok_def list_all_iff decimal_digit_def is_ascii_digit_def in_range_def is_ascii_def)
  then have f: "all_chars (decimal_digit uni) s" "count_chars s = length s"
    by (simp_all add: all_chars_list_all count_chars_length)
  then show "field_ok 1 None (decimal_digit uni) s"
    using assms by (cases s) (auto simp: field_ok_def count_ok_def digits_ok_def)
  show "length s = 3 \<Longrightarrow> field_ok 3 (Some 3) (decimal_digit uni) s"
    using f by (simp add: field_ok_def count_ok_def)
  show "CHR '' '' \<notin> set s"
    using assms by (auto simp: digits_ok_def list_all_iff is_ascii_digit_def in_range_def byte_def)
qed

section \<open>One way to read a line\<close>

lemma literal_first: "re_matches (Then (Lit t) r) (t @ v) cs \<longleftrightarrow> re_matches r v cs"
  by auto

lemmas field_rules =
  plain_field [where t = "[]", unfolded append_Cons append_Nil] group_field [where t = "[]", unfolded append_Cons append_Nil]
  plain_field [where t = "[e]" for e, unfolded append_Cons append_Nil] group_field [where t = "[e]" for e, unfolded append_Cons append_Nil]
  plain_field [where t = "[e, f]" for e f, unfolded append_Cons append_Nil] group_field [where t = "[e, f]" for e f, unfolded append_Cons append_Nil]

lemma suffix_matches:
  assumes "access_ok a"
  shows "re_matches (Opt (vhost_suffix_re uni)) (access_suffix a) cs \<longleftrightarrow>
    cs = [(''host'', ac_host a), (''request_time'', ac_request_time a)]"
proof -
  have h: "text_ok dq (ac_host a)" and r: "ac_request_time a \<noteq> []"
    "list_all (\<lambda>c. is_ascii_digit c \<or> c = CHR ''.'') (ac_request_time a)"
    using assms by (simp_all add: access_ok_def)
  from r(2) have l: "list_all is_ascii (ac_request_time a)" "list_all (\<lambda>c. digit_or_dot uni [c]) (ac_request_time a)"
    by (auto simp: list_all_iff digit_or_dot_def decimal_digit_def is_ascii_digit_def in_range_def is_ascii_def byte_def)
  then have t: "re_matches (Many False 1 None (digit_or_dot uni)) (ac_request_time a) c \<longleftrightarrow> c = []" for c
    using r(1) by (cases "ac_request_time a") (auto simp: all_chars_list_all count_chars_length count_ok_def)
  have s: "access_suffix a = [CHR '' '', dq] @ ac_host a @ [dq] @ [CHR '' ''] @ ac_request_time a"
    by (simp add: access_suffix_def)
  have "re_matches (vhost_suffix_re uni) (access_suffix a) cs \<longleftrightarrow>
      re_matches (Then (Group ''host'' (Many False 0 None (not_char dq))) (Then (Lit [dq, CHR '' ''])
        (Group ''request_time'' (Many False 1 None (digit_or_dot uni)))))
        (ac_host a @ dq # [CHR '' ''] @ ac_request_time a) cs"
    unfolding vhost_suffix_re_def in_order.simps s literal_first zero_or_more_def one_or_more_def by simp
  also have "\<dots> \<longleftrightarrow> cs = [(''host'', ac_host a), (''request_time'', ac_request_time a)]"
    unfolding group_field [of "not_char dq" dq "ac_host a", OF char_classes(2) dq_ascii(1) text_field(3) [OF h]]
    using text_field(1) [OF h] t by (simp only: re_matches.simps) auto
  finally show ?thesis by (simp add: access_suffix_def)
qed

lemma nginx_combined_matches:
  assumes "access_ok a"
  shows "re_matches (nginx_combined_re uni) (access_line a) cs \<longleftrightarrow> cs = access_groups a"
proof -
  have w: "word_ok (ac_addr a)" "word_ok (ac_ident a)" "word_ok (ac_user a)"
    and t: "text_ok (CHR '']'') (ac_time a)" "ac_time a \<noteq> []" "text_ok dq (ac_request a)"
      "text_ok dq (ac_referer a)" "text_ok dq (ac_user_agent a)"
    and d: "digits_ok (ac_status a)" "length (ac_status a) = 3" "digits_ok (ac_bytes a)"
    using assms by (simp_all add: access_ok_def)
  note facts = word_field [OF w(1)] word_field [OF w(2)] word_field [OF w(3)]
    text_field(2,3) [OF t(1)] text_field(1,3) [OF t(3)] text_field(1,3) [OF t(4)] text_field(1,3) [OF t(5)]
    digits_field(2,3) [OF d(1)] digits_field(1,3) [OF d(3)] t(2) d(2)
  show ?thesis
    unfolding nginx_combined_re_def access_line_def in_order.simps zero_or_more_def one_or_more_def
    by (simp add: field_rules facts suffix_matches [OF assms] access_groups_def del: re_matches.simps One_nat_def)
qed

lemma digits_val_less: "list_all is_ascii_digit ds \<Longrightarrow> digits_val ds < 10 ^ length ds"
proof (induction ds rule: rev_induct)
  case (snoc d ds)
  then have "byte d - 48 < 10" "digits_val ds < 10 ^ length ds"
    by (auto simp: is_ascii_digit_def in_range_def)
  then show ?case by (simp add: digits_val_snoc)
qed (simp add: digits_val_def)

lemma utf8_ok_ascii_Cons [simp]: "is_ascii c \<Longrightarrow> utf8_ok (c # s) \<longleftrightarrow> utf8_ok s"
  using utf8_ok_append [of "[c]" s] utf8_ok_ascii [of "[c]"] by simp

lemma access_line_utf8:
  assumes "access_ok a"
  shows "utf8_ok (access_line a)"
proof -
  have w: "word_ok s \<Longrightarrow> utf8_ok s" for s
    by (rule utf8_ok_ascii) (auto simp: word_ok_def list_all_iff visible_ascii)
  have d: "digits_ok s \<Longrightarrow> utf8_ok s" for s
    by (rule utf8_ok_ascii) (auto simp: digits_ok_def list_all_iff is_ascii_digit_def is_ascii_def in_range_def)
  have r: "list_all (\<lambda>c. is_ascii_digit c \<or> c = CHR ''.'') s \<Longrightarrow> utf8_ok s" for s
    by (rule utf8_ok_ascii) (auto simp: list_all_iff is_ascii_digit_def is_ascii_def in_range_def byte_def)
  have "is_ascii (CHR ''['')" by (simp add: is_ascii_def byte_def)
  with assms show ?thesis
    by (simp add: access_line_def access_suffix_def access_ok_def text_ok_def utf8_ok_append w d r)
qed

lemma access_line_trim:
  assumes "access_ok a"
  shows "trim (access_line a) = access_line a"
proof (rule trim_visible)
  have "ac_addr a \<noteq> []" "list_all visible (ac_addr a)" "ac_request_time a \<noteq> []"
    "list_all (\<lambda>c. is_ascii_digit c \<or> c = CHR ''.'') (ac_request_time a)"
    using assms by (simp_all add: access_ok_def word_ok_def)
  then have "visible (hd (ac_addr a))" "visible (last (ac_request_time a))"
    by (auto simp: list_all_iff is_ascii_digit_def visible_def in_range_def byte_def dest!: bspec [OF _ last_in_set])
  with \<open>ac_addr a \<noteq> []\<close> \<open>ac_request_time a \<noteq> []\<close>
  show "access_line a = [] \<or> visible (hd (access_line a)) \<and> visible (last (access_line a))"
    by (simp add: access_line_def access_suffix_def)
qed

text \<open>What the engine finds in such a line.\<close>

lemma engine_captures:
  assumes "regex_law engine (nginx_combined_re uni)" "access_ok a"
  shows "nginx_re_of engine uni (access_line a) = Some
    \<lparr> nc_remote_addr = ac_addr a, nc_time_local = ac_time a, nc_request = ac_request a,
      nc_status = ac_status a, nc_body_bytes_sent = ac_bytes a, nc_http_referer = ac_referer a,
      nc_http_user_agent = ac_user_agent a, nc_host = Some (ac_host a),
      nc_request_time = Some (ac_request_time a) \<rparr>"
proof -
  have "case engine (nginx_combined_re uni) (access_line a) of
      None \<Rightarrow> \<forall>cs. \<not> re_matches (nginx_combined_re uni) (access_line a) cs
    | Some cs \<Rightarrow> re_matches (nginx_combined_re uni) (access_line a) cs"
    using assms(1) access_line_utf8 [OF assms(2)] by (simp add: regex_law_def)
  then have "engine (nginx_combined_re uni) (access_line a) = Some (access_groups a)"
    by (simp add: nginx_combined_matches [OF assms(2)] split: option.splits)
  then show ?thesis
    by (simp add: nginx_re_of_def nginx_caps_of_def named_group_def access_groups_def unwrap_or_def)
qed

text \<open>
  A line in nginx's combined format is parsed back to what nginx printed. Whatever engine keeps the
  promise of the regex crate, the entry carries the address, method, path, status, bytes, referer, user
  agent and host of the line as they are, and the request time as the exact number of milliseconds.
\<close>

lemma access_line_parsed:
  assumes "regex_law engine (nginx_combined_re uni)" "access_ok a"
    and "parse_ip (ac_addr a) = Some addr" "chrono ''%d/%b/%Y:%H:%M:%S %z'' (ac_time a) = Some ts"
    and "ac_request a = meth @ '' '' @ file @ '' '' @ proto" "CHR '' '' \<notin> set meth" "CHR '' '' \<notin> set file"
    and "ac_status a = show_nat st" "ac_bytes a = show_nat n" "n < 2 ^ 64" "ac_host a \<noteq> ''-''"
    and "ac_request_time a = secs @ ''.'' @ ms" "list_all is_ascii_digit secs" "list_all is_ascii_digit ms"
      "length ms = 3" "digits_val (secs @ ms) < 2 ^ 50"
  shows "nginx_parse (nginx_re_of engine uni) chrono (access_line a) = Inr (Some
    \<lparr> pe_timestamp = ts, pe_source_name = ''nginx-access'', pe_level = classify_status (of_nat st),
      pe_message = meth @ '' '' @ file @ '' '' @ show_nat st, pe_raw = access_line a,
      pe_metadata =
        \<lparr> md_client_ip = Some addr, md_request_method = Some meth, md_request_path = Some file,
          md_status_code = Some (of_nat st), md_bytes_sent = Some (of_nat n),
          md_response_time_ms = Some (of_nat (digits_val (secs @ ms))),
          md_user_agent = Some (ac_user_agent a), md_referer = Some (ac_referer a),
          md_virtual_host = Some (ac_host a), md_upstream_service = None \<rparr> \<rparr>)"
proof -
  have "length (show_nat st) = 3" using assms(2,8) by (simp add: access_ok_def)
  then have "digits_val (show_nat st) < 10 ^ 3"
    using digits_val_less [of "show_nat st"] show_nat_digits [of st] by metis
  then have st: "st < 1000" by simp
  then have s: "parse_uint 65535 (show_nat st) = Some st" "unat (of_nat st :: 16 word) = st"
    by (simp_all add: parse_uint_show_nat unat_of_nat)
  have b: "parse_uint (2 ^ 64 - 1) (show_nat n) = Some n"
    using assms(10) by (simp add: parse_uint_show_nat)
  have "access_line a \<noteq> []" by (simp add: access_line_def)
  moreover have "request_parts (ac_request a) = (Some meth, Some file)"
    unfolding assms(5) by (rule request_parts_line) (use assms(6,7) in simp_all)
  moreover have "request_time_ms (ac_request_time a) = Some (of_nat (digits_val (secs @ ms)))"
    unfolding assms(12) by (rule request_time_exact) (use assms(13-16) in simp_all)
  ultimately show ?thesis
    using assms(3,4,8,9,11) s b
    by (simp add: nginx_parse_def access_line_trim [OF assms(2)] engine_captures [OF assms(1,2)] Let_def
        parse_nginx_timestamp_def nginx_metadata_def nginx_message_def unwrap_or_def del: power_numeral)
qed

end
