(* ===== verification/AuthLog.thy ===== *)
theory AuthLog
  imports AccessLog
begin

text \<open>
  The patterns of \<open>src/src/log_scanner/parser/auth.rs\<close>: the two syslog headers and sshd's messages about
  failed and accepted logins. A line with an ISO time is taken apart at its first blanks, so its time and
  message are what was printed (\<open>iso_line_parsed\<close>); a failed login at the front of a message is found with
  the address that follows the user (\<open>ssh_failed_found\<close>).
\<close>

section \<open>The patterns\<close>

definition user_from_port :: "(string \<Rightarrow> bool) \<Rightarrow> regex" where
  "user_from_port uni = in_order
     [Group ''user'' (one_or_more not_space), Lit '' from '', Group ''ip'' (one_or_more not_space),
      Lit '' port '', one_or_more (decimal_digit uni)]"

definition ssh_failed_pattern :: "(string \<Rightarrow> bool) \<Rightarrow> regex" where
  "ssh_failed_pattern uni =
     Then (Lit ''Failed password for '') (Then (Opt (Lit ''invalid user '')) (user_from_port uni))"

definition ssh_accepted_pattern :: "(string \<Rightarrow> bool) \<Rightarrow> regex" where
  "ssh_accepted_pattern uni =
     Then (Lit ''Accepted '') (Then (Or (Lit ''password'') (Lit ''publickey''))
       (Then (Lit '' for '') (user_from_port uni)))"

text \<open>
  The headers of syslog lines. \<open>word\<close> is the table of the characters outside ASCII that may stand in a
  word; the two formats share what follows the time.
\<close>

definition is_space :: "string \<Rightarrow> bool" where
  "is_space w \<longleftrightarrow> w \<in> set white_space"

definition word_char :: "(string \<Rightarrow> bool) \<Rightarrow> string \<Rightarrow> bool" where
  "word_char word w \<longleftrightarrow>
     (case w of [c] \<Rightarrow> is_ascii_digit c \<or> is_ascii_lowercase c \<or> is_ascii_uppercase c \<or> c = CHR ''_'' | _ \<Rightarrow> word w)"

definition digits_of :: "(string \<Rightarrow> bool) \<Rightarrow> nat \<Rightarrow> regex" where
  "digits_of uni n = Many False n (Some n) (decimal_digit uni)"

definition clock_re :: "(string \<Rightarrow> bool) \<Rightarrow> regex" where
  "clock_re uni = in_order [digits_of uni 2, Lit '':'', digits_of uni 2, Lit '':'', digits_of uni 2]"

definition iso_time_re :: "(string \<Rightarrow> bool) \<Rightarrow> regex" where
  "iso_time_re uni = in_order
     [digits_of uni 4, Lit ''-'', digits_of uni 2, Lit ''-'', digits_of uni 2, Lit ''T'', clock_re uni,
      zero_or_more (digit_or_dot uni), Many False 1 (Some 1) (\<lambda>w. w = ''+'' \<or> w = ''-''),
      digits_of uni 2, Lit '':'', digits_of uni 2]"

definition process_re :: "(string \<Rightarrow> bool) \<Rightarrow> regex" where
  "process_re uni = in_order
     [Group ''service'' (Many True 1 None not_space),
      Opt (in_order [Lit ''['', Group ''pid'' (one_or_more (decimal_digit uni)), Lit '']'']), Lit '':'']"

definition syslog_tail_re :: "(string \<Rightarrow> bool) \<Rightarrow> regex" where
  "syslog_tail_re uni = in_order
     [Group ''host'' (one_or_more not_space), one_or_more is_space, process_re uni, one_or_more is_space,
      Group ''message'' (zero_or_more (not_char LF))]"

definition iso_syslog_pattern :: "(string \<Rightarrow> bool) \<Rightarrow> regex" where
  "iso_syslog_pattern uni = in_order
     [Group ''timestamp'' (iso_time_re uni), one_or_more is_space, syslog_tail_re uni]"

definition syslog_pattern :: "(string \<Rightarrow> bool) \<Rightarrow> (string \<Rightarrow> bool) \<Rightarrow> regex" where
  "syslog_pattern uni word = in_order
     [Group ''month'' (Many False 3 (Some 3) (word_char word)), one_or_more is_space,
      Group ''day'' (Many False 1 (Some 2) (decimal_digit uni)), one_or_more is_space,
      Group ''time'' (clock_re uni), one_or_more is_space, syslog_tail_re uni]"

text \<open>The captures that the parser asks for; \<open>match\<close> is the engine for anchored patterns, \<open>search\<close> for the others.\<close>

definition auth_res_of ::
  "(regex \<Rightarrow> string \<Rightarrow> captures option) \<Rightarrow> (regex \<Rightarrow> string \<Rightarrow> captures option) \<Rightarrow>
   (string \<Rightarrow> bool) \<Rightarrow> (string \<Rightarrow> bool) \<Rightarrow> auth_res" where
  "auth_res_of match search uni word =
     \<lparr> iso_syslog_re = \<lambda>l. map_option (\<lambda>cs. (named_group cs ''timestamp'', named_group cs ''service'',
           named_group cs ''message'')) (match (iso_syslog_pattern uni) l),
       syslog_timestamp_re = \<lambda>l. map_option (\<lambda>cs. (named_group cs ''month'', named_group cs ''day'',
           named_group cs ''time'', named_group cs ''service'', named_group cs ''message''))
           (match (syslog_pattern uni word) l),
       ssh_failed_re = \<lambda>s. map_option (\<lambda>cs. named_group cs ''ip'') (search (ssh_failed_pattern uni) s),
       ssh_accepted_re = \<lambda>s. map_option (\<lambda>cs. named_group cs ''ip'') (search (ssh_accepted_pattern uni) s) \<rparr>"

section \<open>The part after the prefix\<close>

definition login :: "string \<Rightarrow> string \<Rightarrow> string \<Rightarrow> string" where
  "login user ip port = user @ '' from '' @ ip @ '' port '' @ port"

definition login_groups :: "string \<Rightarrow> string \<Rightarrow> captures" where
  "login_groups user ip = [(''user'', user), (''ip'', ip)]"

lemma no_space_field: "field_ok m n not_space u \<Longrightarrow> CHR '' '' \<notin> set u"
  using all_chars_avoid [of not_space u "CHR '' ''"] by (simp add: field_ok_def)

lemma user_from_port_matches:
  "re_matches (user_from_port uni) v cs \<longleftrightarrow>
   (\<exists>user ip port. v = login user ip port \<and> cs = login_groups user ip
      \<and> field_ok 1 None not_space user \<and> field_ok 1 None not_space ip \<and> field_ok 1 None (decimal_digit uni) port)"
  by (auto simp: user_from_port_def one_or_more_def login_def login_groups_def field_ok_def)

lemma login_unique:
  assumes "login user ip port @ w = login user' ip' port' @ w'"
    and "CHR '' '' \<notin> set user" "CHR '' '' \<notin> set ip" "CHR '' '' \<notin> set user'" "CHR '' '' \<notin> set ip'"
  shows "user = user' \<and> ip = ip'"
proof -
  have "user @ CHR '' '' # (''from '' @ ip @ '' port '' @ port @ w) =
      user' @ CHR '' '' # (''from '' @ ip' @ '' port '' @ port' @ w')"
    using assms(1) by (simp add: login_def)
  from delimiter_unique [OF this assms(2,4)]
  have "user = user'" "ip @ CHR '' '' # (''port '' @ port @ w) = ip' @ CHR '' '' # (''port '' @ port' @ w')"
    by simp_all
  with delimiter_unique [OF this(2) assms(3,5)] show ?thesis by simp
qed

text \<open>A text that begins with a login cannot begin with the words \<open>invalid user\<close> as well.\<close>

lemma login_not_invalid:
  assumes "login user ip port @ w = ''invalid user '' @ x" "CHR '' '' \<notin> set user"
  shows False
proof -
  have "user @ CHR '' '' # (''from '' @ ip @ '' port '' @ port @ w) = ''invalid'' @ CHR '' '' # (''user '' @ x)"
    using assms(1) by (simp add: login_def)
  from delimiter_unique [OF this assms(2)] show False by simp
qed

lemma then_literal: "re_matches (Then (Lit t) r) v cs \<longleftrightarrow> (\<exists>x. v = t @ x \<and> re_matches r x cs)"
  by auto

lemma then_optional:
  "re_matches (Then (Opt (Lit t)) r) v cs \<longleftrightarrow> (\<exists>p x. (p = t \<or> p = []) \<and> v = p @ x \<and> re_matches r x cs)"
proof
  assume "\<exists>p x. (p = t \<or> p = []) \<and> v = p @ x \<and> re_matches r x cs"
  then obtain p x where h: "p = t \<or> p = []" "v = p @ x" "re_matches r x cs" by blast
  then have "re_matches (Opt (Lit t)) p []" "cs = [] @ cs" by auto
  with h(2,3) show "re_matches (Then (Opt (Lit t)) r) v cs" unfolding re_matches.simps(3) by blast
qed auto

lemma ssh_failed_front:
  assumes "word_ok user" "word_ok ip" "digits_ok port"
    and "s = ''Failed password for '' @ (if unknown then ''invalid user '' else []) @ login user ip port @ rest"
  shows "match_at (ssh_failed_pattern uni) s 0 cs \<longleftrightarrow> cs = login_groups user ip"
proof
  assume "match_at (ssh_failed_pattern uni) s 0 cs"
  then obtain v w where s: "s = v @ w" and m: "re_matches (ssh_failed_pattern uni) v cs"
    by (auto simp: match_at_def)
  then obtain p l where v: "v = ''Failed password for '' @ p @ l" and p: "p = ''invalid user '' \<or> p = []"
    and l: "re_matches (user_from_port uni) l cs"
    unfolding ssh_failed_pattern_def then_literal then_optional by blast
  from l obtain user' ip' port' where l': "l = login user' ip' port'" "cs = login_groups user' ip'"
    "CHR '' '' \<notin> set user'" "CHR '' '' \<notin> set ip'"
    unfolding user_from_port_matches using no_space_field by blast
  have e: "p @ login user' ip' port' @ w = (if unknown then ''invalid user '' else []) @ login user ip port @ rest"
    using assms(4) s v l'(1) by simp
  note sp = word_field(2) [OF assms(1)] word_field(2) [OF assms(2)]
  have "login user' ip' port' @ w = login user ip port @ rest"
  proof (cases "p = []"; cases unknown)
    assume "p = []" unknown
    with e have "login user' ip' port' @ w = ''invalid user '' @ login user ip port @ rest" by simp
    with login_not_invalid l'(3) show ?thesis by blast
  next
    assume "p \<noteq> []" "\<not> unknown"
    with e p have "login user ip port @ rest = ''invalid user '' @ login user' ip' port' @ w" by simp
    with login_not_invalid sp(1) show ?thesis by blast
  qed (use e p in auto)
  with login_unique l' sp show "cs = login_groups user ip" by blast
next
  have "re_matches (user_from_port uni) (login user ip port) (login_groups user ip)"
    unfolding user_from_port_matches
    using word_field(1) [OF assms(1)] word_field(1) [OF assms(2)] digits_field(1) [OF assms(3)] by blast
  then have "re_matches (ssh_failed_pattern uni)
      (''Failed password for '' @ (if unknown then ''invalid user '' else []) @ login user ip port) (login_groups user ip)"
    unfolding ssh_failed_pattern_def literal_first then_optional by (cases unknown) auto
  moreover assume "cs = login_groups user ip"
  ultimately show "match_at (ssh_failed_pattern uni) s 0 cs"
    using assms(4) unfolding match_at_def by (metis append.assoc append_Nil list.size(3))
qed

lemma ssh_failed_found:
  assumes "search_law search (ssh_failed_pattern uni)" "word_ok user" "word_ok ip" "digits_ok port" "utf8_ok rest"
  shows "ssh_failed_re (auth_res_of match search uni word)
    (''Failed password for '' @ (if unknown then ''invalid user '' else []) @ login user ip port @ rest) = Some ip"
proof -
  let ?s = "''Failed password for '' @ (if unknown then ''invalid user '' else []) @ login user ip port @ rest"
  have ascii: "list_all is_ascii user" "list_all is_ascii ip" "list_all is_ascii port"
    using assms(2-4) by (auto simp: word_ok_def digits_ok_def list_all_iff visible_def is_ascii_digit_def
        in_range_def is_ascii_def)
  have lit: "utf8_ok ''Failed password for ''" "utf8_ok ''invalid user ''" "utf8_ok '' from ''" "utf8_ok '' port ''"
    by (rule utf8_ok_ascii, simp add: is_ascii_def byte_def)+
  have "utf8_ok (login user ip port @ rest)"
    using assms(5) ascii utf8_ok_ascii unfolding login_def append_assoc by (metis lit(3,4) utf8_ok_append)
  then have "utf8_ok ?s" using lit utf8_ok_append by (cases unknown) (simp_all only: if_True if_False append_Nil)
  then show ?thesis
    using search_at_front [OF assms(1), of ?s "login_groups user ip" "\<lambda>cs. named_group cs ''ip''" ip]
      ssh_failed_front [OF assms(2-4) refl, of uni unknown rest]
    by (simp add: auth_res_of_def login_groups_def named_group_def unwrap_or_def del: append.simps)
qed

lemma classify_failed: "ssh_failed_re re m = Some ip \<Longrightarrow> classify_auth_message re m = (Security, parse_ip ip)"
  by (simp add: classify_auth_message_def)

section \<open>Syslog lines\<close>

text \<open>A pattern whose matches hold no blank.\<close>

primrec blank_free :: "regex \<Rightarrow> bool" where
  "blank_free (Lit t) \<longleftrightarrow> CHR '' '' \<notin> set t"
| "blank_free (Many lazy m n p) \<longleftrightarrow> \<not> p '' ''"
| "blank_free (Then a b) \<longleftrightarrow> blank_free a \<and> blank_free b"
| "blank_free (Or a b) \<longleftrightarrow> blank_free a \<and> blank_free b"
| "blank_free (Opt r) \<longleftrightarrow> blank_free r"
| "blank_free (Group n r) \<longleftrightarrow> blank_free r"

lemma blank_free_matches: "blank_free r \<Longrightarrow> re_matches r u cs \<Longrightarrow> CHR '' '' \<notin> set u"
proof (induction r arbitrary: u cs)
  case (Many lazy m n p)
  then show ?case using all_chars_avoid [of p u "CHR '' ''"] by simp
qed (fastforce)+

lemma spaces_visible:
  assumes "all_chars is_space (x # t)" "visible x"
  shows False
proof -
  obtain w where w: "utf8_width (x # t) = Some w" using all_chars_width [OF assms(1)] by auto
  with assms(1) have "take w (x # t) \<in> set white_space" by (simp add: all_chars_step is_space_def)
  moreover have "hd (take w (x # t)) = x" using utf8_width_le [OF w] by (cases w) auto
  ultimately show False using no_white_space_edge [OF assms(2)] by blast
qed

lemma word_then_spaces:
  assumes "blank_free a" "list_all visible w" "x \<noteq> []" "visible (hd x)"
  shows "re_matches (Then a (Then (one_or_more is_space) r)) (w @ CHR '' '' # x) cs \<longleftrightarrow>
    (\<exists>ca cb. cs = ca @ cb \<and> re_matches a w ca \<and> re_matches r x cb)"
proof
  assume "re_matches (Then a (Then (one_or_more is_space) r)) (w @ CHR '' '' # x) cs"
  then obtain u sp v' ca cb where s: "w @ CHR '' '' # x = u @ sp @ v'" and a: "re_matches a u ca"
    and sp: "all_chars is_space sp" "sp \<noteq> []" and r: "re_matches r v' cb" and cs: "cs = ca @ cb"
  proof -
    from \<open>re_matches (Then a (Then (one_or_more is_space) r)) (w @ CHR '' '' # x) cs\<close>
    obtain u y ca cb where y: "w @ CHR '' '' # x = u @ y" "re_matches a u ca" "cs = ca @ cb"
      "re_matches (Then (one_or_more is_space) r) y cb"
      unfolding re_matches.simps(3) by blast
    then obtain sp v' where "y = sp @ v'" "all_chars is_space sp" "1 \<le> count_chars sp" "re_matches r v' cb"
      by (auto simp: one_or_more_def count_ok_def)
    moreover from this have "sp \<noteq> []" by auto
    ultimately show ?thesis using y that by blast
  qed
  have ws: "hd sp = z \<Longrightarrow> visible z \<Longrightarrow> False" for z using spaces_visible sp by (cases sp) auto
  have blank: "CHR '' '' \<notin> set u" by (rule blank_free_matches [OF assms(1) a])
  from s have "u = w"
  proof (rule append_eq_append_conv2 [THEN iffD1, THEN exE])
    fix us
    assume "w = u @ us \<and> us @ CHR '' '' # x = sp @ v' \<or> w @ us = u \<and> CHR '' '' # x = us @ sp @ v'"
    then show "u = w"
    proof (elim disjE conjE)
      assume h: "w = u @ us" "us @ CHR '' '' # x = sp @ v'"
      show ?thesis
      proof (cases us)
        case (Cons z us')
        with h sp(2) have "hd sp = z" by (cases sp) auto
        moreover have "visible z" using assms(2) h(1) Cons by simp
        ultimately show ?thesis using ws by blast
      qed (use h in simp)
    next
      assume h: "w @ us = u" "CHR '' '' # x = us @ sp @ v'"
      with blank show ?thesis by (cases us) auto
    qed
  qed
  with s have "CHR '' '' # x = sp @ v'" by simp
  with sp(2) obtain t where t: "sp = CHR '' '' # t" "x = t @ v'" by (cases sp) auto
  have "t = []"
  proof (rule ccontr)
    assume "t \<noteq> []"
    with t(2) assms(3) have "t = hd x # tl t" by (cases t) auto
    moreover have "all_chars is_space t" using sp(1) t(1) by simp
    ultimately show False using spaces_visible assms(4) by metis
  qed
  with t a r cs \<open>u = w\<close> show "\<exists>ca cb. cs = ca @ cb \<and> re_matches a w ca \<and> re_matches r (x) cb" by auto
next
  assume "\<exists>ca cb. cs = ca @ cb \<and> re_matches a w ca \<and> re_matches r (x) cb"
  then obtain ca cb where h: "cs = ca @ cb" "re_matches a w ca" "re_matches r (x) cb" by blast
  have "re_matches (one_or_more is_space) '' '' []"
    using space_is_white by (simp add: one_or_more_def is_space_def count_ok_def)
  with h have "re_matches (Then (one_or_more is_space) r) ('' '' @ x) ([] @ cb)"
    unfolding re_matches.simps(3) by blast
  then show "re_matches (Then a (Then (one_or_more is_space) r)) (w @ CHR '' '' # x) cs"
    using h unfolding re_matches.simps(3) by (metis append_Cons append_Nil)
qed

lemma blank_free_parts [simp]:
  "blank_free (digits_of uni n)" "blank_free (clock_re uni)" "blank_free (iso_time_re uni)"
  "blank_free (process_re uni)" "blank_free (one_or_more not_space)" "blank_free (one_or_more (decimal_digit uni))"
  by (simp_all add: digits_of_def clock_re_def iso_time_re_def process_re_def one_or_more_def zero_or_more_def
      digit_or_dot_def)

text \<open>A line is taken apart at its first blanks.\<close>

lemma syslog_tail_matches:
  assumes "word_ok host" "word_ok tag" "msg \<noteq> []" "visible (hd msg)"
  shows "re_matches (syslog_tail_re uni) (host @ CHR '' '' # tag @ CHR '' '' # msg) cs \<longleftrightarrow>
    (\<exists>cp. cs = (''host'', host) # cp @ [(''message'', msg)] \<and> re_matches (process_re uni) tag cp
       \<and> field_ok 0 None (not_char LF) msg)"
proof -
  have v: "list_all visible host" "list_all visible tag" "tag \<noteq> []" "visible (hd tag)"
    using assms(1,2) by (simp_all add: word_ok_def) (cases tag; simp)
  have host: "re_matches (Group ''host'' (one_or_more not_space)) host ca \<longleftrightarrow> ca = [(''host'', host)]" for ca
    using word_field(1) [OF assms(1)] by (auto simp: one_or_more_def field_ok_def)
  have msg: "re_matches (Group ''message'' (zero_or_more (not_char LF))) msg ca \<longleftrightarrow>
      ca = [(''message'', msg)] \<and> field_ok 0 None (not_char LF) msg" for ca
    by (auto simp: zero_or_more_def field_ok_def)
  have bf: "blank_free (Group ''host'' (one_or_more not_space))" by simp
  have x: "tag @ CHR '' '' # msg \<noteq> []" "visible (hd (tag @ CHR '' '' # msg))" using v(3,4) by simp_all
  show ?thesis
    unfolding syslog_tail_re_def in_order.simps word_then_spaces [OF bf v(1) x]
      word_then_spaces [OF blank_free_parts(4) v(2) assms(3,4)] host msg
    by auto
qed

section \<open>A line of \<open>auth.log\<close>\<close>

text \<open>What a syslog daemon prints before the message: time with offset, host, and program with its process id.\<close>

record stamp =
  st_year :: string
  st_month :: string
  st_day :: string
  st_hour :: string
  st_minute :: string
  st_second :: string
  st_fraction :: string
  st_east :: bool
  st_zone_hour :: string
  st_zone_minute :: string

definition stamp_text :: "stamp \<Rightarrow> string" where
  "stamp_text t = st_year t @ ''-'' @ st_month t @ ''-'' @ st_day t @ ''T'' @ st_hour t @ '':'' @ st_minute t @ '':''
     @ st_second t @ st_fraction t @ (if st_east t then ''+'' else ''-'') @ st_zone_hour t @ '':'' @ st_zone_minute t"

definition digits_n :: "nat \<Rightarrow> string \<Rightarrow> bool" where
  "digits_n n s \<longleftrightarrow> list_all is_ascii_digit s \<and> length s = n"

definition stamp_ok :: "stamp \<Rightarrow> bool" where
  "stamp_ok t \<longleftrightarrow>
     digits_n 4 (st_year t) \<and> list_all (digits_n 2) [st_month t, st_day t, st_hour t, st_minute t, st_second t,
       st_zone_hour t, st_zone_minute t] \<and> list_all (\<lambda>c. is_ascii_digit c \<or> c = CHR ''.'') (st_fraction t)"

definition process_tag :: "string \<Rightarrow> string option \<Rightarrow> string" where
  "process_tag service pid = service @ (case pid of None \<Rightarrow> [] | Some n \<Rightarrow> ''['' @ n @ '']'') @ '':''"

definition syslog_line :: "stamp \<Rightarrow> string \<Rightarrow> string \<Rightarrow> string option \<Rightarrow> string \<Rightarrow> string" where
  "syslog_line t host service pid msg =
     stamp_text t @ CHR '' '' # host @ CHR '' '' # process_tag service pid @ CHR '' '' # msg"

definition header_ok :: "stamp \<Rightarrow> string \<Rightarrow> string \<Rightarrow> string option \<Rightarrow> bool" where
  "header_ok t host service pid \<longleftrightarrow>
     stamp_ok t \<and> word_ok host \<and> word_ok service \<and> (case pid of None \<Rightarrow> True | Some n \<Rightarrow> digits_ok n)"

definition message_ok :: "string \<Rightarrow> bool" where
  "message_ok m \<longleftrightarrow> utf8_ok m \<and> LF \<notin> set m \<and> m \<noteq> [] \<and> visible (hd m) \<and> visible (last m)"

lemma ascii_class:
  assumes "list_all P s" "\<And>c. P c \<Longrightarrow> is_ascii c \<and> p [c]"
  shows "all_chars p s \<and> count_chars s = length s"
proof -
  have "list_all is_ascii s" "list_all (\<lambda>c. p [c]) s" using assms by (auto simp: list_all_iff)
  then show ?thesis by (simp add: all_chars_list_all count_chars_length)
qed

lemma ascii_digit_class: "is_ascii_digit c \<Longrightarrow> is_ascii c \<and> decimal_digit uni [c]"
  by (simp add: decimal_digit_def is_ascii_digit_def in_range_def is_ascii_def)

lemma digits_of_matches: "digits_n n s \<Longrightarrow> re_matches (digits_of uni n) s []"
  using ascii_class [of is_ascii_digit s "decimal_digit uni"] ascii_digit_class [of _ uni] by (auto simp: digits_n_def digits_of_def count_ok_def)

lemma then_matches: "re_matches a u [] \<Longrightarrow> re_matches b v cs \<Longrightarrow> re_matches (Then a b) (u @ v) cs"
  by (metis append_Nil re_matches.simps(3))

lemma stamp_matches:
  assumes "stamp_ok t"
  shows "re_matches (iso_time_re uni) (stamp_text t) []"
proof -
  note d = digits_of_matches [of _ _ uni]
  have f: "re_matches (zero_or_more (digit_or_dot uni)) (st_fraction t) []"
  proof -
    have "is_ascii c \<and> digit_or_dot uni [c]" if "is_ascii_digit c \<or> c = CHR ''.''" for c
      using that ascii_digit_class [of c uni] by (auto simp: digit_or_dot_def is_ascii_def byte_def)
    then show ?thesis
      using assms ascii_class [of "\<lambda>c. is_ascii_digit c \<or> c = CHR ''.''" "st_fraction t" "digit_or_dot uni"]
      by (simp add: stamp_ok_def zero_or_more_def count_ok_def)
  qed
  have sign: "re_matches (Many False 1 (Some 1) (\<lambda>w. w = ''+'' \<or> w = ''-'')) (if st_east t then ''+'' else ''-'') []"
    by (simp add: count_ok_def is_ascii_def byte_def)
  have l: "re_matches (Lit u) u []" for u by simp
  have "re_matches (clock_re uni) (st_hour t @ '':'' @ st_minute t @ '':'' @ st_second t) []"
    unfolding clock_re_def in_order.simps
    using assms by (intro then_matches d l) (simp_all add: stamp_ok_def)
  then have "re_matches (iso_time_re uni) (st_year t @ ''-'' @ st_month t @ ''-'' @ st_day t @ ''T''
      @ (st_hour t @ '':'' @ st_minute t @ '':'' @ st_second t) @ st_fraction t @ (if st_east t then ''+'' else ''-'')
      @ st_zone_hour t @ '':'' @ st_zone_minute t) []"
    unfolding iso_time_re_def in_order.simps
    using assms by (intro then_matches d l f sign) (simp_all add: stamp_ok_def)
  then show ?thesis by (simp add: stamp_text_def)
qed

lemma stamp_word:
  assumes "stamp_ok t"
  shows "word_ok (stamp_text t)"
proof -
  have d: "digits_n n s \<Longrightarrow> list_all visible s" for n s
    by (auto simp: digits_n_def list_all_iff is_ascii_digit_def visible_def in_range_def)
  have f: "list_all visible (st_fraction t)"
    using assms by (auto simp: stamp_ok_def list_all_iff is_ascii_digit_def visible_def in_range_def byte_def)
  show ?thesis
    using assms f by (simp add: word_ok_def stamp_text_def stamp_ok_def) (auto intro: d simp: visible_def in_range_def byte_def)
qed

lemma tag_matches:
  assumes "word_ok service" "case pid of None \<Rightarrow> True | Some n \<Rightarrow> digits_ok n"
  shows "\<exists>cp. re_matches (process_re uni) (process_tag service pid) cp" "word_ok (process_tag service pid)"
proof -
  have s: "re_matches (Group ''service'' (Many True 1 None not_space)) service [(''service'', service)]"
    using word_field(1) [OF assms(1)] by (simp add: field_ok_def)
  have "\<exists>cp. re_matches (Opt (in_order [Lit ''['', Group ''pid'' (one_or_more (decimal_digit uni)), Lit '']'']))
      (case pid of None \<Rightarrow> [] | Some n \<Rightarrow> ''['' @ n @ '']'') cp"
  proof (cases pid)
    case (Some n)
    with digits_field(1) [of n uni] assms(2) show ?thesis by (auto simp: one_or_more_def field_ok_def)
  qed (simp add: exI [of _ "[]"])
  then obtain cp where o: "re_matches (Opt (in_order [Lit ''['', Group ''pid'' (one_or_more (decimal_digit uni)), Lit '']'']))
      (case pid of None \<Rightarrow> [] | Some n \<Rightarrow> ''['' @ n @ '']'') cp" ..
  have "re_matches (Lit '':'') '':'' []" by simp
  with o have "re_matches (Then (Opt (in_order [Lit ''['', Group ''pid'' (one_or_more (decimal_digit uni)), Lit '']''])) (Lit '':''))
      ((case pid of None \<Rightarrow> [] | Some n \<Rightarrow> ''['' @ n @ '']'') @ '':'') (cp @ [])"
    unfolding re_matches.simps(3) by blast
  with s have "re_matches (process_re uni) (process_tag service pid) ([(''service'', service)] @ cp @ [])"
    unfolding process_re_def process_tag_def in_order.simps re_matches.simps(3) by blast
  then show "\<exists>cp. re_matches (process_re uni) (process_tag service pid) cp" ..
  show "word_ok (process_tag service pid)"
    using assms by (cases pid) (auto simp: word_ok_def process_tag_def digits_ok_def list_all_iff is_ascii_digit_def
        visible_def in_range_def byte_def)
qed

text \<open>The names of the groups of a pattern.\<close>

primrec groups :: "regex \<Rightarrow> string list" where
  "groups (Lit t) = []"
| "groups (Many lazy m n p) = []"
| "groups (Then a b) = groups a @ groups b"
| "groups (Or a b) = groups a @ groups b"
| "groups (Opt r) = groups r"
| "groups (Group n r) = n # groups r"

lemma captured_groups: "re_matches r u cs \<Longrightarrow> fst ` set cs \<subseteq> set (groups r)"
proof (induction r arbitrary: u cs)
  case (Then a b)
  then obtain v w ca cb where "re_matches a v ca" "re_matches b w cb" "cs = ca @ cb" by auto
  with Then.IH(1) [of v ca] Then.IH(2) [of w cb] show ?case by auto
next
  case (Or a b)
  then show ?case by (metis groups.simps(4) le_sup_iff order_trans re_matches.simps(4) set_append sup_ge1 sup_ge2)
next
  case (Opt r)
  then show ?case by auto
next
  case (Group n r)
  then obtain c where "cs = (n, u) # c" "re_matches r u c" by auto
  with Group.IH [of u c] show ?case by auto
qed simp_all

lemma iso_time_captures: "re_matches (iso_time_re uni) u cs \<Longrightarrow> cs = []"
  using captured_groups [of "iso_time_re uni" u cs]
  by (simp add: iso_time_re_def clock_re_def digits_of_def zero_or_more_def)

lemma process_captures: "re_matches (process_re uni) u cs \<Longrightarrow> fst ` set cs \<subseteq> {''service'', ''pid''}"
  using captured_groups [of "process_re uni" u cs] by (simp add: process_re_def one_or_more_def)

lemma iso_line_matches:
  assumes "header_ok t host service pid" "message_ok msg"
  shows "re_matches (iso_syslog_pattern uni) (syslog_line t host service pid msg) cs \<longleftrightarrow>
    (\<exists>cp. cs = (''timestamp'', stamp_text t) # (''host'', host) # cp @ [(''message'', msg)]
       \<and> re_matches (process_re uni) (process_tag service pid) cp)"
proof -
  have h: "stamp_ok t" "word_ok host" "word_ok service" "case pid of None \<Rightarrow> True | Some n \<Rightarrow> digits_ok n"
    and m: "utf8_ok msg" "LF \<notin> set msg" "msg \<noteq> []" "visible (hd msg)"
    using assms by (simp_all add: header_ok_def message_ok_def)
  have v: "list_all visible (stamp_text t)" "host \<noteq> []" "visible (hd host)"
    using stamp_word [OF h(1)] h(2) by (simp_all add: word_ok_def) (cases host; simp)
  have stamp: "re_matches (Group ''timestamp'' (iso_time_re uni)) (stamp_text t) ca \<longleftrightarrow>
      ca = [(''timestamp'', stamp_text t)]" for ca
    using stamp_matches [OF h(1), of uni] iso_time_captures [of uni] by auto
  have bf: "blank_free (Group ''timestamp'' (iso_time_re uni))" by simp
  have x: "host @ CHR '' '' # process_tag service pid @ CHR '' '' # msg \<noteq> []"
    "visible (hd (host @ CHR '' '' # process_tag service pid @ CHR '' '' # msg))" using v(2,3) by simp_all
  have msg: "field_ok 0 None (not_char LF) msg"
    using all_chars_not [OF m(1,2)] by (simp add: field_ok_def count_ok_def not_char_def [abs_def])
  show ?thesis
    unfolding iso_syslog_pattern_def in_order.simps syslog_line_def word_then_spaces [OF bf v(1) x] stamp
      syslog_tail_matches [OF h(2) tag_matches(2) [OF h(3,4)] m(3,4)]
    using msg by auto
qed

lemma iso_line_captures:
  assumes "regex_law match (iso_syslog_pattern uni)" "header_ok t host service pid" "message_ok msg"
  shows "\<exists>svc. iso_syslog_re (auth_res_of match search uni word) (syslog_line t host service pid msg) =
    Some (stamp_text t, svc, msg)"
proof -
  let ?l = "syslog_line t host service pid msg" and ?p = "iso_syslog_pattern uni"
  have "list_all is_ascii s \<Longrightarrow> utf8_ok s" for s by (rule utf8_ok_ascii)
  then have w: "word_ok s \<Longrightarrow> utf8_ok s" for s by (auto simp: word_ok_def list_all_iff visible_ascii)
  have words: "word_ok (stamp_text t)" "word_ok host" "word_ok (process_tag service pid)"
    using assms(2) stamp_word tag_matches(2) by (auto simp: header_ok_def)
  have "utf8_ok ?l" using words assms(3) by (simp add: syslog_line_def utf8_ok_append w message_ok_def)
  with assms(1) have law: "case match ?p ?l of None \<Rightarrow> \<forall>cs. \<not> re_matches ?p ?l cs | Some cs \<Rightarrow> re_matches ?p ?l cs"
    by (simp add: regex_law_def)
  obtain cp where "re_matches (process_re uni) (process_tag service pid) cp"
    using assms(2) tag_matches(1) [of service pid uni] by (auto simp: header_ok_def)
  with law obtain cs where cs: "match ?p ?l = Some cs" "re_matches ?p ?l cs"
    unfolding iso_line_matches [OF assms(2,3)] by (cases "match ?p ?l") auto
  then obtain cp where cp: "cs = (''timestamp'', stamp_text t) # (''host'', host) # cp @ [(''message'', msg)]"
    "re_matches (process_re uni) (process_tag service pid) cp"
    unfolding iso_line_matches [OF assms(2,3)] by blast
  have "map_of cp ''message'' = None"
    using process_captures [OF cp(2)] by (auto simp: map_of_eq_None_iff)
  then have "named_group cs ''timestamp'' = stamp_text t" "named_group cs ''message'' = msg"
    by (simp_all add: cp(1) named_group_def unwrap_or_def map_add_def)
  then show ?thesis by (simp add: auth_res_of_def cs(1))
qed

lemma iso_line_parsed:
  assumes "regex_law match (iso_syslog_pattern uni)" "header_ok t host service pid" "message_ok msg"
    and "rfc (stamp_text t) = Some ts"
  shows "\<exists>svc. auth_parse (auth_res_of match search uni word) rfc chrono year (syslog_line t host service pid msg) =
    Inr (Some \<lparr> pe_timestamp = ts, pe_source_name = ''auth-log'',
      pe_level = fst (classify_auth_message (auth_res_of match search uni word) msg),
      pe_message = ''['' @ svc @ ''] '' @ msg, pe_raw = syslog_line t host service pid msg,
      pe_metadata = default_metadata
        \<lparr> md_client_ip := snd (classify_auth_message (auth_res_of match search uni word) msg) \<rparr> \<rparr>)"
proof -
  let ?l = "syslog_line t host service pid msg"
  have s: "word_ok (stamp_text t)" using assms(2) stamp_word by (simp add: header_ok_def)
  then have "stamp_text t \<noteq> []" "visible (hd (stamp_text t))" by (simp_all add: word_ok_def) (cases "stamp_text t"; simp)
  with assms(3) have "visible (hd ?l)" "visible (last ?l)"
    by (simp_all add: syslog_line_def message_ok_def)
  then have "trim ?l = ?l" by (intro trim_visible) simp
  moreover have "?l \<noteq> []" by (simp add: syslog_line_def)
  ultimately show ?thesis
    using iso_line_captures [OF assms(1-3), of search word] assms(4)
    by (auto simp: auth_parse_def Let_def case_prod_beta)
qed

end
