(* ===== verification/AuthRows.thy ===== *)
theory AuthRows
  imports AuthLog Pipeline
begin

text \<open>
  sshd's messages in \<open>auth.log\<close>, from the line to the row (\<open>src/src/log_scanner/parser/auth.rs\<close> and
  \<open>pipeline.rs\<close>): a failed login is a security row with the client's address, unless the user name, which
  the client chooses, contains an address of its own.
\<close>

definition reads_auth_logs ::
  "(regex \<Rightarrow> string \<Rightarrow> captures option) \<Rightarrow> (regex \<Rightarrow> string \<Rightarrow> captures option) \<Rightarrow>
   (string \<Rightarrow> bool) \<Rightarrow> (string \<Rightarrow> bool) \<Rightarrow> parse_env \<Rightarrow> bool" where
  "reads_auth_logs match search uni word env \<longleftrightarrow>
     regex_law match (iso_syslog_pattern uni) \<and> search_law search (ssh_failed_pattern uni)
     \<and> env_auth_res env = auth_res_of match search uni word"

text \<open>The row of a line, by what the classification makes of its message.\<close>

definition auth_row_ok :: "noise_filter \<Rightarrow> datetime \<Rightarrow> ip_addr option \<Rightarrow> string \<Rightarrow> insert_log_entry \<Rightarrow> bool" where
  "auth_row_ok f ts ip line r \<longleftrightarrow>
     level_from_db (le_level r) = Security \<and> le_timestamp r = ts \<and> le_client_ip r = map_option show_ip ip
     \<and> (if opt_holds (\<lambda>a. a \<in> set (nz_excluded_ips f)) ip
        then le_is_noise r \<and> le_raw_line r = None else \<not> le_is_noise r \<and> le_raw_line r = Some line)"

lemma security_row:
  assumes "reads_auth_logs match search uni word env" "header_ok t host service pid" "message_ok msg"
    and "env_rfc3339 env (stamp_text t) = Some ts" "file_name p = Some ''auth.log''"
    and "tl_file_path l = p" "tl_line l = syslog_line t host service pid msg"
    and "classify_auth_message (auth_res_of match search uni word) msg = (Security, ip)"
  shows "\<exists>r. row_of (fst (process_with env (default_parser env p) f resolve l s)) = Some r
    \<and> auth_row_ok f ts ip (tl_line l) r"
proof -
  obtain e where e: "lp_parse (default_parser env p) (tl_line l) = Inr (Some e)" "pe_timestamp e = ts"
    "pe_level e = Security" "pe_raw e = tl_line l" "pe_metadata e = default_metadata \<lparr> md_client_ip := ip \<rparr>"
    using iso_line_parsed [of match uni t host service pid msg "env_rfc3339 env" ts search word "env_chrono env" "env_year env"] assms
    by (auto simp: default_parser_def auth_parser_def reads_auth_logs_def)
  have "evaluate f e = (if opt_holds (\<lambda>a. a \<in> set (nz_excluded_ips f)) ip then Exclude ''excluded IP'' else Keep)"
    by (simp add: evaluate_def Let_def e(5) default_metadata_def)
  with e show ?thesis
    by (auto simp: process_with_def row_of_def case_prod_beta auth_row_ok_def build_entry_security
        is_noise_result_def default_metadata_def)
qed

text \<open>
  C21: The client of a failed login is reported. For sshd's line about a failed password, of a known or an
  unknown user, a row of level \<open>security\<close> is stored with the time and the address that sshd printed; the
  line is kept with it unless the address is excluded by the configuration.
\<close>

theorem ssh_failure_reported:
  assumes "reads_auth_logs match search uni word env" "header_ok t host service pid" "message_ok msg"
    and "env_rfc3339 env (stamp_text t) = Some ts" "file_name p = Some ''auth.log''"
    and "tl_file_path l = p" "tl_line l = syslog_line t host service pid msg"
    and "msg = ''Failed password for '' @ (if unknown then ''invalid user '' else []) @ user @ '' from '' @ ip
       @ '' port '' @ port @ rest"
    and "word_ok user" "word_ok ip" "digits_ok port" "utf8_ok rest"
  shows "\<exists>r. row_of (fst (process_with env (default_parser env p) f resolve l s)) = Some r
    \<and> auth_row_ok f ts (parse_ip ip) (tl_line l) r"
proof (rule security_row [OF assms(1-7)])
  have "search_law search (ssh_failed_pattern uni)" using assms(1) by (simp add: reads_auth_logs_def)
  from ssh_failed_found [OF this assms(9-12), of match word unknown]
  show "classify_auth_message (auth_res_of match search uni word) msg = (Security, parse_ip ip)"
    unfolding assms(8) by (intro classify_failed) (simp only: login_def append_assoc)
qed

text \<open>
  C22: A user name can name the address. The user name of a failed login is the client's text; when it has
  the form \<open>name from address port number\<close>, the row carries that address and not the client's. With an
  address that the configuration excludes, the row is marked as noise and the line is not kept.
\<close>

theorem ssh_user_name_spoofs_address:
  assumes "reads_auth_logs match search uni word env" "header_ok t host service pid" "message_ok msg"
    and "env_rfc3339 env (stamp_text t) = Some ts" "file_name p = Some ''auth.log''"
    and "tl_file_path l = p" "tl_line l = syslog_line t host service pid msg"
    and "msg = ''Failed password for invalid user '' @ name @ '' from '' @ ip @ '' port '' @ rest"
    and "name = user @ '' from '' @ fake @ '' port '' @ port"
    and "word_ok user" "word_ok fake" "digits_ok port" "utf8_ok ip" "utf8_ok rest"
  shows "\<exists>r. row_of (fst (process_with env (default_parser env p) f resolve l s)) = Some r
    \<and> auth_row_ok f ts (parse_ip fake) (tl_line l) r"
proof (rule security_row [OF assms(1-7)])
  have law: "search_law search (ssh_failed_pattern uni)" using assms(1) by (simp add: reads_auth_logs_def)
  have "utf8_ok '' from ''" "utf8_ok '' port ''"
    by (rule utf8_ok_ascii, simp add: is_ascii_def byte_def)+
  then have "utf8_ok ('' from '' @ ip @ '' port '' @ rest)"
    using assms(13,14) by (metis utf8_ok_append)
  from ssh_failed_found [OF law assms(10-12) this, of match word True]
  show "classify_auth_message (auth_res_of match search uni word) msg = (Security, parse_ip fake)"
    unfolding assms(8,9) by (intro classify_failed) (simp add: login_def)
qed

section \<open>Samples\<close>

definition sample_stamp :: stamp where
  "sample_stamp = \<lparr> st_year = ''2025'', st_month = ''01'', st_day = ''02'', st_hour = ''03'', st_minute = ''04'',
     st_second = ''05'', st_fraction = ''.6'', st_east = True, st_zone_hour = ''00'', st_zone_minute = ''00'' \<rparr>"

definition auth_env :: parse_env where
  "auth_env = sample_parse_env \<lparr> env_auth_res := auth_res_of full_match search_match (\<lambda>_. False) (\<lambda>_. False) \<rparr>"

lemma auth_env_reads: "reads_auth_logs full_match search_match (\<lambda>_. False) (\<lambda>_. False) auth_env"
  by (simp add: reads_auth_logs_def auth_env_def full_match_law search_match_law)

lemma sample_header: "header_ok sample_stamp ''h'' ''sshd'' (Some ''12'')"
  by (simp add: header_ok_def sample_stamp_def stamp_ok_def digits_n_def digits_ok_def word_ok_def is_ascii_digit_def
      visible_def in_range_def byte_def)

lemma sample_words:
  "word_ok ''root''" "word_ok ''10.0.0.1''" "word_ok ''127.0.0.1''" "digits_ok ''22''" "digits_ok ''1''"
  "utf8_ok '' ssh2''"
  by (simp_all add: word_ok_def digits_ok_def visible_def in_range_def byte_def is_ascii_digit_def is_ascii_def
      utf8_ok_ascii)

definition auth_sample :: "string \<Rightarrow> tail_line" where
  "auth_sample msg = \<lparr> tl_file_path = ''/v/auth.log'',
     tl_line = syslog_line sample_stamp ''h'' ''sshd'' (Some ''12'') msg, tl_byte_offset = 0 \<rparr>"

lemma auth_sample_facts:
  "env_rfc3339 auth_env (stamp_text sample_stamp) = Some 0" "file_name ''/v/auth.log'' = Some ''auth.log''"
  "tl_file_path (auth_sample msg) = ''/v/auth.log''"
  "tl_line (auth_sample msg) = syslog_line sample_stamp ''h'' ''sshd'' (Some ''12'') msg"
  by (simp_all add: auth_env_def sample_parse_env_def auth_sample_def) code_simp

theorem ssh_failure_reported_witness:
  "\<exists>r. row_of (fst (process_with auth_env (default_parser auth_env ''/v/auth.log'') noise_new
      (\<lambda>s _ _ _. (None, s)) (auth_sample ''Failed password for invalid user root from 10.0.0.1 port 22 ssh2'') ())) = Some r
    \<and> le_client_ip r = Some ''10.0.0.1'' \<and> \<not> le_is_noise r"
proof -
  let ?m = "''Failed password for invalid user root from 10.0.0.1 port 22 ssh2''"
  have ip: "parse_ip ''10.0.0.1'' = Some (V4 10 0 0 1)" "show_ip (V4 10 0 0 1) = ''10.0.0.1''"
    "V4 10 0 0 1 \<notin> set (nf_excluded_ips default_noise_filter)" by code_simp+
  have ok: "message_ok ?m"
    by (simp add: message_ok_def LF_def visible_def in_range_def byte_def is_ascii_def utf8_ok_ascii)
  have m: "?m = ''Failed password for '' @ (if True then ''invalid user '' else []) @ ''root'' @ '' from '' @ ''10.0.0.1''
      @ '' port '' @ ''22'' @ '' ssh2''" by simp
  from ssh_failure_reported [OF auth_env_reads sample_header ok auth_sample_facts m sample_words(1,2,4,6),
      of noise_new "\<lambda>s _ _ _. (None, s)" "()"] ip
  show ?thesis by (auto simp: auth_row_ok_def noise_new_def)
qed

theorem ssh_user_name_spoofs_address_witness:
  "\<exists>r. row_of (fst (process_with auth_env (default_parser auth_env ''/v/auth.log'')
      (with_excluded_ips noise_new [V4 127 0 0 1]) (\<lambda>s _ _ _. (None, s))
      (auth_sample ''Failed password for invalid user root from 127.0.0.1 port 1 from 10.0.0.1 port 22 ssh2'') ())) = Some r
    \<and> le_client_ip r = Some ''127.0.0.1'' \<and> le_is_noise r \<and> le_raw_line r = None"
proof -
  let ?m = "''Failed password for invalid user root from 127.0.0.1 port 1 from 10.0.0.1 port 22 ssh2''"
  have ip: "parse_ip ''127.0.0.1'' = Some (V4 127 0 0 1)" "show_ip (V4 127 0 0 1) = ''127.0.0.1''" by code_simp+
  have ok: "message_ok ?m"
    by (simp add: message_ok_def LF_def visible_def in_range_def byte_def is_ascii_def utf8_ok_ascii)
  have u: "utf8_ok ''10.0.0.1''" "utf8_ok ''22 ssh2''" by (rule utf8_ok_ascii, simp add: is_ascii_def byte_def)+
  have m: "?m = ''Failed password for invalid user '' @ ''root from 127.0.0.1 port 1'' @ '' from '' @ ''10.0.0.1''
      @ '' port '' @ ''22 ssh2''"
    "''root from 127.0.0.1 port 1'' = ''root'' @ '' from '' @ ''127.0.0.1'' @ '' port '' @ ''1''" by simp_all
  from ssh_user_name_spoofs_address [OF auth_env_reads sample_header ok auth_sample_facts m sample_words(1,3,5) u,
      of "with_excluded_ips noise_new [V4 127 0 0 1]" "\<lambda>s _ _ _. (None, s)" "()"] ip
  show ?thesis by (auto simp: auth_row_ok_def with_excluded_ips_def)
qed

end
