(* ===== verification/Visits.thy ===== *)
theory Visits
  imports AccessLog Tailer Scanner
begin

text \<open>
  A request as nginx logs it, from its values to the row that is stored: the line is printed in the
  combined format, tailed, parsed, filtered, classified and turned into a row (\<open>src/src/log_scanner\<close>).
\<close>

section \<open>Requests and their lines\<close>

record visit =
  vs_addr :: ip_addr
  vs_ident :: string
  vs_user :: string
  vs_time :: string
  vs_method :: string
  vs_file :: string
  vs_protocol :: string
  vs_status :: nat
  vs_bytes :: nat
  vs_referer :: string
  vs_user_agent :: string
  vs_host :: string
  vs_millis :: nat

definition three_digits :: "nat \<Rightarrow> string" where
  "three_digits n = [char_of (48 + n div 100 mod 10), char_of (48 + n div 10 mod 10), char_of (48 + n mod 10)]"

definition access_of :: "visit \<Rightarrow> access" where
  "access_of v =
     \<lparr> ac_addr = show_ip (vs_addr v), ac_ident = vs_ident v, ac_user = vs_user v, ac_time = vs_time v,
       ac_request = vs_method v @ '' '' @ vs_file v @ '' '' @ vs_protocol v,
       ac_status = show_nat (vs_status v), ac_bytes = show_nat (vs_bytes v), ac_referer = vs_referer v,
       ac_user_agent = vs_user_agent v, ac_host = vs_host v,
       ac_request_time = show_nat (vs_millis v div 1000) @ ''.'' @ three_digits (vs_millis v mod 1000) \<rparr>"

definition visit_line :: "visit \<Rightarrow> string" where
  "visit_line v = access_line (access_of v)"

text \<open>The values that nginx prints.\<close>

definition one_line :: "string \<Rightarrow> bool" where
  "one_line s \<longleftrightarrow> LF \<notin> set s \<and> CR \<notin> set s"

definition visit_ok :: "visit \<Rightarrow> bool" where
  "visit_ok v \<longleftrightarrow>
     ip_ok (vs_addr v)
     \<and> word_ok (vs_ident v) \<and> word_ok (vs_user v) \<and> text_ok (CHR '']'') (vs_time v) \<and> vs_time v \<noteq> []
     \<and> text_ok dq (vs_method v) \<and> text_ok dq (vs_file v) \<and> text_ok dq (vs_protocol v)
     \<and> CHR '' '' \<notin> set (vs_method v) \<and> CHR '' '' \<notin> set (vs_file v)
     \<and> 100 \<le> vs_status v \<and> vs_status v < 1000 \<and> vs_bytes v < 2 ^ 64
     \<and> text_ok dq (vs_referer v) \<and> text_ok dq (vs_user_agent v) \<and> text_ok dq (vs_host v) \<and> vs_host v \<noteq> ''-''
     \<and> list_all one_line [vs_time v, vs_method v, vs_file v, vs_protocol v, vs_referer v, vs_user_agent v, vs_host v]
     \<and> vs_millis v < 2 ^ 50"

definition visit_entry :: "time_parser \<Rightarrow> visit \<Rightarrow> parsed_log_entry option" where
  "visit_entry chrono v =
     map_option (\<lambda>ts.
       \<lparr> pe_timestamp = ts, pe_source_name = ''nginx-access'', pe_level = classify_status (of_nat (vs_status v)),
         pe_message = vs_method v @ '' '' @ vs_file v @ '' '' @ show_nat (vs_status v), pe_raw = visit_line v,
         pe_metadata =
           \<lparr> md_client_ip = Some (vs_addr v), md_request_method = Some (vs_method v),
             md_request_path = Some (vs_file v), md_status_code = Some (of_nat (vs_status v)),
             md_bytes_sent = Some (of_nat (vs_bytes v)), md_response_time_ms = Some (of_nat (vs_millis v)),
             md_user_agent = Some (vs_user_agent v), md_referer = Some (vs_referer v),
             md_virtual_host = Some (vs_host v), md_upstream_service = None \<rparr> \<rparr>)
     (chrono ''%d/%b/%Y:%H:%M:%S %z'' (vs_time v))"

lemma three_digits_facts:
  "list_all is_ascii_digit (three_digits n)" "length (three_digits n) = 3"
proof -
  have "is_ascii_digit (char_of (48 + d mod 10))" for d :: nat
    using mod_less_divisor [of 10 d] by (simp add: is_ascii_digit_def in_range_def byte_def)
  then show "list_all is_ascii_digit (three_digits n)" by (simp add: three_digits_def)
qed (simp add: three_digits_def)

lemma three_digits_val:
  assumes "n < 1000"
  shows "digits_val (show_nat q @ three_digits n) = 1000 * q + n"
proof -
  have "digits_val (s @ [c, d, e]) = 1000 * digits_val s + 100 * (byte c - 48) + 10 * (byte d - 48) + (byte e - 48)" for s c d e
    using digits_val_snoc [of "s @ [c, d]" e] digits_val_snoc [of "s @ [c]" d] digits_val_snoc [of s c] by simp
  moreover have "100 * (n div 100 mod 10) + 10 * (n div 10 mod 10) + n mod 10 = n"
  proof -
    have "n div 100 = n div 10 div 10" "n div 100 mod 10 = n div 100"
      using assms by (simp_all add: div_mult2_eq [symmetric])
    then show ?thesis
      using div_mult_mod_eq [of n 10] div_mult_mod_eq [of "n div 10" 10] by linarith
  qed
  moreover have "byte (char_of (48 + d mod 10)) - 48 = d mod 10" for d :: nat
    using mod_less_divisor [of 10 d] by (simp add: byte_def)
  ultimately show ?thesis by (simp add: three_digits_def add.assoc del: mod_less mod_div_trivial)
qed

lemma length_show_nat_3:
  assumes "100 \<le> n" "n < 1000"
  shows "length (show_nat n) = 3"
proof -
  have "\<not> n < 10" "\<not> n div 10 < 10" "n div 10 div 10 < 10" using assms by auto
  then show ?thesis
    by (simp add: show_nat.simps [of n] show_nat.simps [of "n div 10"] show_nat.simps [of "n div 10 div 10"])
qed

lemma show_nat_ok: "digits_ok (show_nat n)"
  using show_nat_digits by (simp add: digits_ok_def)

lemma visit_addr_word: "visit_ok v \<Longrightarrow> word_ok (show_ip (vs_addr v))"
  using show_ip_nonempty show_ip_visible by (simp add: visit_ok_def word_ok_def)

lemma visit_access_ok:
  assumes "visit_ok v"
  shows "access_ok (access_of v)"
proof -
  have d: "list_all (\<lambda>c. is_ascii_digit c \<or> c = CHR ''.'') (show_nat q @ ''.'' @ three_digits n)" for q n
    using show_nat_digits [of q] three_digits_facts(1) [of n] by (auto simp: list_all_iff)
  have "utf8_ok (vs_method v @ '' '' @ vs_file v @ '' '' @ vs_protocol v)"
    using assms by (simp add: visit_ok_def text_ok_def utf8_ok_append)
  then have "text_ok dq (vs_method v @ '' '' @ vs_file v @ '' '' @ vs_protocol v)"
    using assms by (auto simp: visit_ok_def text_ok_def dq_def)
  with visit_addr_word [OF assms] assms d show ?thesis
    by (simp add: access_ok_def access_of_def visit_ok_def show_nat_ok length_show_nat_3 show_nat_digits)
qed

lemma access_line_parsed_back:
  assumes "regex_law engine (nginx_combined_re uni)" "visit_ok v" "visit_entry chrono v = Some e"
  shows "nginx_parse (nginx_re_of engine uni) chrono (visit_line v) = Inr (Some e)"
proof -
  obtain ts where ts: "chrono ''%d/%b/%Y:%H:%M:%S %z'' (vs_time v) = Some ts"
    using assms(3) by (auto simp: visit_entry_def)
  have val: "digits_val (show_nat (vs_millis v div 1000) @ three_digits (vs_millis v mod 1000)) = vs_millis v"
    by (simp add: three_digits_val)
  show ?thesis
    using assms(2,3) ts val three_digits_facts show_nat_digits
      access_line_parsed [OF assms(1) visit_access_ok [OF assms(2)], of "vs_addr v" chrono ts "vs_method v"
        "vs_file v" "vs_protocol v" "vs_status v" "vs_bytes v" "show_nat (vs_millis v div 1000)"
        "three_digits (vs_millis v mod 1000)"]
    by (auto simp: visit_line_def visit_ok_def access_of_def visit_entry_def parse_show_ip)
qed

text \<open>
  C20: A logged request is parsed back to its values. Whatever engine keeps the promise of the regex crate
  for the pattern of the combined format, the line that nginx prints for a request yields its address,
  method, path, status, bytes, referer, user agent and host, and the time to the millisecond.
\<close>

theorem access_line_roundtrip:
  assumes "regex_law engine (nginx_combined_re uni)" "visit_ok v" "visit_entry chrono v = Some e"
  shows "nginx_parse (nginx_re_of engine uni) chrono (visit_line v) = Inr (Some e)"
  using assms by (rule access_line_parsed_back)

definition sample_visit :: visit where
  "sample_visit =
     \<lparr> vs_addr = V4 10 0 0 1, vs_ident = ''-'', vs_user = ''-'', vs_time = ''t'', vs_method = ''GET'',
       vs_file = ''/.env'', vs_protocol = ''HTTP/1.1'', vs_status = 404, vs_bytes = 7, vs_referer = ''-'',
       vs_user_agent = ''a b'', vs_host = ''h'', vs_millis = 1005 \<rparr>"

lemma sample_visit_ok: "visit_ok sample_visit"
proof -
  have u: "utf8_ok ''a b''" "utf8_ok ''t''" "utf8_ok ''h''" "utf8_ok ''-''" "utf8_ok ''GET''" "utf8_ok ''/.env''"
    "utf8_ok ''HTTP/1.1''"
    by (rule utf8_ok_ascii, simp add: is_ascii_def byte_def)+
  show ?thesis
    by (simp add: visit_ok_def sample_visit_def ip_ok_def u word_ok_def text_ok_def visible_def in_range_def byte_def dq_def
        one_line_def LF_def CR_def)
qed

theorem access_line_roundtrip_witness:
  "\<exists>e. nginx_parse (nginx_re_of full_match (\<lambda>_. False)) (\<lambda>_ _. Some 0) (visit_line sample_visit) = Inr (Some e)
    \<and> md_response_time_ms (pe_metadata e) = Some 1005 \<and> md_status_code (pe_metadata e) = Some 404
    \<and> md_user_agent (pe_metadata e) = Some ''a b''"
proof -
  obtain e where e: "visit_entry (\<lambda>_ _. Some 0) sample_visit = Some e" by (simp add: visit_entry_def)
  from access_line_roundtrip [OF full_match_law sample_visit_ok e] e show ?thesis
    by (auto simp: visit_entry_def sample_visit_def)
qed

section \<open>The rows of an access log\<close>

text \<open>The environment whose pattern for access logs is the one of the source.\<close>

definition reads_access_logs :: "(regex \<Rightarrow> string \<Rightarrow> captures option) \<Rightarrow> (string \<Rightarrow> bool) \<Rightarrow> parse_env \<Rightarrow> bool" where
  "reads_access_logs engine uni env \<longleftrightarrow>
     regex_law engine (nginx_combined_re uni) \<and> env_nginx_re env = nginx_re_of engine uni"

text \<open>The row of a request, up to the id of the service it is filed under.\<close>

definition visit_row :: "parse_env \<Rightarrow> noise_filter \<Rightarrow> visit \<Rightarrow> insert_log_entry option" where
  "visit_row env f v =
     map_option (\<lambda>e. build_entry None e (evaluate f e) (classify (env_lower env) e)) (visit_entry (env_chrono env) v)"

lemma visit_processed:
  assumes "reads_access_logs engine uni env" "visit_ok v" "visit_row env f v = Some row"
    and "file_name p \<noteq> Some ''auth.log''"
  shows "\<exists>r. row_of (fst (process_with env (default_parser env p) f resolve (mk_line p off (visit_line v)) s)) = Some r
    \<and> without_id r = row"
proof -
  obtain e where e: "visit_entry (env_chrono env) v = Some e"
    "row = build_entry None e (evaluate f e) (classify (env_lower env) e)"
    using assms(3) by (auto simp: visit_row_def)
  have "lp_parse (default_parser env p) (visit_line v) = Inr (Some e)"
    using access_line_parsed_back [OF _ assms(2) e(1), of engine uni] assms(1,4)
    by (simp add: default_parser_def nginx_parser_def reads_access_logs_def)
  with e show ?thesis
    by (simp add: process_with_def mk_line_def row_of_def case_prod_beta without_id_build)
qed

lemma visit_rows:
  assumes "reads_access_logs engine uni (cg_env cg)" "file_name p \<noteq> Some ''auth.log''"
    and "list_all visit_ok vs" "map (visit_row (cg_env cg) (cg_filter cg)) vs = map Some rows"
  shows "map without_id (rows_of_lines cg (tail_lines p off (map visit_line vs)) s) = rows"
  using assms(3,4)
proof (induction vs arbitrary: off s rows)
  case (Cons v vs)
  then obtain row rest where r: "rows = row # rest" "visit_row (cg_env cg) (cg_filter cg) v = Some row"
    "map (visit_row (cg_env cg) (cg_filter cg)) vs = map Some rest" by (cases rows) auto
  with Cons visit_processed [OF assms(1) _ r(2) assms(2), of "cg_resolve cg" off s]
  show ?case by (auto simp: rows_of_lines_Cons mk_line_def Let_def case_prod_beta)
qed simp

lemma visit_line_one_line:
  assumes "visit_ok v"
  shows "one_line (visit_line v)"
proof -
  have w: "word_ok s \<Longrightarrow> one_line s" for s
    by (auto simp: word_ok_def one_line_def list_all_iff visible_def in_range_def byte_def LF_def CR_def)
  have d: "list_all is_ascii_digit s \<Longrightarrow> one_line s" for s
    by (auto simp: one_line_def list_all_iff is_ascii_digit_def in_range_def byte_def LF_def CR_def)
  have a: "one_line (s @ t) \<longleftrightarrow> one_line s \<and> one_line t" for s t by (auto simp: one_line_def)
  have c: "one_line (x # s) \<longleftrightarrow> x \<noteq> LF \<and> x \<noteq> CR \<and> one_line s" for x s by (auto simp: one_line_def)
  have n: "one_line []" by (simp add: one_line_def)
  show ?thesis
    using assms w w [OF visit_addr_word [OF assms]] d [OF conjunct1 [OF show_nat_digits]] d [OF three_digits_facts(1)]
    by (simp add: visit_line_def access_line_def access_suffix_def access_of_def visit_ok_def a c n) (simp add: LF_def CR_def dq_def)
qed

definition access_log :: "visit list \<Rightarrow> string" where
  "access_log vs = concat (map (\<lambda>v. visit_line v @ [LF]) vs)"

lemma access_log_concat: "access_log us @ concat (map access_log uss) = access_log (concat (us # uss))"
proof -
  have "access_log (vs @ ws) = access_log vs @ access_log ws" for vs ws by (simp add: access_log_def)
  then have "concat (map access_log uss) = access_log (concat uss)" by (induction uss) (simp_all add: access_log_def)
  then show ?thesis by (simp add: access_log_def)
qed

lemma access_log_lines: "list_all visit_ok vs \<Longrightarrow> lines (access_log vs) = map visit_line vs"
proof (induction vs)
  case (Cons v vs)
  then have "lines (visit_line v @ [LF]) = [visit_line v]"
    using visit_line_one_line [of v] by (intro lines_one) (auto simp: one_line_def)
  with Cons show ?case
    using lines_LF_append [of "visit_line v" "access_log vs"] by (simp add: access_log_def)
qed (simp add: access_log_def lines_def)

lemma access_log_whole: "list_all visit_ok vs \<Longrightarrow> whole_lines (access_log vs)"
proof (induction vs)
  case (Cons v vs)
  have "utf8_ok (visit_line v @ [LF])" "CR \<notin> set (visit_line v @ [LF])"
    using Cons.prems visit_line_one_line [of v] access_line_utf8 [OF visit_access_ok, of v]
    by (auto simp: one_line_def visit_line_def utf8_ok_append is_ascii_def byte_def LF_def CR_def utf8_ok.simps [of "[]"])
  moreover have "access_log (v # vs) = (visit_line v @ [LF]) @ access_log vs" by (simp add: access_log_def)
  moreover have "unterminated ((visit_line v @ [LF]) @ access_log vs) = unterminated (access_log vs)"
    by (rule unterminated_LF_append)
  ultimately show ?case
    using Cons utf8_ok_append [of "visit_line v @ [LF]" "access_log vs"] by (simp add: whole_lines_def)
qed (simp add: access_log_def whole_lines_def unterminated_def utf8_ok.simps [of "[]"])

text \<open>What the noise filter and the classifier make of a request.\<close>

definition is_probe :: "noise_filter \<Rightarrow> visit \<Rightarrow> bool" where
  "is_probe f v \<longleftrightarrow>
     list_ex (contains (vs_file v)) scanner_path_literals
     \<and> vs_addr v \<notin> set (nz_excluded_ips f) \<and> vs_file v \<notin> set (nz_health_check_paths f)"

lemma visit_row_values:
  assumes "visit_row env f v = Some row"
  shows "le_message row = vs_method v @ '' '' @ vs_file v @ '' '' @ show_nat (vs_status v)"
    "le_client_ip row = Some (show_ip (vs_addr v))" "le_request_path row = Some (vs_file v)"
    "le_status_code row = Some (of_nat (vs_status v))" "le_response_time_ms row = Some (of_nat (vs_millis v))"
    "le_raw_line row = None \<or> le_raw_line row = Some (visit_line v)"
proof -
  obtain e where e: "visit_entry (env_chrono env) v = Some e"
    "row = build_entry None e (evaluate f e) (classify (env_lower env) e)"
    using assms by (auto simp: visit_row_def)
  from e(1) have "pe_message e = vs_method v @ '' '' @ vs_file v @ '' '' @ show_nat (vs_status v)"
    "md_client_ip (pe_metadata e) = Some (vs_addr v)" "md_request_path (pe_metadata e) = Some (vs_file v)"
    "md_status_code (pe_metadata e) = Some (of_nat (vs_status v))"
    "md_response_time_ms (pe_metadata e) = Some (of_nat (vs_millis v))" "pe_raw e = visit_line v"
    by (auto simp: visit_entry_def)
  then show "le_message row = vs_method v @ '' '' @ vs_file v @ '' '' @ show_nat (vs_status v)"
    "le_client_ip row = Some (show_ip (vs_addr v))" "le_request_path row = Some (vs_file v)"
    "le_status_code row = Some (of_nat (vs_status v))" "le_response_time_ms row = Some (of_nat (vs_millis v))"
    "le_raw_line row = None \<or> le_raw_line row = Some (visit_line v)"
    by (simp_all add: e(2))
qed

lemma probe_row:
  assumes "visit_row env (noise_from_config c) v = Some row" "is_probe (noise_from_config c) v"
  shows "level_from_db (le_level row) = Security \<and> le_raw_line row = Some (visit_line v) \<and> \<not> le_is_noise row"
proof -
  obtain e where e: "visit_entry (env_chrono env) v = Some e"
    "row = build_entry None e (evaluate (noise_from_config c) e) (classify (env_lower env) e)"
    using assms(1) by (auto simp: visit_row_def)
  then have md: "md_client_ip (pe_metadata e) = Some (vs_addr v)" "md_request_path (pe_metadata e) = Some (vs_file v)"
    "pe_raw e = visit_line v"
    by (auto simp: visit_entry_def)
  then have "evaluate (noise_from_config c) e = FlagSecurity (''scanner path: '' @ vs_file v)"
    using assms(2) by (simp add: evaluate_flag is_probe_def)
  with e(2) md(3) show ?thesis
    by (simp add: build_entry_security is_security_flag_def is_noise_result_def)
qed

lemma stored_visit:
  assumes "visit_row env (noise_from_config c) v = Some (without_id r)"
  shows "le_client_ip r = Some (show_ip (vs_addr v)) \<and> le_request_path r = Some (vs_file v)
    \<and> (is_probe (noise_from_config c) v \<longrightarrow> level_from_db (le_level r) = Security \<and> le_raw_line r = Some (visit_line v))"
  using visit_row_values [OF assms] probe_row [OF assms] by (simp add: without_id_def)

text \<open>A scanner that reads such logs, and the row of the sample.\<close>

definition access_scan :: "unit scan_config" where
  "access_scan = sample_scan
     \<lparr> cg_env := sample_parse_env \<lparr> env_nginx_re := nginx_re_of full_match (\<lambda>_. False), env_chrono := \<lambda>_ _. Some 0 \<rparr> \<rparr>"

lemma access_scan_reads: "reads_access_logs full_match (\<lambda>_. False) (cg_env access_scan)"
  by (simp add: reads_access_logs_def access_scan_def full_match_law)

lemma sample_is_probe: "is_probe noise_new sample_visit"
proof -
  have "list_ex (contains ''/.env'') scanner_path_literals" by code_simp
  moreover have "V4 10 0 0 1 \<notin> set (nf_excluded_ips default_noise_filter)"
    "''/.env'' \<notin> set (nf_health_check_paths default_noise_filter)" by code_simp+
  ultimately show ?thesis by (simp add: is_probe_def sample_visit_def noise_new_def)
qed

end
