(* ===== verification/Forwarding.thy ===== *)
theory Forwarding
  imports AgentLogs
begin

text \<open>
  Host-log forwarding from end to end: the agent's scanner (\<open>src/src/agent/logs.rs\<close>) with the hub's service
  (\<open>src/src/hub/grpc.rs\<close>) as its peer. As long as the hub accepts the key and its database answers, what
  the agent takes off its channel is stored at the hub, once and in order, if the lines fit the hub's
  checks.
\<close>

section \<open>A hub that serves one request after the other\<close>

text \<open>The libraries and clocks that the \<open>k\<close>-th request meets, and the address of the client.\<close>

record ('h, 'l) hub_course =
  hk_env :: "nat \<Rightarrow> ('h, 'l) hub_env"
  hk_lines :: "nat \<Rightarrow> clock_readings"
  hk_metrics :: "nat \<Rightarrow> datetime \<times> datetime"
  hk_remote :: "string option"

definition hub_at :: "('h, 'l) hub_course \<Rightarrow> nat \<Rightarrow> 'l hub hub_peer" where
  "hub_at c k = hub_peer (hk_env c k) (fst (hk_metrics c k)) (snd (hk_metrics c k)) (hk_lines c k) (hk_remote c)"

definition hub_service :: "('h, 'l) hub_course \<Rightarrow> (nat \<times> 'l hub) hub_peer" where
  "hub_service c =
     \<lparr> hp_send_metrics = (\<lambda>(k, h) key m. map_prod id (Pair (Suc k)) (hp_send_metrics (hub_at c k) h key m)),
       hp_send_logs = (\<lambda>(k, h) key rq. map_prod id (Pair (Suc k)) (hp_send_logs (hub_at c k) h key rq)) \<rparr>"

text \<open>The key passes the next \<open>n\<close> requests, as an agent's with that host name and the permission.\<close>

fun auth_ready :: "('h, 'l) hub_course \<Rightarrow> string \<Rightarrow> string \<Rightarrow> nat \<Rightarrow> nat \<Rightarrow> 'l auth_service \<Rightarrow> bool" where
  "auth_ready c key host k 0 a = True"
| "auth_ready c key host k (Suc n) a =
     (case check_ip_budget (he_limiter (hk_env c k)) (unwrap_or ''unknown'' (hk_remote c)) a of
        (Inr _, a1) \<Rightarrow>
          (case authenticate (he_argon2 (hk_env c k)) (he_instant (hk_env c k)) key a1 of
             (Inr p, a2) \<Rightarrow> IngestLogs \<in> pp_permissions p \<and> pp_agent_id p \<noteq> None \<and> pp_hostname p = Some host
               \<and> auth_ready c key host (Suc k) n a2
           | _ \<Rightarrow> False)
      | _ \<Rightarrow> False)"

lemma auth_ready_less: "auth_ready c key host k (Suc n) a \<Longrightarrow> auth_ready c key host k n a"
proof (induction n arbitrary: k a)
  case (Suc n)
  from Suc.prems obtain u a1 p a2 where
    "check_ip_budget (he_limiter (hk_env c k)) (unwrap_or ''unknown'' (hk_remote c)) a = (Inr u, a1)"
    "authenticate (he_argon2 (hk_env c k)) (he_instant (hk_env c k)) key a1 = (Inr p, a2)"
    "IngestLogs \<in> pp_permissions p" "pp_agent_id p \<noteq> None" "pp_hostname p = Some host"
    "auth_ready c key host (Suc k) (Suc n) a2"
    by (subst (asm) auth_ready.simps) (auto split: prod.splits sum.splits simp del: auth_ready.simps)
  with Suc.IH [of "Suc k" a2] show ?case by simp
qed simp

definition hub_ready :: "('h, 'l) hub_course \<Rightarrow> string \<Rightarrow> string \<Rightarrow> nat \<Rightarrow> (nat \<times> 'l hub) grpc_sink \<Rightarrow> bool" where
  "hub_ready c key host n g \<longleftrightarrow>
     hc_api_key (gk_client g) = key
     \<and> (case hc_peer (gk_client g) of (k, h) \<Rightarrow> auth_ready c key host k n (hb_auth h) \<and> db_healthy 1000 n (hb_logs h))"

lemma store_logs_ready:
  assumes "db_healthy 1000 (Suc n) (hb_logs h)" "length (lq_lines rq) + length (lq_parsed_lines rq) \<le> 1000"
  shows "\<exists>a h'. store_logs ms_ok clk host rq h = (Inr a, h') \<and> db_healthy 1000 n (hb_logs h') \<and> hb_auth h' = hb_auth h"
proof -
  let ?st = "ingest_all (check_request ms_ok clk host rq) (hb_services h)"
  have "length (is_entries ?st) \<le> 1000"
    using ingest_all_entries(2) [of "check_request ms_ok clk host rq" "hb_services h"] assms(2)
    by (simp add: check_request_def)
  with healthy_insert [OF assms(1)] obtain cnt db where
    "insert_batch (hb_logs h) (is_entries ?st) = (Inr cnt, db)" "db_healthy 1000 n db" by blast
  with assms(2) db_healthy_less [OF assms(1)] show ?thesis
    by (simp add: store_logs_def max_lines_per_request_def Let_def)
qed

lemma send_logs_ready:
  assumes "auth_ready c key host k (Suc n) (hb_auth h)" "db_healthy 1000 (Suc n) (hb_logs h)"
    and "length (lq_lines rq) + length (lq_parsed_lines rq) \<le> 1000"
  shows "\<exists>a h'. send_logs (hk_env c k) clk \<lparr> gr_api_key = Some key, gr_remote = hk_remote c, gr_message = rq \<rparr> h = (Inr a, h')
    \<and> auth_ready c key host (Suc k) n (hb_auth h') \<and> db_healthy 1000 n (hb_logs h')
    \<and> map without_id (stored_entries (hb_logs h')) = map without_id (stored_entries (hb_logs h)
        @ accepted_entries (check_request (he_ms_ok (hk_env c k)) clk host rq))"
proof -
  let ?g = "\<lparr> gr_api_key = Some key, gr_remote = hk_remote c, gr_message = rq \<rparr>"
  from assms(1) obtain u a1 p a2 where
    au: "check_ip_budget (he_limiter (hk_env c k)) (unwrap_or ''unknown'' (hk_remote c)) (hb_auth h) = (Inr u, a1)"
      "authenticate (he_argon2 (hk_env c k)) (he_instant (hk_env c k)) key a1 = (Inr p, a2)"
    and p: "IngestLogs \<in> pp_permissions p" "pp_agent_id p \<noteq> None" "pp_hostname p = Some host"
    and next_ready: "auth_ready c key host (Suc k) n a2"
    by (auto split: prod.splits sum.splits)
  let ?h = "h \<lparr> hb_auth := a2 \<rparr>"
  have "authorize (hk_env c k) ?g h = (Inr p, ?h)" using au by (simp add: authorize_def)
  moreover obtain ag where "require_agent IngestLogs ''key lacks ingest:logs'' p = Inr (ag, host)"
    using p by (auto simp: require_agent_Inr)
  moreover obtain a h' where st: "store_logs (he_ms_ok (hk_env c k)) clk host rq ?h = (Inr a, h')"
    "db_healthy 1000 n (hb_logs h')" "hb_auth h' = a2"
    using store_logs_ready [of n ?h rq "he_ms_ok (hk_env c k)" clk host] assms(2,3) by auto
  ultimately have "send_logs (hk_env c k) clk ?g h = (Inr a, h')" by (simp add: send_logs_def)
  moreover have "map without_id (stored_entries (hb_logs h')) = map without_id (stored_entries (hb_logs h)
        @ accepted_entries (check_request (he_ms_ok (hk_env c k)) clk host rq))"
    using store_logs_Inr(1) [OF st(1)] ingest_all_entries(1) [of "check_request (he_ms_ok (hk_env c k)) clk host rq" "hb_services ?h"]
    by (simp add: without_id_def [abs_def])
  ultimately show ?thesis using st next_ready by auto
qed

section \<open>The sink does not fail\<close>

definition wire_request :: "agent_resolver \<Rightarrow> insert_log_entry list \<Rightarrow> logs_request" where
  "wire_request r es = \<lparr> lq_lines = [], lq_parsed_lines = map (\<lambda>e. entry_to_proto e r) es \<rparr>"

definition hub_stored :: "(nat \<times> 'l hub) grpc_sink \<Rightarrow> insert_log_entry list" where
  "hub_stored g = map without_id (stored_entries (hb_logs (snd (hc_peer (gk_client g)))))"

lemma grpc_ready:
  assumes "hub_ready c key host (Suc n) g" "length es \<le> 1000"
  shows "\<exists>m g'. grpc_insert_batch (hub_service c) r g es = (Inr m, g') \<and> hub_ready c key host n g'
    \<and> (\<exists>k. hub_stored g' = hub_stored g
        @ map without_id (accepted_entries (check_request (he_ms_ok (hk_env c k)) (hk_lines c k) host (wire_request r es))))"
proof -
  obtain k h where p: "hc_peer (gk_client g) = (k, h)" by force
  let ?cl = "gk_client g"
  have r: "hc_api_key ?cl = key" "auth_ready c key host k (Suc n) (hb_auth h)" "db_healthy 1000 (Suc n) (hb_logs h)"
    using assms(1) p by (simp_all add: hub_ready_def del: auth_ready.simps)
  obtain a h' where s: "send_logs (hk_env c k) (hk_lines c k)
      \<lparr> gr_api_key = Some key, gr_remote = hk_remote c, gr_message = wire_request r es \<rparr> h = (Inr a, h')"
    "auth_ready c key host (Suc k) n (hb_auth h')" "db_healthy 1000 n (hb_logs h')"
    "map without_id (stored_entries (hb_logs h')) = map without_id (stored_entries (hb_logs h)
        @ accepted_entries (check_request (he_ms_ok (hk_env c k)) (hk_lines c k) host (wire_request r es)))"
    using send_logs_ready [OF r(2,3), of "wire_request r es" "hk_lines c k"] assms(2) by (auto simp: wire_request_def)
  let ?g = "g \<lparr> gk_client := ?cl \<lparr> hc_peer := (Suc k, h'), hc_requests := hc_requests ?cl @ [(wire_request r es, True)] \<rparr>,
    gk_taken := gk_taken g @ es \<rparr>"
  have "grpc_insert_batch (hub_service c) r g es = (Inr (length es), ?g)"
    using s(1) p r(1)
    by (simp add: grpc_insert_batch_def client_send_request_def hub_service_def hub_at_def hub_peer_logs wire_request_def)
  moreover have "hub_ready c key host n ?g" using s r(1) by (simp add: hub_ready_def)
  moreover have "hub_stored ?g = hub_stored g
      @ map without_id (accepted_entries (check_request (he_ms_ok (hk_env c k)) (hk_lines c k) host (wire_request r es)))"
    using s(4) p by (simp add: hub_stored_def)
  ultimately show ?thesis by blast
qed

lemma hub_ready_less: "hub_ready c key host (Suc n) g \<Longrightarrow> hub_ready c key host n g"
  by (auto simp: hub_ready_def db_healthy_less dest: auth_ready_less simp del: auth_ready.simps)

interpretation grpc_reliable: reliable_sink "grpc_insert_batch (hub_service c)" gk_taken "hub_ready c key host" 1000
  for c key host
proof unfold_locales
  show "hub_ready c key host (Suc n) g \<Longrightarrow> length es \<le> 1000 \<Longrightarrow>
      \<exists>m g'. grpc_insert_batch (hub_service c) s g es = (Inr m, g') \<and> hub_ready c key host n g'" for s n g es
    using grpc_ready by blast
qed (rule hub_ready_less)

section \<open>Lines that fit the hub's checks\<close>

text \<open>What the hub stores of a row of the agent.\<close>

definition arrived :: "string \<Rightarrow> insert_log_entry \<Rightarrow> insert_log_entry" where
  "arrived host e = e
     \<lparr> le_service_id := None, le_timestamp := timestamp_millis (le_timestamp e) * ns_per_ms,
       le_message := sanitize_message (le_message e), le_raw_line := map_option sanitize_message (le_raw_line e),
       le_status_code := (if le_status_code e = Some 0 then None else le_status_code e),
       le_source_host := Some host \<rparr>"

definition meta_fits :: "resolve_request \<Rightarrow> bool" where
  "meta_fits q = (case q of (n, ut, vh) \<Rightarrow>
     sized_token container_char 64 n \<and> sized_token unit_char 64 ut
     \<and> (case vh of None \<Rightarrow> True | Some v \<Rightarrow> sized_token container_char 64 v))"

text \<open>\<open>ms_ok\<close> says which instants chrono represents; the hub's clock stays between \<open>lo\<close> and \<open>hi\<close>.\<close>

definition entry_fits ::
  "(int \<Rightarrow> bool) \<Rightarrow> datetime \<Rightarrow> datetime \<Rightarrow> noise_filter \<Rightarrow> parsed_log_entry \<Rightarrow> bool" where
  "entry_fits ms_ok lo hi f e \<longleftrightarrow>
     (let ms = timestamp_millis (pe_timestamp e); md = pe_metadata e
      in ms_ok ms \<and> hi - 2592001 * ns_per_s < ms * ns_per_ms \<and> ms * ns_per_ms < lo + 301 * ns_per_s
       \<and> (case md_request_path md of None \<Rightarrow> True | Some q \<Rightarrow> length q \<le> 2048 \<and> \<not> has_control q)
       \<and> (case noise_reason_of (evaluate f e) of None \<Rightarrow> True | Some q \<Rightarrow> length q \<le> 128 \<and> \<not> has_control q)
       \<and> (case md_status_code md of None \<Rightarrow> True | Some w \<Rightarrow> unat w \<le> 599)
       \<and> (case md_response_time_ms md of None \<Rightarrow> True | Some w \<Rightarrow> 0 \<le> sint w))"

definition line_fits ::
  "(int \<Rightarrow> bool) \<Rightarrow> datetime \<Rightarrow> datetime \<Rightarrow> parse_env \<Rightarrow> noise_filter \<Rightarrow> tail_line \<Rightarrow> bool" where
  "line_fits ms_ok lo hi env f l \<longleftrightarrow>
     (case lp_parse (default_parser env (tl_file_path l)) (tl_line l) of
        Inr (Some e) \<Rightarrow> entry_fits ms_ok lo hi f e \<and> meta_fits (service_request (tl_file_path l) e)
      | _ \<Rightarrow> True)"

definition hub_times :: "('h, 'l) hub_course \<Rightarrow> (int \<Rightarrow> bool) \<Rightarrow> datetime \<Rightarrow> datetime \<Rightarrow> bool" where
  "hub_times c ms_ok lo hi \<longleftrightarrow>
     (\<forall>k. he_ms_ok (hk_env c k) = ms_ok \<and> (\<forall>i. lo \<le> snd (hk_lines c k i) \<and> snd (hk_lines c k i) \<le> hi))"

section \<open>Rows in the batch\<close>

definition metas_fit :: "agent_resolver \<Rightarrow> bool" where
  "metas_fit r \<longleftrightarrow> (\<forall>u m. ar_by_id r u = Some m \<longrightarrow> meta_fits (me_name m, me_unit_type m, me_virtual_host m))"

definition row_fits ::
  "(int \<Rightarrow> bool) \<Rightarrow> datetime \<Rightarrow> datetime \<Rightarrow> parse_env \<Rightarrow> noise_filter \<Rightarrow> agent_resolver \<Rightarrow> insert_log_entry \<Rightarrow> bool" where
  "row_fits ms_ok lo hi env f r row \<longleftrightarrow>
     (\<exists>u e. row = build_entry (Some u) e (evaluate f e) (classify (env_lower env) e)
        \<and> entry_ip_ok e \<and> entry_fits ms_ok lo hi f e \<and> ar_by_id r u \<noteq> None)"

lemma option_all: "(case x of None \<Rightarrow> True | Some a \<Rightarrow> P a) \<longleftrightarrow> (\<forall>a. x = Some a \<longrightarrow> P a)"
  by (cases x) simp_all

lemma row_accepted:
  assumes "metas_fit r" "row_fits ms_ok lo hi env f r row" "lo \<le> snd t" "snd t \<le> hi"
  shows "\<exists>x y. checked_parsed ms_ok t host (entry_to_proto row r) = Inr (x, y) \<and> without_id x = arrived host row"
proof -
  obtain u e where row: "row = build_entry (Some u) e (evaluate f e) (classify (env_lower env) e)"
    and ips: "entry_ip_ok e" and fits: "entry_fits ms_ok lo hi f e" and known: "ar_by_id r u \<noteq> None"
    using assms(2) by (auto simp: row_fits_def)
  let ?p = "entry_to_proto row r" and ?ts = "timestamp_millis (pe_timestamp e) * ns_per_ms"
  obtain m where m: "ar_by_id r u = Some m" using known by auto
  then have tokens: "meta_fits (me_name m, me_unit_type m, me_virtual_host m)" using assms(1) by (simp add: metas_fit_def)
  have "pl_timestamp_ms ?p = timestamp_millis (pe_timestamp e)" by (simp add: entry_to_proto_def Let_def row)
  then have ts: "ts_from_ms ms_ok (fst t) (pl_timestamp_ms ?p) = ?ts"
    using fits by (simp add: ts_from_ms_def entry_fits_def Let_def)
  have "entry_acceptable ?ts (snd t) ?p"
    unfolding row pipeline_row_accepted_iff [OF ips]
    using fits tokens m assms(3,4)
    by (auto simp: entry_fits_def Let_def option_all meta_fits_def meta_of_def)
  then have "validate_parsed_entry ms_ok (fst t) (snd t) ?p host = Inr (parsed_to_ingest ?ts ?p host)"
    by (simp add: validate_parsed_entry_Inr ts)
  moreover have "without_id (pi_entry (parsed_to_ingest ?ts ?p host)) = arrived host row"
    unfolding entry_to_proto_ingest by (simp add: without_id_def arrived_def row)
  ultimately show ?thesis by (simp add: checked_parsed_def)
qed

lemma accepted_all:
  assumes "\<And>x. x \<in> set xs \<Longrightarrow> \<exists>e y. f x = Inr (e, y) \<and> h e = g x"
  shows "map h (accepted_entries (map f xs)) = map g xs"
  using assms
proof (induction xs)
  case (Cons x xs)
  then obtain e y where "f x = Inr (e, y)" "h e = g x" by force
  with Cons show ?case by (simp add: accepted_entries_def map_filter_simps)
qed (simp add: accepted_entries_def map_filter_simps)

lemma batch_accepted:
  assumes "hub_times c ms_ok lo hi" "metas_fit r" "list_all (row_fits ms_ok lo hi env f r) es"
  shows "map without_id (accepted_entries (check_request (he_ms_ok (hk_env c k)) (hk_lines c k) host (wire_request r es)))
    = map (arrived host) es"
proof -
  let ?xs = "zip [0..<length es] es"
  have "check_request (he_ms_ok (hk_env c k)) (hk_lines c k) host (wire_request r es) =
      map (\<lambda>(i, e). checked_parsed ms_ok (hk_lines c k i) host (entry_to_proto e r)) ?xs"
    using assms(1) by (simp add: check_request_def wire_request_def hub_times_def zip_map2 case_prod_beta)
  moreover have "map without_id (accepted_entries (map (\<lambda>(i, e). checked_parsed ms_ok (hk_lines c k i) host (entry_to_proto e r)) ?xs))
      = map (\<lambda>(i, e). arrived host e) ?xs"
  proof (rule accepted_all)
    fix x assume "x \<in> set ?xs"
    moreover obtain i e where e: "x = (i, e)" by force
    ultimately have x: "x = (i, e)" "e \<in> set es" using set_zip_rightD by metis+
    then have "row_fits ms_ok lo hi env f r e" using assms(3) by (simp add: list_all_iff)
    from row_accepted [OF assms(2) this, of "hk_lines c k i" host] assms(1) x
    show "\<exists>e y. (case x of (i, e) \<Rightarrow> checked_parsed ms_ok (hk_lines c k i) host (entry_to_proto e r)) = Inr (e, y)
        \<and> without_id e = (case x of (i, e) \<Rightarrow> arrived host e)"
      by (auto simp: hub_times_def)
  qed
  moreover have "map (\<lambda>(i, e). arrived host e) ?xs = map (arrived host) (map snd ?xs)"
    unfolding map_map by (rule map_cong) auto
  ultimately show ?thesis by (simp del: map_map)
qed

section \<open>From the channel to the hub\<close>

text \<open>The state of the agent's scanner and of the hub behind its sink.\<close>

definition forwarded ::
  "(int \<Rightarrow> bool) \<Rightarrow> datetime \<Rightarrow> datetime \<Rightarrow> parse_env \<Rightarrow> noise_filter \<Rightarrow> string \<Rightarrow> insert_log_entry list \<Rightarrow>
   (agent_resolver, (nat \<times> 'l hub) grpc_sink) scan_state \<Rightarrow> bool" where
  "forwarded ms_ok lo hi env f host base st \<longleftrightarrow>
     metas_fit (sc_resolver st) \<and> list_all (row_fits ms_ok lo hi env f (sc_resolver st)) (sc_batch st)
     \<and> hub_stored (sc_sink st) = base @ map (arrived host) (gk_taken (sc_sink st))"

lemma agent_resolve_fits:
  assumes "agent_resolve r n ut vh = (sid, r')" "metas_fit r" "meta_fits (n, ut, vh)"
  shows "\<exists>u. sid = Some u \<and> ar_by_id r' u \<noteq> None" "metas_fit r'"
    "row_fits ms_ok lo hi env f r row \<Longrightarrow> row_fits ms_ok lo hi env f r' row"
proof -
  have "\<exists>u. sid = Some u \<and> ar_by_id r' = (ar_by_id r)(u \<mapsto> \<lparr> me_name = n, me_unit_type = ut, me_virtual_host = vh \<rparr>)"
  proof (cases "ar_by_name r n")
    case (Some u)
    with assms(1) show ?thesis by (intro exI [where x = u]) (auto simp: agent_resolve_def)
  next
    case None
    with assms(1) show ?thesis
      by (intro exI [where x = "ar_supply r (ar_next r)"]) (auto simp: agent_resolve_def Let_def)
  qed
  then obtain u where u: "sid = Some u"
    "ar_by_id r' = (ar_by_id r)(u \<mapsto> \<lparr> me_name = n, me_unit_type = ut, me_virtual_host = vh \<rparr>)" by blast
  then show "\<exists>u. sid = Some u \<and> ar_by_id r' u \<noteq> None" by simp
  show "metas_fit r'" using assms(2,3) u(2) by (auto simp: metas_fit_def)
  show "row_fits ms_ok lo hi env f r' row" if "row_fits ms_ok lo hi env f r row"
  proof -
    from that obtain v e where "row = build_entry (Some v) e (evaluate f e) (classify (env_lower env) e)"
      "entry_ip_ok e" "entry_fits ms_ok lo hi f e" "ar_by_id r v \<noteq> None"
      by (auto simp: row_fits_def)
    moreover from this(4) have "ar_by_id r' v \<noteq> None" using u(2) by simp
    ultimately show ?thesis unfolding row_fits_def by blast
  qed
qed

lemma line_forwarded:
  assumes "line_fits ms_ok lo hi env (noise_from_config (cf_noise_filter cfg)) l"
    and "forwarded ms_ok lo hi env (noise_from_config (cf_noise_filter cfg)) host base st"
  shows "forwarded ms_ok lo hi env (noise_from_config (cf_noise_filter cfg)) host base
    (process_event (agent_scan_config env cfg) (Inr l) st)"
proof (cases "lp_parse (default_parser env (tl_file_path l)) (tl_line l)")
  case (Inl e)
  with assms(2) show ?thesis
    by (simp add: process_event_def process_with_def agent_scan_config_def row_of_def forwarded_def)
next
  case (Inr x)
  show ?thesis
  proof (cases x)
    case None
    with Inr assms(2) show ?thesis
      by (simp add: process_event_def process_with_def agent_scan_config_def row_of_def forwarded_def)
  next
    case (Some e)
    obtain n ut vh where q: "service_request (tl_file_path l) e = (n, ut, vh)" by (metis prod_cases3)
    obtain sid r' where a: "agent_resolve (sc_resolver st) n ut vh = (sid, r')" by force
    have fits: "entry_fits ms_ok lo hi (noise_from_config (cf_noise_filter cfg)) e" "meta_fits (n, ut, vh)"
      using assms(1) Inr Some q by (simp_all add: line_fits_def)
    have m: "metas_fit (sc_resolver st)" using assms(2) by (simp add: forwarded_def)
    note fit = agent_resolve_fits [OF a m fits(2)]
    obtain u where u: "sid = Some u" "ar_by_id r' u \<noteq> None" using fit(1) by blast
    have "row_fits ms_ok lo hi env (noise_from_config (cf_noise_filter cfg)) r'
        (build_entry sid e (evaluate (noise_from_config (cf_noise_filter cfg)) e) (classify (env_lower env) e))"
      using default_parser_ip_ok Inr Some fits(1) u unfolding row_fits_def by blast
    with assms(2) fit(2,3) Inr Some q a show ?thesis
      by (auto simp: process_event_def process_with_def agent_scan_config_def row_of_def forwarded_def list_all_iff)
  qed
qed

lemma flush_forwarded:
  assumes "hub_times c ms_ok lo hi" "forwarded ms_ok lo hi env f host base st"
    and "hub_ready c key host (Suc n) (sc_sink st)" "length (sc_batch st) \<le> 1000"
  shows "forwarded ms_ok lo hi env f host base (scanner_flush (grpc_insert_batch (hub_service c)) st)"
proof (cases "sc_batch st = []")
  case True
  with assms(2) show ?thesis by (simp add: scanner_flush_def flush_batch_def forwarded_def)
next
  case False
  obtain m g' k where g: "grpc_insert_batch (hub_service c) (sc_resolver st) (sc_sink st) (sc_batch st) = (Inr m, g')"
    "hub_stored g' = hub_stored (sc_sink st) @ map without_id (accepted_entries
        (check_request (he_ms_ok (hk_env c k)) (hk_lines c k) host (wire_request (sc_resolver st) (sc_batch st))))"
    using grpc_ready [OF assms(3,4)] by blast
  have "metas_fit (sc_resolver st)" "list_all (row_fits ms_ok lo hi env f (sc_resolver st)) (sc_batch st)"
    using assms(2) by (simp_all add: forwarded_def)
  from g(2) [unfolded batch_accepted [OF assms(1) this]] g(1) False assms(2) grpc.sink_ok [OF g(1)]
  show ?thesis by (simp add: scanner_flush_def flush_batch_def forwarded_def)
qed

lemma agent_rows_stored:
  assumes "hub_times c ms_ok lo hi" "hub_ready c key host (length vs) g" "gk_taken g = []"
    and "list_all (line_fits ms_ok lo hi env (noise_from_config (cf_noise_filter cfg))) (taken_lines True vs)"
    and "scan_run (agent_scan_config env cfg) (grpc_insert_batch (hub_service c)) vs
      \<lparr> sc_batch = [], sc_resolver = agent_resolver_new ids, sc_sink = g \<rparr> = (True, st)"
  shows "sc_batch st = [] \<and> hub_stored (sc_sink st) = hub_stored g
    @ map (arrived host) (rows_of_lines (agent_scan_config env cfg) (taken_lines True vs) (agent_resolver_new ids))"
proof -
  let ?cg = "agent_scan_config env cfg" and ?f = "noise_from_config (cf_noise_filter cfg)"
  let ?st = "\<lparr> sc_batch = [], sc_resolver = agent_resolver_new ids, sc_sink = g \<rparr>"
  have size: "cg_batch_size ?cg \<le> 1000" "0 < cg_batch_size ?cg"
    by (simp_all add: agent_scan_config_def max_lines_per_request_def)
  have start: "forwarded ms_ok lo hi env ?f host (hub_stored g) ?st"
    using assms(3) by (simp add: forwarded_def metas_fit_def agent_resolver_new_def)
  have "forwarded ms_ok lo hi env ?f host (hub_stored g) st"
  proof (rule grpc_reliable.run_invariant [OF size(1) _ _ assms(5)])
    show "list_all (line_fits ms_ok lo hi env ?f) (taken_lines (cg_timer ?cg) vs)"
      using assms(4) by (simp add: agent_scan_config_def)
  qed (use assms(2) size(2) start line_forwarded flush_forwarded [OF assms(1)] in auto)
  moreover have "sc_batch st = []"
    using grpc_reliable.run_bounded [OF size(1) _ _ assms(5)] assms(2) size(2) by simp
  ultimately show ?thesis
    using grpc.run_complete [OF assms(5)] assms(3) by (simp add: forwarded_def agent_scan_config_def)
qed

end
