(* ===== verification/Spec2Isabelle.thy ===== *)
theory Spec2Isabelle
  imports AuthTasks RunHub AgentLogs Daemon DockerLogs Shell Journal AuthRows Visits Forwarding
begin

text \<open>
  A model of Sentinel, a log monitor written in Rust, and the properties that make it correct.

  \<^bold>\<open>The program.\<close> Sentinel is one binary with several modes (\<open>src/src/main.rs\<close>). As a \<^emph>\<open>daemon\<close> it tails
  the log files of a machine, parses, filters and classifies every line, and stores the rows in
  Postgres. As an \<^emph>\<open>agent\<close> it does the same on another machine, but sends the rows, Docker log lines and
  system metrics to a \<^emph>\<open>hub\<close> over gRPC. The hub authenticates keys, validates what it is sent, stores it,
  serves a REST API and prunes old rows. The \<^emph>\<open>viewer\<close> shows stored entries in a terminal. A file change
  passes through tailer, channel, scanner, pipeline and sink; the sink is the repository in the daemon
  and the gRPC client in the agent, whose requests meet the hub's authentication and validation.

  \<^bold>\<open>Theories and what they model\<close> (paths under \<open>src/src\<close>):
  \<^item> \<open>Prelude\<close>, \<open>Text\<close>, \<open>NetAddr\<close>, \<open>Float64\<close>: what the code uses of the standard library. Strings are lists
    of bytes (\<open>string\<close>), so lengths and offsets are those of Rust; \<open>utf8_ok\<close> is the validity of UTF-8.
    Results are sums (\<open>Inl\<close> the error). \<open>f64\<close> is exact: rationals rounded to the nearest representable.
  \<^item> \<open>Errors\<close>, \<open>LogEntry\<close>: \<open>error.rs\<close>, \<open>db/models.rs\<close> and the entries of \<open>log_scanner/parser/mod.rs\<close>.
  \<^item> \<open>Sources\<close>: source names and discovery (\<open>log_scanner/source.rs\<close>, \<open>source_discovery.rs\<close>).
  \<^item> \<open>Parsers\<close>, \<open>Patterns\<close>, \<open>Classifier\<close>, \<open>Noise\<close>: \<open>log_scanner/parser\<close>, \<open>classifier\<close>, \<open>filter.rs\<close>.
  \<^item> \<open>Regex\<close>, \<open>AccessLog\<close>, \<open>AuthLog\<close>: the five patterns of the parsers as regular expressions with named
    groups. \<open>Visits\<close>, \<open>AuthRows\<close>: the lines that nginx and sshd print, followed to the rows they become.
  \<^item> \<open>Pipeline\<close>: \<open>log_scanner/pipeline.rs\<close>; the interface \<open>service_resolver\<close> with the database-backed and
    the in-memory resolver, the row built for a line.
  \<^item> \<open>Tailer\<close>: \<open>log_scanner/tailer\<close>, the per-file state machine and the tailing loop over delivered events.
  \<^item> \<open>Scanner\<close>: \<open>log_scanner/scanner.rs\<close>; the batching loop over what each poll finds ready, and the
    interfaces \<open>log_sink\<close> and \<open>reliable_sink\<close>, interpreted on the repository here and on the agent's sink.
  \<^item> \<open>Config\<close>: \<open>config.rs\<close>, \<open>setup.rs\<close>. \<open>ServiceRepo\<close>, \<open>LogRepo\<close>, \<open>KeyRepo\<close>, \<open>HubRepos\<close>, \<open>LogQuery\<close>:
    \<open>db/repositories\<close>, \<open>hub/retention.rs\<close> and \<open>tui/data\<close>, a table as a list of rows with the statements'
    effect written out.
  \<^item> \<open>KeyAuth\<close>, \<open>Validate\<close>, \<open>Ingest\<close>, \<open>Rest\<close>, \<open>RunHub\<close>, \<open>KeysCli\<close>: the hub, \<open>hub\<close>.
  \<^item> \<open>HubSystem\<close>, \<open>Revocation\<close>: the running hub as one system, the gRPC and the REST server with their own
    authentication services, the retention loop and the key command over the same tables, in any order of
    calls. What a server owes the others are the locales \<open>safe_server\<close>, \<open>accounting_server\<close> and
    \<open>auth_contract\<close>, interpreted on the handlers. \<open>AuthTasks\<close> cuts \<open>authenticate\<close> at the points where it awaits
    and lets requests, commands and stamps mix there (\<open>pool_step\<close>).
  \<^item> \<open>Batcher\<close>, \<open>Agent\<close>, \<open>AgentLogs\<close>, \<open>DockerLogs\<close>: the agent, \<open>agent\<close>. \<open>Forwarding\<close>: its scanner with the hub as
    the peer, request by request; the interface \<open>reliable_sink\<close> is interpreted there on the gRPC sink.
  \<^item> \<open>Systemd\<close>, \<open>UnitStatus\<close>, \<open>Journal\<close>: \<open>service_tracker\<close>, which nothing starts yet: unit files, the status
    that \<open>systemctl\<close> prints, and the journal tailer with its threads and tasks as a step relation. \<open>Lossy\<close>
    is \<open>String::from_utf8_lossy\<close>.
  \<^item> \<open>Daemon\<close>: \<open>daemon\<close> and \<open>main.rs\<close>. \<open>Viewer\<close>: \<open>tui\<close>, with the contract \<open>log_data_source\<close> that both data
    sources implement. \<open>Shell\<close>: the components of the application, the event listener, and the set-up and
    reset of the terminal.

  Stateful code is a function that returns the new state; a loop is a recursion over the inputs it
  gets to see (polls, delivered events, turns of the terminal), so every interleaving of the inputs is a
  list and the theorems hold for all of them. The hub process and the agent are step functions with
  reachability (\<open>hub_step\<close>, \<open>agent_step\<close>), the calls on the hub's
  tables a fold over any list of calls (\<open>hub_call\<close>, \<open>hub_serve\<close>), the journal tailer an inductive relation (\<open>journal_step\<close>). No fuel is used: all recursions end, the ones over text by a
  measure on its length. Machine integers keep their width.

  \<^bold>\<open>What is proved.\<close> In this theory, \<open>growing_log_is_stored\<close> puts tailer, scanner, pipeline and repository
  together: lines that are written whole are stored once and in order; \<open>probes_in_access_log_are_stored\<close> adds
  nginx, the parser, filter and classifier: every logged request is a row with its values, and a scanner
  probe a security row; \<open>growing_log_reaches_the_hub\<close> takes the way of an agent, over gRPC and the hub's
  checks. Of the running hub: \<open>hub_stays_sound\<close> (caches and tables stay consistent, and every row bears
  the host of a key that may write it), \<open>hub_stores_what_it_acknowledges\<close> (the tables grow by what the answers
  acknowledge) and \<open>revoked_key_dies_within_a_minute\<close>, which \<open>interleaved_revocation_takes_effect\<close> carries over to
  interleaved requests. Per component: the tailer reads
  every whole line once and its offsets are exact; the scanner loses, repeats and reorders nothing on
  any sink that keeps its contract, and ends exactly by cancellation; the classification is the
  documented function of the indicators; the services of rows are resolved consistently; batches are
  atomic; retention deletes nothing that is not expired; a principal always stems from a verification
  of the last minute; a REST route is only served, and data only stored, for a key with the
  permission; what an agent sends and the hub accepts arrives unchanged up to the stated cuts; the
  viewer follows the stored entries and never selects beyond them. A second group of properties states
  behaviour that the comments of the code deny or that defeats its purpose: the cache of verified keys
  looks at the public id only, a verification
  under way outlives a revocation, the user name of a failed login can name the address that is reported, a
  half-written line loses a byte, a batch over 1000 entries stops an
  agent for ever, Docker lines are never stored and stop the agent, the daemon stops following files,
  the hub listens in plaintext with \<open>tls.enabled\<close> and does not stop on a signal, the viewer leaves holes,
  the journal tailer delivers nothing.

  \<^bold>\<open>Parameters and their hypotheses.\<close> Code that is not in the repository enters as an argument: the engine of the
  regex crate (\<open>regex_law\<close>: what it returns is a match, and it returns one when there is one; \<open>search_law\<close>:
  the match that begins first; both hold of the matcher in \<open>Regex\<close>), its Unicode tables, glob patterns, chrono's parsing, YAML and JSON, argon2, the rate
  limiter, the case table of non-ASCII text, the file system and notify's events, the clock, \<open>ps\<close> and
  process start, the terminal's list widget (\<open>list_widget_ok\<close>: a selected row that exists stays
  selected). The database answers or fails at every query by \<open>pg_up\<close>; \<open>db_healthy m n\<close> says that it
  answers its next \<open>n\<close> queries, takes rows and bind parameters of \<open>m\<close> entries and draws fresh ids. Paths
  are compared as strings, without links. Each hypothesis is met by a concrete instance in a theorem
  whose name ends in \<open>_witness\<close>.

  \<^bold>\<open>Not modelled.\<close> the live engine of the journal library (it is what yields the items); the migrations; what sqlx
  does inside a connection pool; tracing and the text of log messages; the layout on the terminal; the gRPC transport
  (a call reaches the peer or fails; a handler is one step but for
  its authentication in \<open>AuthTasks\<close>, the
  routing inside tonic and actix and its limit on the size of a body are not included); the web dashboard, deployment files and tests.
\<close>

section \<open>From the file to the table\<close>

lemma taken_lines_uncancelled:
  assumes "list_all (\<lambda>v. pv_event v \<noteq> None \<or> \<not> pv_cancelled v) vs"
  shows "taken_lines timer (vs @ ws) =
    List.map_filter (case_sum (\<lambda>_. None) Some) (List.map_filter pv_event vs) @ taken_lines timer ws"
  using assms
  by (induction vs) (auto simp: select_def map_filter_simps split: option.splits sum.splits)

lemma map_filter_Inr [simp]: "List.map_filter (case_sum (\<lambda>_. None) Some) (map Inr xs) = xs"
  by (induction xs) (simp_all add: map_filter_simps)

lemma growing_log_rows:
  assumes "file_name p \<noteq> None" "list_all whole_lines (c # xs)"
    and "tailer_start (\<lambda>_. Inr ()) (one_file p c) (grow_inputs p c xs) None (with_files [p] file_tailer_new)
      = Inr (t, s, ch)"
    and "List.map_filter pv_event vs = ch_sent ch"
    and "list_all (\<lambda>v. pv_event v \<noteq> None \<or> \<not> pv_cancelled v) vs"
    and "db_healthy m (Suc (length vs)) db" "0 < cg_batch_size cg" "cg_batch_size cg \<le> m"
    and "scan_run cg repository_sink (vs @ [\<lparr> pv_event = None, pv_cancelled = True, pv_tick = k \<rparr>])
      \<lparr> sc_batch = [], sc_resolver = r, sc_sink = db \<rparr> = (d, st)"
  shows "d \<and> sc_batch st = [] \<and> stored_entries (sc_sink st) =
    stored_entries db @ rows_of_lines cg (tail_lines p 0 (lines (c @ concat xs))) r"
proof -
  let ?vs = "vs @ [\<lparr> pv_event = None, pv_cancelled = True, pv_tick = k \<rparr>]"
  let ?st = "\<lparr> sc_batch = [], sc_resolver = r, sc_sink = db \<rparr>"
  have sent: "ch_sent ch = map Inr (tail_lines p 0 (lines (c @ concat xs)))"
    using start_single_file [OF assms(1,2), of "with_files [p] file_tailer_new" "\<lambda>_. Inr ()"] assms(3)
    by (simp add: with_files_def file_tailer_new_def)
  have "fst (scan_run cg repository_sink ?vs ?st)" by (simp add: scan_run_returns)
  with assms(9) have d: "d" by simp
  have "taken_lines (cg_timer cg) ?vs = tail_lines p 0 (lines (c @ concat xs))"
    unfolding taken_lines_uncancelled [OF assms(5)] assms(4) sent by (simp add: select_def)
  with repo_sink.run_conserves [OF assms(9)] repo_reliable.run_bounded [OF assms(8) _ _ assms(9)] assms(6,7) d
  show ?thesis by simp
qed





section \<open>From the file to the hub\<close>


definition sample_course :: "(string, unit) hub_course" where
  "sample_course =
     \<lparr> hk_env = (\<lambda>_. sample_hub_env), hk_lines = (\<lambda>_ _. (0, 0)), hk_metrics = (\<lambda>_. (0, 0)), hk_remote = None \<rparr>"

definition sample_grpc_sink :: "(nat \<times> unit hub) grpc_sink" where
  "sample_grpc_sink =
     \<lparr> gk_client = \<lparr> hc_peer = (0, sample_hub), hc_api_key = sample_agent_key, hc_metrics = [], hc_requests = [] \<rparr>,
       gk_taken = [] \<rparr>"

lemma sample_auth_ready: "auth_ready sample_course sample_agent_key ''web1'' k n (hb_auth sample_hub)"
proof (induction n arbitrary: k)
  case (Suc n)
  then show ?case
    by (simp add: sample_course_def sample_hub_env_def sample_hub_def check_ip_budget_def
        authenticate_hit [OF sample_agent_key_id] cache_get_def entry_fresh_def sample_agent_principal_def)
qed simp

lemma sample_hub_ready: "n \<le> 1000 \<Longrightarrow> hub_ready sample_course sample_agent_key ''web1'' n sample_grpc_sink"
  using sample_auth_ready [of 0 n] sample_db_healthy_upto [of 1000 n]
  by (simp add: hub_ready_def sample_grpc_sink_def) (simp add: sample_hub_def)

lemma sample_line_fits:
  "line_fits (\<lambda>_. True) 0 0 sample_parse_env (noise_from_config (cf_noise_filter default_config))
    (mk_line ''/v/auth.log'' 0 ''a'')"
proof -
  have t: "trim ''a'' = ''a''" by (rule trim_visible) (simp add: visible_def in_range_def byte_def)
  have p: "file_name ''/v/auth.log'' = Some ''auth.log''" "vhost_from_file_path ''/v/auth.log'' = None" by code_simp+
  have m: "meta_fits (''auth.log'', unit_type_system_log, None)" by code_simp
  show ?thesis
    by (simp add: line_fits_def mk_line_def default_parser_def auth_parser_def auth_parse_def p t sample_parse_env_def
        classify_auth_message_def Let_def entry_fits_def evaluate_def default_metadata_def timestamp_millis_def
        ns_per_s_def noise_reason_of_def service_request_def entry_virtual_host_def unwrap_or_def m)
qed


end
